(* ===== verification/Prelude.thy ===== *)
theory Prelude
  imports Main "HOL-Library.Sublist"
begin

text \<open>
  Shared vocabulary of the development.

  \<^item> Results of fallible code: \<open>ebind\<close> sequences computations of type \<open>'e + 'a\<close>
    (\<open>Inl\<close> is a raised exception), with the case rules the component proofs use.
  \<^item> Database tables: a table is the list of its rows. \<open>update_where\<close> is SQL's
    \<^verbatim>\<open>UPDATE ... WHERE\<close>, \<open>uniq\<close> states that a (possibly partial) unique
    index holds; the locale \<open>key_preserving\<close> is the contract of an update that leaves an
    index column alone.
  \<^item> State machines: \<open>reachable_from\<close>, and the locale \<open>inductive_invariant\<close>
    that lifts a one-step invariant to every reachable state.
  \<^item> Time in microseconds, and generic facts on lists.
\<close>

named_theorems table_simps \<open>facts about tables: rows, keys and updates\<close>
named_theorems result_simps \<open>facts about computations that may raise\<close>

section \<open>Computations that may raise\<close>

definition ebind :: "'e + 'a \<Rightarrow> ('a \<Rightarrow> 'e + 'b) \<Rightarrow> 'e + 'b" where
  "ebind m f = (case m of Inl e \<Rightarrow> Inl e | Inr x \<Rightarrow> f x)"

lemma ebind_simps [simp, result_simps]:
  "ebind (Inl e) f = Inl e"
  "ebind (Inr x) f = f x"
  by (simp_all add: ebind_def)

lemma ebind_Inr_iff [result_simps]: "ebind m f = Inr y \<longleftrightarrow> (\<exists>x. m = Inr x \<and> f x = Inr y)"
  by (cases m) simp_all

lemma ebind_Inl_iff [result_simps]:
  "ebind m f = Inl e \<longleftrightarrow> m = Inl e \<or> (\<exists>x. m = Inr x \<and> f x = Inl e)"
  by (cases m) simp_all

text \<open>A guard that raises: the early exit \<^verbatim>\<open>if b: raise e\<close>.\<close>

definition raise_if :: "bool \<Rightarrow> 'e \<Rightarrow> 'e + unit" where
  "raise_if b e = (if b then Inl e else Inr ())"

lemma raise_if_simps [simp, result_simps]:
  "raise_if True e = Inl e"
  "raise_if False e = Inr ()"
  "raise_if b e = Inr u \<longleftrightarrow> \<not> b"
  "raise_if b e = Inl e' \<longleftrightarrow> b \<and> e' = e"
  by (auto simp: raise_if_def)

definition of_option :: "'e \<Rightarrow> 'a option \<Rightarrow> 'e + 'a" where
  "of_option e m = (case m of None \<Rightarrow> Inl e | Some x \<Rightarrow> Inr x)"

lemma of_option_simps [simp, result_simps]:
  "of_option e None = Inl e"
  "of_option e (Some x) = Inr x"
  "of_option e m = Inr x \<longleftrightarrow> m = Some x"
  "of_option e m = Inl e' \<longleftrightarrow> m = None \<and> e' = e"
  by (auto simp: of_option_def split: option.splits)

lemma case_Inr_iff [result_simps]:
  "(case xs of [] \<Rightarrow> Inl e | x # zs \<Rightarrow> f x zs) = Inr y \<longleftrightarrow> (\<exists>x zs. xs = x # zs \<and> f x zs = Inr y)"
  "(case m of None \<Rightarrow> Inl e | Some x \<Rightarrow> g x) = Inr y \<longleftrightarrow> (\<exists>x. m = Some x \<and> g x = Inr y)"
  by (auto split: list.splits option.splits)

section \<open>Tables\<close>

definition update_where :: "('r \<Rightarrow> bool) \<Rightarrow> ('r \<Rightarrow> 'r) \<Rightarrow> 'r list \<Rightarrow> 'r list" where
  "update_where p f rows = map (\<lambda>r. if p r then f r else r) rows"

lemma update_where_simps [simp, table_simps]:
  "update_where p f [] = []"
  "update_where p f (r # rows) = (if p r then f r else r) # update_where p f rows"
  by (simp_all add: update_where_def)

lemma length_update_where [simp, table_simps]: "length (update_where p f rows) = length rows"
  by (simp add: update_where_def)

lemma update_where_append [table_simps]:
  "update_where p f (xs @ ys) = update_where p f xs @ update_where p f ys"
  by (simp add: update_where_def)

lemma set_update_where [table_simps]:
  "set (update_where p f rows) = (\<lambda>r. if p r then f r else r) ` set rows"
  by (simp add: update_where_def)

lemma update_where_none: "(\<And>r. r \<in> set rows \<Longrightarrow> \<not> p r) \<Longrightarrow> update_where p f rows = rows"
  by (simp add: update_where_def map_idI)

lemma map_update_where:
  assumes "\<And>r. r \<in> set rows \<Longrightarrow> p r \<Longrightarrow> g (f r) = g r"
  shows "map g (update_where p f rows) = map g rows"
  using assms by (simp add: update_where_def)

text \<open>
  A unique index: rows with key \<open>None\<close> are outside the index (the \<^verbatim>\<open>WHERE\<close>
  clause of a partial index), any two others have different keys.
\<close>

definition keys_of :: "('r \<Rightarrow> 'k option) \<Rightarrow> 'r list \<Rightarrow> 'k list" where
  "keys_of key rows = List.map_filter key rows"

definition uniq :: "('r \<Rightarrow> 'k option) \<Rightarrow> 'r list \<Rightarrow> bool" where
  "uniq key rows \<longleftrightarrow> distinct (keys_of key rows)"

definition has_key :: "('r \<Rightarrow> 'k option) \<Rightarrow> 'k \<Rightarrow> 'r list \<Rightarrow> bool" where
  "has_key key k rows \<longleftrightarrow> list_ex (\<lambda>r. key r = Some k) rows"

text \<open>The insert of a row whose key is taken violates the index.\<close>

definition conflicts :: "('r \<Rightarrow> 'k option) \<Rightarrow> 'r \<Rightarrow> 'r list \<Rightarrow> bool" where
  "conflicts key r rows \<longleftrightarrow> (case key r of None \<Rightarrow> False | Some k \<Rightarrow> has_key key k rows)"

lemma keys_of_simps [simp, table_simps]:
  "keys_of key [] = []"
  "keys_of key (r # rows) = (case key r of None \<Rightarrow> keys_of key rows | Some k \<Rightarrow> k # keys_of key rows)"
  by (simp_all add: keys_of_def List.map_filter_simps split: option.split)

lemma keys_of_append [table_simps]: "keys_of key (xs @ ys) = keys_of key xs @ keys_of key ys"
  by (induction xs) (auto split: option.splits)

lemma set_keys_of [table_simps]: "set (keys_of key rows) = {k. \<exists>r \<in> set rows. key r = Some k}"
  by (induction rows) (auto split: option.splits)

lemma has_key_iff [table_simps]: "has_key key k rows \<longleftrightarrow> (\<exists>r \<in> set rows. key r = Some k)"
  by (simp add: has_key_def list_ex_iff)

lemma uniq_Nil [simp, table_simps]: "uniq key []"
  by (simp add: uniq_def)

lemma uniq_snoc: "uniq key (rows @ [r]) \<longleftrightarrow> uniq key rows \<and> \<not> conflicts key r rows"
  by (auto simp: uniq_def conflicts_def keys_of_append set_keys_of has_key_iff split: option.splits)

lemma uniq_Cons: "uniq key (r # rows) \<longleftrightarrow> uniq key rows \<and> \<not> conflicts key r rows"
  by (auto simp: uniq_def conflicts_def set_keys_of has_key_iff split: option.splits)

lemma uniq_same_row:
  assumes "uniq key rows" and "r \<in> set rows" and "s \<in> set rows"
    and "key r = Some k" and "key s = Some k"
  shows "r = s"
  using assms
  by (induction rows) (auto simp: uniq_Cons conflicts_def has_key_iff)

lemma uniq_filter: "uniq key rows \<Longrightarrow> uniq key (filter q rows)"
  by (induction rows) (auto simp: uniq_Cons conflicts_def has_key_iff split: option.splits)

lemma keys_of_update_where:
  assumes "\<And>r. r \<in> set rows \<Longrightarrow> p r \<Longrightarrow> key (f r) = key r"
  shows "keys_of key (update_where p f rows) = keys_of key rows"
  using assms by (induction rows) (auto split: option.splits)

text \<open>
  An update may give a row a new key if no other row has it.  The update touches at most
  the rows of one old key, so at most one row changes.
\<close>

lemma uniq_update_fresh:
  assumes "uniq key rows" and "\<not> has_key key k rows"
    and "\<And>r. r \<in> set rows \<Longrightarrow> p r \<Longrightarrow> key (f r) = Some k"
    and "\<And>r s. r \<in> set rows \<Longrightarrow> s \<in> set rows \<Longrightarrow> p r \<Longrightarrow> p s \<Longrightarrow> r = s"
    and "distinct rows"
  shows "uniq key (update_where p f rows)"
  using assms
proof (induction rows)
  case Nil
  then show ?case by simp
next
  case (Cons r rows)
  have IH: "uniq key (update_where p f rows)"
    using Cons.prems
    by (intro Cons.IH) (auto simp: uniq_Cons has_key_iff)
  show ?case
  proof (cases "p r")
    case True
    then have "\<And>s. s \<in> set rows \<Longrightarrow> \<not> p s"
      using Cons.prems(4,5) by (metis distinct.simps(2) list.set_intros(1,2))
    then have "update_where p f rows = rows"
      by (intro update_where_none)
    with True Cons.prems show ?thesis
      by (auto simp: uniq_Cons conflicts_def has_key_iff)
  next
    case False
    have "\<not> conflicts key r (update_where p f rows)"
      using Cons.prems
      by (auto simp: uniq_Cons conflicts_def has_key_iff set_update_where split: option.splits if_splits)
    with False IH show ?thesis
      by (simp add: uniq_Cons)
  qed
qed

text \<open>
  The contract of an update that leaves an indexed column alone: the index survives
  whatever the \<^verbatim>\<open>WHERE\<close> clause selects.
\<close>

locale key_preserving =
  fixes key :: "'r \<Rightarrow> 'k option"
    and f :: "'r \<Rightarrow> 'r"
  assumes key_kept: "key (f r) = key r"
begin

lemma keys_kept: "keys_of key (update_where p f rows) = keys_of key rows"
  by (rule keys_of_update_where) (simp add: key_kept)

lemma uniq_kept: "uniq key (update_where p f rows) = uniq key rows"
  by (simp add: uniq_def keys_kept)

lemma has_key_kept: "has_key key k (update_where p f rows) = has_key key k rows"
proof -
  have "has_key key k (update_where p f rows) = (k \<in> set (keys_of key (update_where p f rows)))"
    by (simp add: has_key_iff set_keys_of)
  also have "\<dots> = has_key key k rows"
    by (simp only: keys_kept) (simp add: has_key_iff set_keys_of)
  finally show ?thesis .
qed

end

section \<open>State machines\<close>

inductive reachable_from :: "('s \<Rightarrow> 's \<Rightarrow> bool) \<Rightarrow> 's \<Rightarrow> 's \<Rightarrow> bool" for step s0 where
  start: "reachable_from step s0 s0"
| step: "reachable_from step s0 s \<Longrightarrow> step s t \<Longrightarrow> reachable_from step s0 t"

lemma reachable_from_trans:
  assumes "reachable_from step b c" and "reachable_from step a b"
  shows "reachable_from step a c"
  using assms by (induction rule: reachable_from.induct) (auto intro: reachable_from.step)

locale inductive_invariant =
  fixes step :: "'s \<Rightarrow> 's \<Rightarrow> bool"
    and inv :: "'s \<Rightarrow> bool"
  assumes step_inv: "step s t \<Longrightarrow> inv s \<Longrightarrow> inv t"
begin

lemma reachable_inv: "reachable_from step s0 s \<Longrightarrow> inv s0 \<Longrightarrow> inv s"
  by (induction rule: reachable_from.induct) (auto intro: step_inv)

end

section \<open>Time\<close>

text \<open>Instants and durations are counted in microseconds, the resolution of \<^verbatim>\<open>datetime\<close>.\<close>

definition seconds :: "int \<Rightarrow> int" where
  "seconds n = n * 1000000"

lemma seconds_less [simp]: "seconds a < seconds b \<longleftrightarrow> a < b" "seconds a \<le> seconds b \<longleftrightarrow> a \<le> b" "0 < seconds a \<longleftrightarrow> 0 < a"
  by (simp_all add: seconds_def)

section \<open>Lists\<close>

lemma list_ex_find: "list_ex p xs \<longleftrightarrow> find p xs \<noteq> None"
  by (auto simp: list_ex_iff find_None_iff)

lemma find_SomeD: "find p xs = Some x \<Longrightarrow> x \<in> set xs \<and> p x"
  by (induction xs) (auto split: if_splits)

lemma filter_list_update:
  assumes "i < length xs"
  shows "length (filter p (xs[i := y])) + (if p (xs ! i) then 1 else 0) = length (filter p xs) + (if p y then 1 else 0)"
  using assms
proof (induction xs arbitrary: i)
  case (Cons x xs)
  then show ?case by (cases i) (auto split: if_splits)
qed simp

lemma list_all_update: "list_all p xs \<Longrightarrow> p y \<Longrightarrow> list_all p (xs[i := y])"
  by (auto simp: list_all_iff dest!: set_update_subset_insert [THEN subsetD])

lemma filter_singleton:
  assumes "distinct xs" and "x \<in> set xs" and "p x" and "\<And>y. y \<in> set xs \<Longrightarrow> p y \<Longrightarrow> y = x"
  shows "filter p xs = [x]"
proof -
  obtain as bs where xs: "xs = as @ x # bs" using assms(2) by (meson split_list)
  then have "filter p as = []" "filter p bs = []"
    using assms(1,4) unfolding filter_empty_conv by (metis UnCI distinct.simps(2) distinct_append list.set_intros disjoint_iff set_append)+
  with xs assms(3) show ?thesis by simp
qed

end
