(* ===== verification/Py_Str.thy ===== *)
theory Py_Str
  imports Prelude
begin

text \<open>
  Python's \<^verbatim>\<open>str\<close>: a string is the list of its code points.

  The operations are those of the language that the program uses (\<^verbatim>\<open>strip\<close>,
  \<^verbatim>\<open>split\<close>, \<^verbatim>\<open>partition\<close>, \<^verbatim>\<open>find\<close>, \<^verbatim>\<open>lower\<close>, ...).
  They are exact; the two things that need the Unicode character database
  (\<^verbatim>\<open>lower\<close> of a string with non-ASCII characters, NFKC normalization) and the
  third-party \<^verbatim>\<open>idna\<close> package are the fields of a \<open>text_env\<close>, an argument of
  every definition that depends on them.  \<open>lit\<close> writes an ASCII literal.
\<close>

type_synonym ustr = "int list"

definition lit :: "string \<Rightarrow> ustr" where
  "lit s = map of_char s"

lemma lit_eq_iff [simp]: "lit a = lit b \<longleftrightarrow> a = b"
proof -
  have "inj (of_char :: char \<Rightarrow> int)"
    by (rule injI) (simp add: of_char_eq_iff)
  then show ?thesis
    by (simp add: lit_def inj_map_eq_map)
qed

lemma lit_Nil [simp]: "lit [] = []"
  by (simp add: lit_def)

lemma lit_eq_Nil [simp]: "lit a = [] \<longleftrightarrow> a = []"
  by (simp add: lit_def)

lemma length_lit [simp]: "length (lit a) = length a"
  by (simp add: lit_def)

record text_env =
  str_lower :: "ustr \<Rightarrow> ustr" \<comment> \<open>\<open>str.lower\<close> of a string with non-ASCII characters\<close>
  nfkc :: "ustr \<Rightarrow> ustr" \<comment> \<open>\<open>unicodedata.normalize("NFKC", _)\<close>\<close>
  idna_encode :: "ustr \<Rightarrow> ustr option" \<comment> \<open>\<open>idna.encode(_, uts46=True)\<close>; \<open>None\<close> is \<open>IDNAError\<close>\<close>

text \<open>An environment without Unicode tables, enough to evaluate ASCII inputs.\<close>

definition te_ascii :: text_env where
  "te_ascii = \<lparr>str_lower = (\<lambda>s. s), nfkc = (\<lambda>s. s), idna_encode = (\<lambda>_. None)\<rparr>"

section \<open>Character classes and case\<close>

definition isascii :: "ustr \<Rightarrow> bool" where
  "isascii s \<longleftrightarrow> list_all (\<lambda>c. c < 128) s"

definition is_upper_ascii :: "int \<Rightarrow> bool" where
  "is_upper_ascii c \<longleftrightarrow> 65 \<le> c \<and> c \<le> 90"

definition is_lower_ascii :: "int \<Rightarrow> bool" where
  "is_lower_ascii c \<longleftrightarrow> 97 \<le> c \<and> c \<le> 122"

definition is_digit_ascii :: "int \<Rightarrow> bool" where
  "is_digit_ascii c \<longleftrightarrow> 48 \<le> c \<and> c \<le> 57"

definition is_alpha_ascii :: "int \<Rightarrow> bool" where
  "is_alpha_ascii c \<longleftrightarrow> is_upper_ascii c \<or> is_lower_ascii c"

definition is_hex_digit :: "int \<Rightarrow> bool" where
  "is_hex_digit c \<longleftrightarrow> is_digit_ascii c \<or> (65 \<le> c \<and> c \<le> 70) \<or> (97 \<le> c \<and> c \<le> 102)"

lemmas char_class_defs =
  is_upper_ascii_def is_lower_ascii_def is_digit_ascii_def is_alpha_ascii_def is_hex_digit_def

definition ascii_lower :: "int \<Rightarrow> int" where
  "ascii_lower c = (if is_upper_ascii c then c + 32 else c)"

definition ascii_upper :: "int \<Rightarrow> int" where
  "ascii_upper c = (if is_lower_ascii c then c - 32 else c)"

definition py_lower :: "text_env \<Rightarrow> ustr \<Rightarrow> ustr" where
  "py_lower te s = (if isascii s then map ascii_lower s else str_lower te s)"

lemma ascii_lower_idem [simp]: "ascii_lower (ascii_lower c) = ascii_lower c"
  by (simp add: ascii_lower_def is_upper_ascii_def)

lemma isascii_simps [simp]:
  "isascii []"
  "isascii (c # s) \<longleftrightarrow> c < 128 \<and> isascii s"
  "isascii (s @ t) \<longleftrightarrow> isascii s \<and> isascii t"
  by (simp_all add: isascii_def)

lemma isascii_lower [simp]: "isascii (map ascii_lower s) = isascii s"
  by (induction s) (auto simp: ascii_lower_def is_upper_ascii_def)

lemma isascii_lit: "list_all (\<lambda>c. (of_char c :: int) < 128) s \<Longrightarrow> isascii (lit s)"
  by (simp add: isascii_def lit_def list.pred_map comp_def)

lemma py_lower_idem:
  "isascii s \<Longrightarrow> py_lower te (py_lower te s) = py_lower te s"
  by (simp add: py_lower_def)

lemma isascii_py_lower: "isascii s \<Longrightarrow> isascii (py_lower te s)"
  by (simp add: py_lower_def)

lemma py_lower_Nil [simp]: "py_lower te [] = []"
  by (simp add: py_lower_def)

text \<open>\<^verbatim>\<open>str.isspace\<close>, one character at a time (the whole set).\<close>

definition is_space :: "int \<Rightarrow> bool" where
  "is_space c \<longleftrightarrow> (9 \<le> c \<and> c \<le> 13) \<or> (28 \<le> c \<and> c \<le> 32) \<or> c = 0x85 \<or> c = 0xA0 \<or> c = 0x1680
     \<or> (0x2000 \<le> c \<and> c \<le> 0x200A) \<or> c = 0x2028 \<or> c = 0x2029 \<or> c = 0x202F \<or> c = 0x205F \<or> c = 0x3000"

section \<open>Stripping\<close>

definition lstrip_by :: "('a \<Rightarrow> bool) \<Rightarrow> 'a list \<Rightarrow> 'a list" where
  "lstrip_by p s = dropWhile p s"

definition rstrip_by :: "('a \<Rightarrow> bool) \<Rightarrow> 'a list \<Rightarrow> 'a list" where
  "rstrip_by p s = rev (dropWhile p (rev s))"

definition strip_by :: "('a \<Rightarrow> bool) \<Rightarrow> 'a list \<Rightarrow> 'a list" where
  "strip_by p s = rstrip_by p (lstrip_by p s)"

abbreviation strip :: "ustr \<Rightarrow> ustr" where
  "strip s \<equiv> strip_by is_space s"

lemma set_rstrip_by: "set (rstrip_by p s) \<subseteq> set s"
  unfolding rstrip_by_def by (auto dest: set_dropWhileD)

lemma set_strip_by: "set (strip_by p s) \<subseteq> set s"
  unfolding strip_by_def lstrip_by_def using set_rstrip_by by (fastforce dest: set_dropWhileD)

lemma length_rstrip_by: "length (rstrip_by p s) \<le> length s"
  by (simp add: rstrip_by_def) (metis length_dropWhile_le length_rev)

lemma length_strip_by: "length (strip_by p s) \<le> length s"
  unfolding strip_by_def lstrip_by_def
  by (rule order_trans [OF length_rstrip_by]) (rule length_dropWhile_le)

lemma last_rstrip_by: "rstrip_by p s \<noteq> [] \<Longrightarrow> \<not> p (last (rstrip_by p s))"
  unfolding rstrip_by_def by (metis Nil_is_rev_conv hd_dropWhile last_rev rev_rev_ident)

lemma rstrip_by_id: "s = [] \<or> \<not> p (last s) \<Longrightarrow> rstrip_by p s = s"
  by (cases s rule: rev_cases) (auto simp: rstrip_by_def)

lemma rstrip_by_idem [simp]: "rstrip_by p (rstrip_by p s) = rstrip_by p s"
  using last_rstrip_by rstrip_by_id by blast

lemma hd_rstrip_by: "rstrip_by p s \<noteq> [] \<Longrightarrow> hd (rstrip_by p s) = hd s"
proof -
  assume ne: "rstrip_by p s \<noteq> []"
  have "s = rstrip_by p s @ rev (takeWhile p (rev s))"
    unfolding rstrip_by_def by (metis rev_append rev_rev_ident takeWhile_dropWhile_id)
  with ne show ?thesis by (metis hd_append2)
qed

lemma strip_by_idem [simp]: "strip_by p (strip_by p s) = strip_by p s"
proof (cases "strip_by p s")
  case Nil
  then show ?thesis by (simp only: Nil) (simp add: strip_by_def lstrip_by_def rstrip_by_def)
next
  case (Cons c t)
  have r: "strip_by p s = rstrip_by p (dropWhile p s)"
    by (simp add: strip_by_def lstrip_by_def)
  have ne: "dropWhile p s \<noteq> []"
  proof
    assume "dropWhile p s = []"
    then have "strip_by p s = []" by (simp only: r) (simp add: rstrip_by_def)
    with Cons show False by simp
  qed
  have "hd (strip_by p s) = hd (dropWhile p s)"
    unfolding r by (rule hd_rstrip_by) (use Cons r in simp)
  with Cons have "\<not> p c"
    using hd_dropWhile [OF ne] by simp
  with Cons have "lstrip_by p (strip_by p s) = strip_by p s"
    by (simp add: lstrip_by_def)
  then show ?thesis
    by (simp add: strip_by_def)
qed

section \<open>Searching and splitting\<close>

text \<open>
  \<^verbatim>\<open>str.partition(sep)\<close> and \<^verbatim>\<open>str.rpartition(sep)\<close> for a one-character
  separator: the parts, and whether the separator was found.
\<close>

definition partition_at :: "'a \<Rightarrow> 'a list \<Rightarrow> 'a list \<times> bool \<times> 'a list" where
  "partition_at c s = (takeWhile (\<lambda>x. x \<noteq> c) s, c \<in> set s, drop 1 (dropWhile (\<lambda>x. x \<noteq> c) s))"

definition rpartition_at :: "'a \<Rightarrow> 'a list \<Rightarrow> 'a list \<times> bool \<times> 'a list" where
  "rpartition_at c s =
     (rev (drop 1 (dropWhile (\<lambda>x. x \<noteq> c) (rev s))), c \<in> set s, rev (takeWhile (\<lambda>x. x \<noteq> c) (rev s)))"

abbreviation before :: "'a \<Rightarrow> 'a list \<Rightarrow> 'a list" where
  "before c s \<equiv> fst (partition_at c s)"

abbreviation after :: "'a \<Rightarrow> 'a list \<Rightarrow> 'a list" where
  "after c s \<equiv> snd (snd (partition_at c s))"

lemma partition_at_simps:
  "partition_at c [] = ([], False, [])"
  "partition_at c (x # s) =
     (if x = c then ([], True, s) else (x # before c s, c \<in> set s, after c s))"
  by (auto simp: partition_at_def)

lemma partition_at_absent: "c \<notin> set s \<Longrightarrow> partition_at c s = (s, False, [])"
  by (induction s) (auto simp: partition_at_simps)

lemma partition_at_append: "c \<notin> set s \<Longrightarrow> partition_at c (s @ c # t) = (s, True, t)"
  by (induction s) (auto simp: partition_at_simps)

lemma rpartition_at_absent: "c \<notin> set s \<Longrightarrow> rpartition_at c s = ([], False, s)"
proof -
  assume "c \<notin> set s"
  then have tw: "takeWhile (\<lambda>x. x \<noteq> c) (rev s) = rev s"
    and dw: "dropWhile (\<lambda>x. x \<noteq> c) (rev s) = []"
    by (auto simp: takeWhile_eq_all_conv dropWhile_eq_Nil_conv)
  from \<open>c \<notin> set s\<close> show ?thesis by (simp only: rpartition_at_def tw dw) simp
qed

text \<open>\<^verbatim>\<open>str.split(sep)\<close> for one character, \<^verbatim>\<open>str.split()\<close> and \<^verbatim>\<open>str.join\<close>.\<close>

fun split_on :: "'a \<Rightarrow> 'a list \<Rightarrow> 'a list list" where
  "split_on c [] = [[]]"
| "split_on c (x # s) =
     (if x = c then [] # split_on c s
      else (case split_on c s of [] \<Rightarrow> [[x]] | w # ws \<Rightarrow> (x # w) # ws))"

lemma split_on_nonempty [simp]: "split_on c s \<noteq> []"
  by (induction s) (auto split: list.splits)

lemma split_on_absent: "c \<notin> set s \<Longrightarrow> split_on c s = [s]"
  by (induction s) auto

lemma split_on_append: "c \<notin> set s \<Longrightarrow> split_on c (s @ c # t) = s # split_on c t"
  by (induction s) auto

lemma split_on_no_sep: "w \<in> set (split_on c s) \<Longrightarrow> c \<notin> set w"
  by (induction s arbitrary: w) (auto split: list.splits if_splits)

fun words_by :: "('a \<Rightarrow> bool) \<Rightarrow> 'a list \<Rightarrow> 'a list \<Rightarrow> 'a list list" where
  "words_by p acc [] = (if acc = [] then [] else [rev acc])"
| "words_by p acc (x # s) =
     (if p x then (if acc = [] then words_by p [] s else rev acc # words_by p [] s)
      else words_by p (x # acc) s)"

definition split_ws :: "ustr \<Rightarrow> ustr list" where
  "split_ws s = words_by is_space [] s"

fun join :: "'a list \<Rightarrow> 'a list list \<Rightarrow> 'a list" where
  "join sep [] = []"
| "join sep [w] = w"
| "join sep (w # v # ws) = w @ sep @ join sep (v # ws)"

lemma join_Cons: "ws \<noteq> [] \<Longrightarrow> join sep (w # ws) = w @ sep @ join sep ws"
  by (cases ws) auto

lemma join_split_on: "join [c] (split_on c s) = s"
proof (induction s)
  case Nil
  then show ?case by simp
next
  case (Cons x s)
  obtain w ws where ws: "split_on c s = w # ws"
    using split_on_nonempty by (metis list.exhaust)
  show ?case
    using Cons.IH by (cases ws) (auto simp: ws)
qed

lemma split_on_join:
  assumes "ws \<noteq> []" and "\<forall>w \<in> set ws. c \<notin> set w"
  shows "split_on c (join [c] ws) = ws"
  using assms by (induction ws rule: induct_list012) (auto simp: split_on_absent split_on_append)

lemma words_by_spec:
  assumes "\<forall>x \<in> set acc. \<not> p x" and "w \<in> set (words_by p acc s)"
  shows "w \<noteq> [] \<and> (\<forall>x \<in> set w. \<not> p x)"
  using assms
proof (induction s arbitrary: acc)
  case Nil
  then show ?case by (simp split: if_splits)
next
  case (Cons x s)
  show ?case
  proof (cases "p x")
    case True
    with Cons.prems consider "acc \<noteq> []" "w = rev acc" | "w \<in> set (words_by p [] s)"
      by (auto split: if_splits)
    then show ?thesis
      using Cons.IH [of "[]"] Cons.prems(1) by cases auto
  next
    case False
    with Cons.prems show ?thesis by (intro Cons.IH [of "x # acc"]) auto
  qed
qed

lemma split_ws_word: "w \<in> set (split_ws s) \<Longrightarrow> w \<noteq> [] \<and> (\<forall>x \<in> set w. \<not> is_space x)"
  unfolding split_ws_def using words_by_spec [of "[]"] by fastforce

text \<open>\<^verbatim>\<open>s[:n]\<close> for an integer bound that is not negative, evaluated without unary numerals.\<close>

fun slice_to :: "int \<Rightarrow> 'a list \<Rightarrow> 'a list" where
  "slice_to n [] = []"
| "slice_to n (x # s) = (if n \<le> 0 then [] else x # slice_to (n - 1) s)"

lemma slice_to_take: "slice_to n s = take (nat n) s"
proof (induction s arbitrary: n)
  case (Cons x s)
  show ?case
  proof (cases "n \<le> 0")
    case False
    then have "nat n = Suc (nat (n - 1))" by simp
    with False Cons.IH show ?thesis by (simp del: nat_diff_distrib')
  qed simp
qed simp

lemma length_slice_to: "0 \<le> n \<Longrightarrow> int (length (slice_to n s)) \<le> n"
  by (simp add: slice_to_take)

lemma set_slice_to: "set (slice_to n s) \<subseteq> set s"
  by (simp add: slice_to_take set_take_subset)

text \<open>\<^verbatim>\<open>str.splitlines()\<close>: CR LF is one line break, and a final break opens no line.\<close>

definition is_line_break :: "int \<Rightarrow> bool" where
  "is_line_break c \<longleftrightarrow> 10 \<le> c \<and> c \<le> 13 \<or> 28 \<le> c \<and> c \<le> 30 \<or> c \<in> {0x85, 0x2028, 0x2029}"

fun lines_from :: "ustr \<Rightarrow> ustr \<Rightarrow> ustr list" where
  "lines_from acc [] = (if acc = [] then [] else [rev acc])"
| "lines_from acc [c] = (if is_line_break c then [rev acc] else [rev (c # acc)])"
| "lines_from acc (c # d # s) =
     (if c = 13 \<and> d = 10 then rev acc # lines_from [] s
      else if is_line_break c then rev acc # lines_from [] (d # s)
      else lines_from (c # acc) (d # s))"

definition splitlines :: "ustr \<Rightarrow> ustr list" where
  "splitlines s = lines_from [] s"

text \<open>\<^verbatim>\<open>str.find(sub)\<close>: the least index where \<open>sub\<close> starts.\<close>

fun find_sub :: "'a list \<Rightarrow> 'a list \<Rightarrow> nat option" where
  "find_sub p [] = (if p = [] then Some 0 else None)"
| "find_sub p (x # s) = (if prefix p (x # s) then Some 0 else map_option Suc (find_sub p s))"

lemma find_sub_Some_iff:
  "find_sub p s = Some i \<longleftrightarrow>
     i \<le> length s \<and> prefix p (drop i s) \<and> (\<forall>j < i. \<not> prefix p (drop j s))"
proof (induction s arbitrary: i)
  case Nil
  then show ?case by auto
next
  case (Cons x s)
  show ?case
  proof (cases i)
    case 0
    then show ?thesis by auto
  next
    case (Suc k)
    have "(\<forall>j < Suc k. \<not> prefix p (drop j (x # s))) \<longleftrightarrow>
      \<not> prefix p (x # s) \<and> (\<forall>j < k. \<not> prefix p (drop j s))"
      by (auto simp: less_Suc_eq_0_disj)
    with Suc Cons.IH [of k] show ?thesis by auto
  qed
qed

lemma find_sub_None_iff: "find_sub p s = None \<longleftrightarrow> (\<forall>j \<le> length s. \<not> prefix p (drop j s))"
proof (induction s)
  case Nil
  then show ?case by auto
next
  case (Cons x s)
  have "(\<forall>j \<le> length (x # s). \<not> prefix p (drop j (x # s))) \<longleftrightarrow>
      \<not> prefix p (x # s) \<and> (\<forall>j \<le> length s. \<not> prefix p (drop j s))"
    unfolding length_Cons less_Suc_eq_le [symmetric] All_less_Suc2 by simp
  with Cons.IH show ?case by auto
qed

definition contains_sub :: "'a list \<Rightarrow> 'a list \<Rightarrow> bool" where
  "contains_sub p s \<longleftrightarrow> find_sub p s \<noteq> None"

lemma contains_sub_iff: "contains_sub p s \<longleftrightarrow> sublist p s"
proof -
  have "contains_sub p s \<longleftrightarrow> (\<exists>j \<le> length s. prefix p (drop j s))"
    by (simp add: contains_sub_def find_sub_None_iff)
  also have "\<dots> \<longleftrightarrow> sublist p s"
  proof
    assume "\<exists>j \<le> length s. prefix p (drop j s)"
    then obtain j zs where "drop j s = p @ zs" by (auto simp: prefix_def)
    then have "s = take j s @ p @ zs" by (metis append_take_drop_id)
    then show "sublist p s" by (metis sublist_appendI)
  next
    assume "sublist p s"
    then obtain xs ys where "s = xs @ p @ ys" by (auto simp: sublist_def)
    then show "\<exists>j \<le> length s. prefix p (drop j s)"
      by (intro exI [of _ "length xs"]) auto
  qed
  finally show ?thesis .
qed

section \<open>Decimal numbers\<close>

fun digits_rev :: "nat \<Rightarrow> ustr" where
  "digits_rev n = (48 + int (n mod 10)) # (if n < 10 then [] else digits_rev (n div 10))"

declare digits_rev.simps [simp del]

definition nat_str :: "nat \<Rightarrow> ustr" where
  "nat_str n = rev (digits_rev n)"

definition digits_value :: "int \<Rightarrow> ustr \<Rightarrow> int" where
  "digits_value base s = foldl (\<lambda>a c. base * a + (if c \<le> 57 then c - 48 else if c \<le> 70 then c - 55 else c - 87)) 0 s"

lemma digits_rev_digit: "c \<in> set (digits_rev n) \<Longrightarrow> is_digit_ascii c"
proof (induction n rule: digits_rev.induct)
  case (1 n)
  then show ?case
    by (auto simp: digits_rev.simps [of n] is_digit_ascii_def split: if_splits)
qed

lemma nat_str_digits: "list_all is_digit_ascii (nat_str n)"
  by (auto simp: nat_str_def list_all_iff dest: digits_rev_digit)

lemma nat_str_nonempty [simp]: "nat_str n \<noteq> []"
  by (simp add: nat_str_def digits_rev.simps [of n])

lemma digits_value_nat_str [simp]: "digits_value 10 (nat_str n) = int n"
proof (induction n rule: digits_rev.induct)
  case (1 n)
  show ?case
  proof (cases "n < 10")
    case True
    then show ?thesis by (simp add: nat_str_def digits_value_def digits_rev.simps [of n])
  next
    case False
    have "nat_str n = nat_str (n div 10) @ [48 + int (n mod 10)]"
      using False by (simp add: nat_str_def digits_rev.simps [of n])
    then have "digits_value 10 (nat_str n) = 10 * digits_value 10 (nat_str (n div 10)) + int (n mod 10)"
      by (simp add: digits_value_def)
    with False 1 show ?thesis using mult_div_mod_eq [of 10 n] by linarith
  qed
qed

end
