(* ===== verification/Ip_Address.thy ===== *)
theory Ip_Address
  imports Py_Str "HOL-Library.Word"
begin

text \<open>
  Python's \<^verbatim>\<open>ipaddress\<close> module (CPython 3.12), as far as the program uses it:
  address values, membership in a network, parsing and printing, and the classification
  \<^verbatim>\<open>is_global\<close> / \<^verbatim>\<open>is_multicast\<close> with the tables of the module.  Addresses
  are machine words of their width, so \<^verbatim>\<open>int(ip) & 0xFFFFFFFF\<close> is a truncation.
\<close>

unbundle bit_operations_syntax

type_synonym v4addr = "32 word"
type_synonym v6addr = "128 word"

datatype ip_addr = V4 v4addr | V6 v6addr

section \<open>Networks\<close>

type_synonym 'n net = "'n word \<times> nat"

definition netmask :: "nat \<Rightarrow> 'n::len word" where
  "netmask plen = NOT (mask (LENGTH('n) - plen))"

definition in_net :: "'n::len word \<Rightarrow> 'n net \<Rightarrow> bool" where
  "in_net a net = (a AND netmask (snd net) = fst net)"

text \<open>A network whose base has no host bits is the set of addresses with the same quotient.\<close>

definition aligned :: "'n::len net \<Rightarrow> bool" where
  "aligned net \<longleftrightarrow> fst net AND mask (LENGTH('n) - snd net) = 0"

lemma and_netmask: "a AND netmask plen = push_bit (LENGTH('n) - plen) (drop_bit (LENGTH('n) - plen) a)"
  for a :: "'n::len word"
  by (rule bit_word_eqI) (auto simp: netmask_def bit_simps)

lemma push_drop_bit_eq_iff:
  fixes a b :: "'n::len word"
  assumes "b AND mask k = 0"
  shows "push_bit k (drop_bit k a) = b \<longleftrightarrow> drop_bit k a = drop_bit k b"
proof
  assume eq: "drop_bit k a = drop_bit k b"
  have "push_bit k (drop_bit k b) + take_bit k b = b"
    by (rule bits_ident)
  with assms have "push_bit k (drop_bit k b) = b"
    by (simp add: take_bit_eq_mask)
  with eq show "push_bit k (drop_bit k a) = b" by simp
next
  assume "push_bit k (drop_bit k a) = b"
  then have "drop_bit k b = drop_bit k (push_bit k (drop_bit k a))" by simp
  also have "\<dots> = drop_bit k a"
    by (rule bit_word_eqI) (auto simp: bit_simps dest: bit_imp_le_length)
  finally show "drop_bit k a = drop_bit k b" by simp
qed

lemma in_net_div:
  fixes a :: "'n::len word"
  assumes "aligned net"
  shows "in_net a net \<longleftrightarrow>
    uint a div 2 ^ (LENGTH('n) - snd net) = uint (fst net) div 2 ^ (LENGTH('n) - snd net)"
proof -
  let ?k = "LENGTH('n) - snd net"
  have "in_net a net \<longleftrightarrow> drop_bit ?k a = drop_bit ?k (fst net)"
    using assms by (simp add: in_net_def and_netmask aligned_def push_drop_bit_eq_iff)
  also have "\<dots> \<longleftrightarrow> uint (drop_bit ?k a) = uint (drop_bit ?k (fst net))"
    by (simp only: word_uint_eq_iff)
  also have "\<dots> \<longleftrightarrow> uint a div 2 ^ ?k = uint (fst net) div 2 ^ ?k"
    by (simp add: unsigned_drop_bit_eq bintr_uint flip: drop_bit_eq_div)
  finally show ?thesis .
qed

section \<open>Classification\<close>

definition v4 :: "int \<Rightarrow> int \<Rightarrow> int \<Rightarrow> int \<Rightarrow> v4addr" where
  "v4 a b c d = word_of_int (((a * 256 + b) * 256 + c) * 256 + d)"

definition v4_private_networks :: "32 net list" where
  "v4_private_networks =
    [(v4 0 0 0 0, 8), (v4 10 0 0 0, 8), (v4 127 0 0 0, 8), (v4 169 254 0 0, 16),
     (v4 172 16 0 0, 12), (v4 192 0 0 0, 24), (v4 192 0 0 170, 31), (v4 192 0 2 0, 24),
     (v4 192 168 0 0, 16), (v4 198 18 0 0, 15), (v4 198 51 100 0, 24), (v4 203 0 113 0, 24),
     (v4 240 0 0 0, 4), (v4 255 255 255 255, 32)]"

definition v4_private_exceptions :: "32 net list" where
  "v4_private_exceptions = [(v4 192 0 0 9, 32), (v4 192 0 0 10, 32)]"

definition v4_shared_network :: "32 net" where
  "v4_shared_network = (v4 100 64 0 0, 10)"

definition in_some :: "'n::len word \<Rightarrow> 'n net list \<Rightarrow> bool" where
  "in_some a nets \<longleftrightarrow> list_ex (in_net a) nets"

definition v4_is_private :: "v4addr \<Rightarrow> bool" where
  "v4_is_private a \<longleftrightarrow> in_some a v4_private_networks \<and> \<not> in_some a v4_private_exceptions"

definition v4_is_global :: "v4addr \<Rightarrow> bool" where
  "v4_is_global a \<longleftrightarrow> \<not> in_net a v4_shared_network \<and> \<not> v4_is_private a"

definition v4_is_multicast :: "v4addr \<Rightarrow> bool" where
  "v4_is_multicast a = in_net a (v4 224 0 0 0, 4)"

definition v6_private_networks :: "128 net list" where
  "v6_private_networks =
    [(0x1, 128), (0x0, 128), (0xFFFF00000000, 96),
     (0x0064FF9B000100000000000000000000, 48), (0x01000000000000000000000000000000, 64),
     (0x20010000000000000000000000000000, 23), (0x20010DB8000000000000000000000000, 32),
     (0x20020000000000000000000000000000, 16), (0xFC000000000000000000000000000000, 7),
     (0xFE800000000000000000000000000000, 10)]"

definition v6_private_exceptions :: "128 net list" where
  "v6_private_exceptions =
    [(0x20010001000000000000000000000001, 128), (0x20010001000000000000000000000002, 128),
     (0x20010003000000000000000000000000, 32), (0x20010004011200000000000000000000, 48),
     (0x20010020000000000000000000000000, 28), (0x20010030000000000000000000000000, 28)]"

definition low32 :: "v6addr \<Rightarrow> v4addr" where
  "low32 a = ucast (a AND 0xFFFFFFFF)"

definition ipv4_mapped :: "v6addr \<Rightarrow> v4addr option" where
  "ipv4_mapped a = (if drop_bit 32 a = 0xFFFF then Some (low32 a) else None)"

definition sixtofour :: "v6addr \<Rightarrow> v4addr option" where
  "sixtofour a = (if drop_bit 112 a = 0x2002 then Some (low32 (drop_bit 80 a)) else None)"

definition v6_is_private :: "v6addr \<Rightarrow> bool" where
  "v6_is_private a = (case ipv4_mapped a of
       Some b \<Rightarrow> v4_is_private b
     | None \<Rightarrow> in_some a v6_private_networks \<and> \<not> in_some a v6_private_exceptions)"

definition is_global :: "ip_addr \<Rightarrow> bool" where
  "is_global ip = (case ip of V4 a \<Rightarrow> v4_is_global a | V6 a \<Rightarrow> \<not> v6_is_private a)"

definition is_multicast :: "ip_addr \<Rightarrow> bool" where
  "is_multicast ip = (case ip of
       V4 a \<Rightarrow> v4_is_multicast a
     | V6 a \<Rightarrow> in_net a (0xFF000000000000000000000000000000, 8))"

text \<open>The same IPv4 classification by the quotients of the address, as an IANA table reads.\<close>

lemma v4_aligned:
  "list_all aligned v4_private_networks" "list_all aligned v4_private_exceptions"
  "aligned v4_shared_network" "aligned (v4 224 0 0 0, 4)"
  by (simp_all add: v4_private_networks_def v4_private_exceptions_def v4_shared_network_def
      aligned_def v4_def mask_eq_exp_minus_1)

lemma in_some_div:
  fixes a :: "'n::len word"
  assumes "list_all aligned nets"
  shows "in_some a nets \<longleftrightarrow>
    list_ex (\<lambda>net. uint a div 2 ^ (LENGTH('n) - snd net) = uint (fst net) div 2 ^ (LENGTH('n) - snd net)) nets"
  using assms by (induction nets) (auto simp: in_some_def in_net_div)

lemma v4_is_private_iff:
  "v4_is_private a \<longleftrightarrow>
     (uint a div 2 ^ 24 \<in> {0, 10, 127}
      \<or> uint a div 2 ^ 16 \<in> {169 * 256 + 254, 192 * 256 + 168}
      \<or> uint a div 2 ^ 20 = 172 * 16 + 1
      \<or> uint a div 2 ^ 8 \<in> {192 * 65536, 192 * 65536 + 2, 198 * 65536 + 51 * 256 + 100, 203 * 65536 + 113}
      \<or> uint a div 2 ^ 17 = 198 * 128 + 9
      \<or> uint a div 2 ^ 28 = 15)
     \<and> uint a \<notin> {192 * 2 ^ 24 + 9, 192 * 2 ^ 24 + 10}"
proof -
  have extra: "uint a div 2 ^ 1 = (192 * 2 ^ 24 + 170) div 2 \<Longrightarrow> uint a div 2 ^ 8 = 192 * 65536"
    "uint a = 255 * 2 ^ 24 + 255 * 65536 + 255 * 256 + 255 \<Longrightarrow> uint a div 2 ^ 28 = 15"
    by auto
  show ?thesis
    unfolding v4_is_private_def in_some_div [OF v4_aligned(1)] in_some_div [OF v4_aligned(2)]
    using extra
    by (auto simp: v4_private_networks_def v4_private_exceptions_def v4_def)
qed

section \<open>Parsing\<close>

definition parse_octet :: "ustr \<Rightarrow> int option" where
  "parse_octet s =
     (if s = [] \<or> \<not> list_all is_digit_ascii s \<or> length s > 3 then None
      else if s \<noteq> [48] \<and> hd s = 48 then None
      else if digits_value 10 s > 255 then None
      else Some (digits_value 10 s))"

definition parse_v4 :: "ustr \<Rightarrow> v4addr option" where
  "parse_v4 s = (case map parse_octet (split_on (of_char CHR ''.'') s) of
       [Some a, Some b, Some c, Some d] \<Rightarrow> Some (v4 a b c d)
     | _ \<Rightarrow> None)"

definition parse_hextet :: "ustr \<Rightarrow> int option" where
  "parse_hextet s =
     (if s = [] \<or> \<not> list_all is_hex_digit s \<or> length s > 4 then None
      else Some (digits_value 16 s))"

definition hextets_value :: "int list \<Rightarrow> int" where
  "hextets_value hs = foldl (\<lambda>a h. a * 65536 + h) 0 hs"

text \<open>The empty parts strictly inside the list: each is a \<^verbatim>\<open>::\<close>.\<close>

definition inner_gaps :: "'a list list \<Rightarrow> nat list" where
  "inner_gaps ps = filter (\<lambda>i. ps ! i = []) [1 ..< length ps - 1]"

text \<open>
  \<^verbatim>\<open>_ip_int_from_string\<close> after the IPv4 suffix is rewritten: the parts above and
  below the gap, and how many zero hextets the gap stands for.
\<close>

definition v6_layout :: "'a list list \<Rightarrow> ('a list list \<times> nat \<times> 'a list list) option" where
  "v6_layout ps =
     (case inner_gaps ps of
        [] \<Rightarrow> if length ps = 8 \<and> hd ps \<noteq> [] \<and> last ps \<noteq> [] then Some (ps, 0, []) else None
      | [i] \<Rightarrow>
          (let hi = (if hd ps = [] then i - 1 else i);
               lo = (if last ps = [] then length ps - i - 2 else length ps - i - 1)
           in if hd ps = [] \<and> hi \<noteq> 0 then None
              else if last ps = [] \<and> lo \<noteq> 0 then None
              else if hi + lo \<ge> 8 then None
              else Some (take hi ps, 8 - (hi + lo), drop (length ps - lo) ps))
      | _ \<Rightarrow> None)"

definition hex_digit :: "int \<Rightarrow> int" where
  "hex_digit d = (if d < 10 then 48 + d else 87 + d)"

definition hextet_str :: "int \<Rightarrow> ustr" where
  "hextet_str h =
     (let ds = [h div 4096 mod 16, h div 256 mod 16, h div 16 mod 16, h mod 16];
          sig = dropWhile (\<lambda>d. d = 0) ds
      in if sig = [] then [48] else map hex_digit sig)"

definition v6_parts :: "ustr \<Rightarrow> ustr list option" where
  "v6_parts s =
     (let ps = split_on (of_char CHR '':'') s
      in if s = [] \<or> length ps < 3 then None
         else if of_char CHR ''.'' \<in> set (last ps)
           then map_option (\<lambda>a. butlast ps @ [hextet_str (uint a div 65536), hextet_str (uint a mod 65536)])
                  (parse_v4 (last ps))
         else Some ps)"

definition parse_v6 :: "ustr \<Rightarrow> v6addr option" where
  "parse_v6 s =
     (case v6_parts s of None \<Rightarrow> None
      | Some ps \<Rightarrow>
          if length ps > 9 then None
          else (case v6_layout ps of None \<Rightarrow> None
            | Some (his, skipped, los) \<Rightarrow>
                (let his' = map parse_hextet his; los' = map parse_hextet los
                 in if None \<in> set his' \<or> None \<in> set los' then None
                    else Some (word_of_int
                      (hextets_value (map the his' @ replicate skipped 0 @ map the los'))))))"

text \<open>
  \<^verbatim>\<open>ipaddress.ip_address\<close>: IPv4 first, then IPv6 with an optional scope
  (\<^verbatim>\<open>%eth0\<close>), which is not part of the address value.
\<close>

definition ip_address :: "ustr \<Rightarrow> ip_addr option" where
  "ip_address s =
     (case parse_v4 s of Some a \<Rightarrow> Some (V4 a)
      | None \<Rightarrow>
          if of_char CHR ''/'' \<in> set s then None
          else (case partition_at (of_char CHR ''%'') s of
             (addr, sep, scope) \<Rightarrow>
               if sep \<and> (scope = [] \<or> of_char CHR ''%'' \<in> set scope) then None
               else map_option V6 (parse_v6 addr)))"

section \<open>Printing\<close>

definition v4_octets :: "v4addr \<Rightarrow> int list" where
  "v4_octets a = [uint a div 2 ^ 24, uint a div 2 ^ 16 mod 256, uint a div 2 ^ 8 mod 256, uint a mod 256]"

definition v4_str :: "v4addr \<Rightarrow> ustr" where
  "v4_str a = join [of_char CHR ''.''] (map (\<lambda>n. nat_str (nat n)) (v4_octets a))"

definition v6_hextets :: "v6addr \<Rightarrow> int list" where
  "v6_hextets a = map (\<lambda>i. uint a div 2 ^ (16 * i) mod 65536) [7, 6, 5, 4, 3, 2, 1, 0]"

text \<open>
  The longest run of zero hextets, the first of equal length: \<open>(best_start, best_len)\<close>
  while the run that ends here started at \<open>start\<close> and has \<open>len\<close> hextets.
\<close>

fun zero_run :: "nat \<Rightarrow> nat \<Rightarrow> nat \<times> nat \<Rightarrow> int list \<Rightarrow> nat \<times> nat" where
  "zero_run i len best [] = best"
| "zero_run i len best (h # hs) =
     (if h = 0
      then zero_run (Suc i) (Suc len) (if Suc len > snd best then (i - len, Suc len) else best) hs
      else zero_run (Suc i) 0 best hs)"

definition v6_str :: "v6addr \<Rightarrow> ustr" where
  "v6_str a =
     (let hs = v6_hextets a;
          (start, len) = zero_run 0 0 (0, 0) hs;
          strs = map hextet_str hs
      in join [of_char CHR '':'']
           (if len \<le> 1 then strs
            else (if start = 0 then [[]] else []) @ take start strs @ [[]] @ drop (start + len) strs
                 @ (if start + len = 8 then [[]] else [])))"

definition ip_str :: "ip_addr \<Rightarrow> ustr" where
  "ip_str ip = (case ip of V4 a \<Rightarrow> v4_str a | V6 a \<Rightarrow> v6_str a)"

lemma parse_octet_nat_str: "n < 256 \<Longrightarrow> parse_octet (nat_str n) = Some (int n)"
proof -
  assume n: "n < 256"
  have eqs: "nat_str n = (if n < 10 then [48 + int n]
      else if n < 100 then [48 + int (n div 10), 48 + int (n mod 10)]
      else [48 + int (n div 100), 48 + int (n div 10 mod 10), 48 + int (n mod 10)])"
    using n by (simp add: nat_str_def digits_rev.simps [of n] digits_rev.simps [of "n div 10"]
        digits_rev.simps [of "n div 100"] div_mult2_eq [symmetric] less_mult_imp_div_less)
       (simp add: div_less_iff_less_mult)
  have "length (nat_str n) \<le> 3" and "nat_str n = [48] \<or> hd (nat_str n) \<noteq> 48"
    using n by (auto simp: eqs)
  then show ?thesis
    using n nat_str_digits [of n] by (simp add: parse_octet_def)
qed

lemma v4_of_octets: "v4 (uint a div 2 ^ 24) (uint a div 2 ^ 16 mod 256) (uint a div 2 ^ 8 mod 256) (uint a mod 256) = a"
proof -
  define x where "x = uint a"
  have "x div 2 ^ 16 = x div 2 ^ 8 div 256" and "x div 2 ^ 24 = x div 2 ^ 16 div 256"
    by (simp_all add: zdiv_zmult2_eq [symmetric])
  then have "((x div 2 ^ 24 * 256 + x div 2 ^ 16 mod 256) * 256 + x div 2 ^ 8 mod 256) * 256 + x mod 256 = x"
    by simp
  then show ?thesis
    unfolding v4_def x_def [symmetric] by (simp only:) (simp add: x_def)
qed

lemma v4_octets_bound:
  "0 \<le> uint a div 2 ^ 24 \<and> uint a div 2 ^ 24 < 256" for a :: v4addr
  using uint_bounded [of a] uint_ge_0 [of a] by (auto simp: pos_imp_zdiv_nonneg_iff)

text \<open>Printing and parsing an IPv4 address round-trips.\<close>

lemma parse_v4_str: "parse_v4 (v4_str a) = Some a"
proof -
  have dot: "of_char CHR ''.'' \<notin> set (nat_str n)" for n
    using nat_str_digits [of n] by (auto simp: list_all_iff is_digit_ascii_def)
  have oct: "parse_octet (nat_str (nat k)) = Some k" if "0 \<le> k" "k < 256" for k
    using that parse_octet_nat_str [of "nat k"] by simp
  have "split_on (of_char CHR ''.'') (v4_str a) = map (\<lambda>n. nat_str (nat n)) (v4_octets a)"
    unfolding v4_str_def by (rule split_on_join) (use dot in \<open>auto simp: v4_octets_def\<close>)
  then have "map parse_octet (split_on (of_char CHR ''.'') (v4_str a)) = map Some (v4_octets a)"
    using v4_octets_bound [of a] by (simp add: v4_octets_def oct)
  then show ?thesis
    by (simp only: parse_v4_def v4_octets_def list.map list.case option.case v4_of_octets)
qed

end
