(* ===== verification/Address_Policy.thy ===== *)
theory Address_Policy
  imports Ip_Address
begin

text \<open>
  Which addresses outbound requests may connect to: the network tables and
  \<^verbatim>\<open>_is_public\<close> of \<^verbatim>\<open>src/apps/core/safe_http.py\<close>.  The lemmas restate the policy
  over the quotients of the address, so that it can be read beside an IANA registry: the IPv4
  policy is a closed list of blocks, and an IPv6 address that carries an IPv4 address is
  public only if the carried address is.
\<close>

definition EMBEDS_IPV4 :: "128 net list" where
  "EMBEDS_IPV4 =
     [(0, 96), (0xFFFF00000000, 96), (0xFFFF000000000000, 96), (0x0064FF9B000000000000000000000000, 96)]"

definition NEVER_PUBLIC_V6 :: "128 net list" where
  "NEVER_PUBLIC_V6 =
     [(0x0064FF9B000100000000000000000000, 48), (0xFEC00000000000000000000000000000, 10),
      (0x5F000000000000000000000000000000, 16)]"

definition NEVER_PUBLIC_V4 :: "32 net list" where
  "NEVER_PUBLIC_V4 = [(v4 192 88 99 0, 24)]"

function is_public :: "ip_addr \<Rightarrow> bool" where
  "is_public (V6 a) =
     (if in_some a NEVER_PUBLIC_V6 then False
      else if in_some a EMBEDS_IPV4 then is_public (V4 (low32 a))
      else (case sixtofour a of
         Some b \<Rightarrow> is_public (V4 b)
       | None \<Rightarrow> is_global (V6 a) \<and> \<not> is_multicast (V6 a)))"
| "is_public (V4 a) =
     (if in_some a NEVER_PUBLIC_V4 then False else is_global (V4 a) \<and> \<not> is_multicast (V4 a))"
  by pat_completeness auto
termination
  by (relation "measure (\<lambda>ip. case ip of V6 _ \<Rightarrow> 1 | V4 _ \<Rightarrow> 0)") auto

declare is_public.simps [simp del]

section \<open>The tables read as quotients\<close>

lemma policy_aligned:
  "list_all aligned EMBEDS_IPV4" "list_all aligned NEVER_PUBLIC_V6" "list_all aligned NEVER_PUBLIC_V4"
  "list_all aligned v6_private_networks" "list_all aligned v6_private_exceptions"
  "aligned (0xFF000000000000000000000000000000 :: 128 word, 8)"
  by (simp_all add: EMBEDS_IPV4_def NEVER_PUBLIC_V6_def NEVER_PUBLIC_V4_def v6_private_networks_def
      v6_private_exceptions_def aligned_def v4_def mask_eq_exp_minus_1)

lemma uint_low32: "uint (low32 a) = uint a mod 2 ^ 32"
proof -
  have "a AND 0xFFFFFFFF = take_bit 32 a"
    by (simp add: take_bit_eq_mask mask_eq_exp_minus_1)
  then have "uint (low32 a) = take_bit 32 (take_bit 32 (uint a))"
    by (simp add: low32_def unsigned_ucast_eq unsigned_take_bit_eq)
  then show ?thesis by (simp add: take_bit_eq_mod)
qed

lemma low32_eq: "low32 a = word_of_int (uint a mod 2 ^ 32)"
  by (metis uint_low32 word_of_int_uint)

lemma drop_bit_eq_iff_uint:
  "drop_bit n a = b \<longleftrightarrow> uint a div 2 ^ n = uint b" for a :: "'n::len word"
  by (simp add: word_uint_eq_iff unsigned_drop_bit_eq bintr_uint flip: drop_bit_eq_div)

lemma in_EMBEDS_IPV4_iff:
  "in_some a EMBEDS_IPV4 \<longleftrightarrow> uint a div 2 ^ 32 \<in> {0, 0xFFFF, 0xFFFF0000, 0x0064FF9B0000000000000000}"
  unfolding in_some_div [OF policy_aligned(1)] by (simp add: EMBEDS_IPV4_def)

lemma in_NEVER_PUBLIC_V6_iff:
  "in_some a NEVER_PUBLIC_V6 \<longleftrightarrow>
     uint a div 2 ^ 80 = 0x0064FF9B0001 \<or> uint a div 2 ^ 118 = 0x3FB \<or> uint a div 2 ^ 112 = 0x5F00"
  unfolding in_some_div [OF policy_aligned(2)] by (simp add: NEVER_PUBLIC_V6_def)

lemma in_v6_private_iff:
  "in_some a v6_private_networks \<longleftrightarrow>
     uint a \<in> {0, 1} \<or> uint a div 2 ^ 32 = 0xFFFF \<or> uint a div 2 ^ 80 = 0x0064FF9B0001
     \<or> uint a div 2 ^ 64 = 0x0100000000000000 \<or> uint a div 2 ^ 105 = 0x100080 \<or> uint a div 2 ^ 96 = 0x20010DB8
     \<or> uint a div 2 ^ 112 = 0x2002 \<or> uint a div 2 ^ 121 = 0x7E \<or> uint a div 2 ^ 118 = 0x3FA"
  unfolding in_some_div [OF policy_aligned(4)] by (auto simp: v6_private_networks_def)

lemma sixtofour_eq:
  "sixtofour a = (if uint a div 2 ^ 112 = 0x2002 then Some (word_of_int (uint a div 2 ^ 80 mod 2 ^ 32)) else None)"
proof -
  have "uint (drop_bit 80 a) = uint a div 2 ^ 80"
    using drop_bit_eq_iff_uint [of 80 a "drop_bit 80 a"] by simp
  then show ?thesis
    unfolding sixtofour_def low32_eq drop_bit_eq_iff_uint by simp
qed

section \<open>Properties\<close>

text \<open>The IPv4 policy as a closed list of blocks: an IPv4 address is public exactly when it
  is one of the two exceptions 192.0.0.9, 192.0.0.10 or lies in none of 0/8, 10/8, 127/8,
  169.254/16, 192.168/16, 172.16/12, 192.0.0/24, 192.0.2/24, 198.51.100/24, 203.0.113/24,
  192.88.99/24, 198.18/15, 100.64/10, 224/4 and 240/4.\<close>

theorem is_public_v4_iff:
  "is_public (V4 a) \<longleftrightarrow>
     uint a \<in> {192 * 2 ^ 24 + 9, 192 * 2 ^ 24 + 10} \<or>
     (uint a div 2 ^ 24 \<notin> {0, 10, 127}
      \<and> uint a div 2 ^ 16 \<notin> {169 * 256 + 254, 192 * 256 + 168}
      \<and> uint a div 2 ^ 20 \<noteq> 172 * 16 + 1
      \<and> uint a div 2 ^ 8 \<notin> {192 * 65536, 192 * 65536 + 2, 198 * 65536 + 51 * 256 + 100,
                             203 * 65536 + 113, 192 * 65536 + 88 * 256 + 99}
      \<and> uint a div 2 ^ 17 \<noteq> 198 * 128 + 9
      \<and> uint a div 2 ^ 22 \<noteq> 100 * 4 + 1
      \<and> uint a div 2 ^ 28 \<notin> {14, 15})"
proof -
  have relay: "in_some a NEVER_PUBLIC_V4 \<longleftrightarrow> uint a div 2 ^ 8 = 192 * 65536 + 88 * 256 + 99"
    unfolding in_some_div [OF policy_aligned(3)] by (simp add: NEVER_PUBLIC_V4_def v4_def)
  have shared: "in_net a v4_shared_network \<longleftrightarrow> uint a div 2 ^ 22 = 100 * 4 + 1"
    unfolding in_net_div [OF v4_aligned(3)] by (simp add: v4_shared_network_def v4_def)
  have multicast: "in_net a (v4 224 0 0 0, 4) \<longleftrightarrow> uint a div 2 ^ 28 = 14"
    unfolding in_net_div [OF v4_aligned(4)] by (simp add: v4_def)
  show ?thesis
    by (auto simp: is_public.simps is_global_def is_multicast_def v4_is_global_def v4_is_multicast_def
        relay shared multicast v4_is_private_iff)
qed

lemma div_pow_le: "m \<le> n \<Longrightarrow> x div 2 ^ n = x div 2 ^ m div 2 ^ (n - m)" for x :: int
  by (simp add: zdiv_zmult2_eq [symmetric] flip: power_add)

lemma quot_eq: "x div 2 ^ m = c \<Longrightarrow> m \<le> n \<Longrightarrow> x div 2 ^ n = c div 2 ^ (n - m)" for x :: int
  using div_pow_le [of m n x] by simp

lemma quot_clash: "x div 2 ^ m = c \<Longrightarrow> x div 2 ^ n = d \<Longrightarrow> m \<le> n \<Longrightarrow> c div 2 ^ (n - m) = d" for x :: int
  using div_pow_le [of m n x] by simp

lemma v6_exceptions_block:
  assumes "in_some a v6_private_exceptions"
  shows "uint a div 2 ^ 105 = 0x100080"
proof -
  from assms consider "uint a = 0x20010001000000000000000000000001" | "uint a = 0x20010001000000000000000000000002"
    | "uint a div 2 ^ 96 = 0x20010003" | "uint a div 2 ^ 80 = 0x200100040112"
    | "uint a div 2 ^ 100 = 0x2001002" | "uint a div 2 ^ 100 = 0x2001003"
    unfolding in_some_div [OF policy_aligned(5)] by (auto simp: v6_private_exceptions_def)
  then show ?thesis
  proof cases
    case 3 then show ?thesis using quot_eq [OF 3, of 105] by simp
  next
    case 4 then show ?thesis using quot_eq [OF 4, of 105] by simp
  next
    case 5 then show ?thesis using quot_eq [OF 5, of 105] by simp
  next
    case 6 then show ?thesis using quot_eq [OF 6, of 105] by simp
  qed simp_all
qed

text \<open>The blocks that are never public, as a predicate on the quotients.\<close>

definition never_public_block :: "int \<Rightarrow> bool" where
  "never_public_block x \<longleftrightarrow> x div 2 ^ 121 = 0x7E \<or> x div 2 ^ 118 = 0x3FA \<or> x div 2 ^ 118 = 0x3FB
     \<or> x div 2 ^ 120 = 0xFF \<or> x div 2 ^ 96 = 0x20010DB8 \<or> x div 2 ^ 80 = 0x0064FF9B0001 \<or> x div 2 ^ 112 = 0x5F00"

lemma never_public_block_top:
  assumes "never_public_block x"
  shows "x div 2 ^ 112 \<noteq> 0x2002" and "x div 2 ^ 105 \<noteq> 0x100080"
    and "x div 2 ^ 32 \<notin> {0, 0xFFFF, 0xFFFF0000, 0x0064FF9B0000000000000000}"
proof -
  from assms consider "x div 2 ^ 121 = 0x7E" | "x div 2 ^ 118 = 0x3FA" | "x div 2 ^ 118 = 0x3FB"
    | "x div 2 ^ 120 = 0xFF" | "x div 2 ^ 96 = 0x20010DB8" | "x div 2 ^ 80 = 0x0064FF9B0001" | "x div 2 ^ 112 = 0x5F00"
    by (auto simp: never_public_block_def)
  note cases = this
  have False if h: "x div 2 ^ 112 = 0x2002"
    using cases
  proof cases
    case 1 then show ?thesis using quot_clash [OF h 1] by simp
  next
    case 2 then show ?thesis using quot_clash [OF h 2] by simp
  next
    case 3 then show ?thesis using quot_clash [OF h 3] by simp
  next
    case 4 then show ?thesis using quot_clash [OF h 4] by simp
  next
    case 5 then show ?thesis using quot_clash [OF 5 h] by simp
  next
    case 6 then show ?thesis using quot_clash [OF 6 h] by simp
  next
    case 7 then show ?thesis using quot_clash [OF h 7] by simp
  qed
  then show "x div 2 ^ 112 \<noteq> 0x2002" by blast
  have False if h: "x div 2 ^ 105 = 0x100080"
    using cases
  proof cases
    case 1 then show ?thesis using quot_clash [OF h 1] by simp
  next
    case 2 then show ?thesis using quot_clash [OF h 2] by simp
  next
    case 3 then show ?thesis using quot_clash [OF h 3] by simp
  next
    case 4 then show ?thesis using quot_clash [OF h 4] by simp
  next
    case 5 then show ?thesis using quot_clash [OF 5 h] by simp
  next
    case 6 then show ?thesis using quot_clash [OF 6 h] by simp
  next
    case 7 then show ?thesis using quot_clash [OF h 7] by simp
  qed
  then show "x div 2 ^ 105 \<noteq> 0x100080" by blast
  have False if h: "x div 2 ^ 32 = c" and c: "c \<in> {0, 0xFFFF, 0xFFFF0000, 0x0064FF9B0000000000000000}" for c
    using cases
  proof cases
    case 1 then show ?thesis using quot_clash [OF h 1] c by auto
  next
    case 2 then show ?thesis using quot_clash [OF h 2] c by auto
  next
    case 3 then show ?thesis using quot_clash [OF h 3] c by auto
  next
    case 4 then show ?thesis using quot_clash [OF h 4] c by auto
  next
    case 5 then show ?thesis using quot_clash [OF h 5] c by auto
  next
    case 6 then show ?thesis using quot_clash [OF h 6] c by auto
  next
    case 7 then show ?thesis using quot_clash [OF h 7] c by auto
  qed
  then show "x div 2 ^ 32 \<notin> {0, 0xFFFF, 0xFFFF0000, 0x0064FF9B0000000000000000}" by blast
qed

lemma v6_multicast_iff: "is_multicast (V6 a) \<longleftrightarrow> uint a div 2 ^ 120 = 0xFF"
  unfolding is_multicast_def by (simp add: in_net_div [OF policy_aligned(6)])

lemma is_public_v6_cases:
  assumes "is_public (V6 a)"
  shows "\<not> in_some a NEVER_PUBLIC_V6"
    and "in_some a EMBEDS_IPV4 \<Longrightarrow> is_public (V4 (low32 a))"
    and "\<not> in_some a EMBEDS_IPV4 \<Longrightarrow> sixtofour a = Some b \<Longrightarrow> is_public (V4 b)"
    and "\<not> in_some a EMBEDS_IPV4 \<Longrightarrow> sixtofour a = None \<Longrightarrow> is_global (V6 a) \<and> \<not> is_multicast (V6 a)"
  using assms by (auto simp: is_public.simps(1) split: if_splits)

lemma never_public_v6:
  assumes "never_public_block (uint a)"
  shows "\<not> is_public (V6 a)"
proof
  assume pub: "is_public (V6 a)"
  note top = never_public_block_top [OF assms]
  have "\<not> in_some a EMBEDS_IPV4" and "sixtofour a = None"
    using top by (auto simp: in_EMBEDS_IPV4_iff sixtofour_eq)
  then have "\<not> v6_is_private a" and "uint a div 2 ^ 120 \<noteq> 0xFF"
    using is_public_v6_cases(4) [OF pub] by (auto simp: is_global_def v6_multicast_iff)
  moreover have "ipv4_mapped a = None"
    using top(3) by (simp add: ipv4_mapped_def drop_bit_eq_iff_uint)
  moreover have "\<not> in_some a v6_private_exceptions"
    using top(2) v6_exceptions_block by blast
  ultimately have "\<not> in_some a v6_private_networks" and "uint a div 2 ^ 120 \<noteq> 0xFF"
    by (simp_all add: v6_is_private_def)
  with assms is_public_v6_cases(1) [OF pub] show False
    by (auto simp: never_public_block_def in_v6_private_iff in_NEVER_PUBLIC_V6_iff)
qed

text \<open>No IPv6 address smuggles an internal IPv4 address past the policy: if an address is
  public and has one of the prefixes ::/96, ::ffff:0:0/96, ::ffff:0:0:0/96 or 64:ff9b::/96, its last
  32 bits are a public IPv4 address, and if it is a 6to4 address (2002::/16) the IPv4 address in
  it is public.  Unique-local, link-local, site-local, multicast, documentation, local NAT64 and
  SRv6 addresses are never public.\<close>

theorem is_public_v6_embedded:
  assumes "is_public (V6 a)"
  shows "(uint a div 2 ^ 32 \<in> {0, 0xFFFF, 0xFFFF0000, 0x0064FF9B0000000000000000}
           \<longrightarrow> is_public (V4 (word_of_int (uint a mod 2 ^ 32))))
    \<and> (uint a div 2 ^ 112 = 0x2002 \<longrightarrow> is_public (V4 (word_of_int (uint a div 2 ^ 80 mod 2 ^ 32))))
    \<and> \<not> never_public_block (uint a)"
proof (intro conjI impI)
  assume "uint a div 2 ^ 32 \<in> {0, 0xFFFF, 0xFFFF0000, 0x0064FF9B0000000000000000}"
  then show "is_public (V4 (word_of_int (uint a mod 2 ^ 32)))"
    using is_public_v6_cases(2) [OF assms] by (simp only: in_EMBEDS_IPV4_iff low32_eq)
next
  assume h: "uint a div 2 ^ 112 = 0x2002"
  have "uint a div 2 ^ 32 \<noteq> c" if "c div 2 ^ 80 \<noteq> 0x2002" for c
    using quot_eq [of "uint a" 32 c 112] h that by auto
  then have "uint a div 2 ^ 32 \<notin> {0, 0xFFFF, 0xFFFF0000, 0x0064FF9B0000000000000000}"
    by simp
  then have "\<not> in_some a EMBEDS_IPV4" by (simp add: in_EMBEDS_IPV4_iff)
  moreover have "sixtofour a = Some (word_of_int (uint a div 2 ^ 80 mod 2 ^ 32))"
    using h by (simp only: sixtofour_eq) simp
  ultimately show "is_public (V4 (word_of_int (uint a div 2 ^ 80 mod 2 ^ 32)))"
    by (rule is_public_v6_cases(3) [OF assms])
next
  show "\<not> never_public_block (uint a)"
    using assms never_public_v6 by blast
qed

theorem is_public_v6_embedded_witness:
  "is_public (V6 0x0064FF9B000000000000000008080808) \<and> is_public (V4 (v4 8 8 8 8))"
proof -
  have pub: "is_public (V6 0x0064FF9B000000000000000008080808)" by code_simp
  show ?thesis using pub is_public_v6_embedded [OF pub] by (simp add: v4_def)
qed

end
