(* ===== verification/Py_Url.thy ===== *)
theory Py_Url
  imports Ip_Address
begin

text \<open>
  Python's \<^verbatim>\<open>urllib.parse\<close> (CPython 3.12), as far as the program uses it:
  \<^verbatim>\<open>urlsplit\<close> with the attributes \<^verbatim>\<open>hostname\<close>, \<^verbatim>\<open>port\<close>,
  \<^verbatim>\<open>username\<close>, \<^verbatim>\<open>password\<close>; \<^verbatim>\<open>urlparse\<close>, \<^verbatim>\<open>urlunsplit\<close>,
  \<^verbatim>\<open>urljoin\<close>; percent-coding (\<^verbatim>\<open>quote\<close>, \<^verbatim>\<open>unquote\<close>) over UTF-8;
  \<^verbatim>\<open>parse_qsl\<close> and \<^verbatim>\<open>urlencode\<close>.  A \<^verbatim>\<open>ValueError\<close> of the
  module is \<open>None\<close>.
\<close>

section \<open>Splitting\<close>

record split_result =
  sr_scheme :: ustr
  sr_netloc :: ustr
  sr_path :: ustr
  sr_query :: ustr
  sr_fragment :: ustr

definition is_c0_or_space :: "int \<Rightarrow> bool" where
  "is_c0_or_space c \<longleftrightarrow> 0 \<le> c \<and> c \<le> 32"

definition is_scheme_char :: "int \<Rightarrow> bool" where
  "is_scheme_char c \<longleftrightarrow> is_alpha_ascii c \<or> is_digit_ascii c \<or> c \<in> {43, 45, 46}"

definition is_netloc_end :: "int \<Rightarrow> bool" where
  "is_netloc_end c \<longleftrightarrow> c \<in> {of_char CHR ''/'', of_char CHR ''?'', of_char CHR ''#''}"

text \<open>\<^verbatim>\<open>_checknetloc\<close>: a netloc must not normalize to one with a delimiter.\<close>

definition checknetloc :: "text_env \<Rightarrow> ustr \<Rightarrow> bool" where
  "checknetloc te netloc \<longleftrightarrow>
     isascii netloc \<or>
     (let n = filter (\<lambda>c. c \<notin> set (lit ''@:#?'')) netloc; n' = nfkc te n
      in n = n' \<or> list_all (\<lambda>c. c \<notin> set (lit ''/?#@:'')) n')"

definition is_ipvfuture :: "ustr \<Rightarrow> bool" where
  "is_ipvfuture h \<longleftrightarrow>
     (case partition_at (of_char CHR ''.'') (tl h) of
        (v, dot, rest) \<Rightarrow> v \<noteq> [] \<and> list_all is_hex_digit v \<and> dot \<and> rest \<noteq> [] \<and> 10 \<notin> set rest)"

definition check_bracketed_host :: "ustr \<Rightarrow> bool" where
  "check_bracketed_host h \<longleftrightarrow>
     (if prefix (lit ''v'') h then is_ipvfuture h
      else (case ip_address h of Some (V6 _) \<Rightarrow> True | _ \<Rightarrow> False))"

definition brackets_ok :: "ustr \<Rightarrow> bool" where
  "brackets_ok netloc \<longleftrightarrow>
     (let op = of_char CHR ''[''; cl = of_char CHR '']''
      in (op \<in> set netloc \<longleftrightarrow> cl \<in> set netloc)
         \<and> (op \<in> set netloc \<longrightarrow> check_bracketed_host (before cl (after op netloc))))"

definition split_scheme :: "text_env \<Rightarrow> ustr \<Rightarrow> ustr \<Rightarrow> ustr \<times> ustr" where
  "split_scheme te dflt url =
     (case partition_at (of_char CHR '':'') url of
        (pre, colon, post) \<Rightarrow>
          if colon \<and> pre \<noteq> [] \<and> is_alpha_ascii (hd pre) \<and> list_all is_scheme_char pre
          then (py_lower te pre, post) else (dflt, url))"

definition urlsplit_with :: "text_env \<Rightarrow> ustr \<Rightarrow> ustr \<Rightarrow> split_result option" where
  "urlsplit_with te dflt url0 =
     (let url1 = filter (\<lambda>c. c \<notin> {9, 10, 13}) (lstrip_by is_c0_or_space url0);
          (scheme, url2) = split_scheme te dflt url1;
          has_netloc = prefix (lit ''//'') url2;
          netloc = (if has_netloc then takeWhile (\<lambda>c. \<not> is_netloc_end c) (drop 2 url2) else []);
          url3 = (if has_netloc then dropWhile (\<lambda>c. \<not> is_netloc_end c) (drop 2 url2) else url2);
          url4 = before (of_char CHR ''#'') url3
      in if (has_netloc \<longrightarrow> brackets_ok netloc) \<and> checknetloc te netloc
         then Some \<lparr>sr_scheme = scheme, sr_netloc = netloc,
                    sr_path = before (of_char CHR ''?'') url4, sr_query = after (of_char CHR ''?'') url4,
                    sr_fragment = after (of_char CHR ''#'') url3\<rparr>
         else None)"

definition urlsplit :: "text_env \<Rightarrow> ustr \<Rightarrow> split_result option" where
  "urlsplit te url = urlsplit_with te [] url"

subsection \<open>The attributes of a split result\<close>

definition hostinfo :: "ustr \<Rightarrow> ustr \<times> ustr option" where
  "hostinfo netloc =
     (let hi = snd (snd (rpartition_at (of_char CHR ''@'') netloc));
          (host, port) =
            (case partition_at (of_char CHR ''['') hi of
               (_, True, bracketed) \<Rightarrow>
                 (before (of_char CHR '']'') bracketed,
                  after (of_char CHR '':'') (after (of_char CHR '']'') bracketed))
             | (_, False, _) \<Rightarrow> (before (of_char CHR '':'') hi, after (of_char CHR '':'') hi))
      in (host, if port = [] then None else Some port))"

text \<open>The empty string stands for \<^verbatim>\<open>None\<close>: the callers test only truth.\<close>

definition hostname :: "text_env \<Rightarrow> split_result \<Rightarrow> ustr" where
  "hostname te sr =
     (case partition_at (of_char CHR ''%'') (fst (hostinfo (sr_netloc sr))) of
        (h, pct, zone) \<Rightarrow> py_lower te h @ (if pct then [of_char CHR ''%''] else []) @ zone)"

text \<open>\<^verbatim>\<open>port\<close>: \<open>None\<close> is the \<^verbatim>\<open>ValueError\<close>, \<open>Some None\<close> no port.\<close>

definition port_of :: "split_result \<Rightarrow> int option option" where
  "port_of sr =
     (case snd (hostinfo (sr_netloc sr)) of
        None \<Rightarrow> Some None
      | Some p \<Rightarrow>
          if list_all is_digit_ascii p \<and> digits_value 10 p \<le> 65535
          then Some (Some (digits_value 10 p)) else None)"

definition has_credentials :: "split_result \<Rightarrow> bool" where
  "has_credentials sr \<longleftrightarrow>
     (case rpartition_at (of_char CHR ''@'') (sr_netloc sr) of
        (info, True, _) \<Rightarrow> before (of_char CHR '':'') info \<noteq> [] \<or> after (of_char CHR '':'') info \<noteq> []
      | (_, False, _) \<Rightarrow> False)"

section \<open>Putting back together\<close>

definition uses_netloc :: "ustr list" where
  "uses_netloc = map lit
     ['''', ''ftp'', ''http'', ''gopher'', ''nntp'', ''telnet'', ''imap'', ''wais'', ''file'', ''mms'',
      ''https'', ''shttp'', ''snews'', ''prospero'', ''rtsp'', ''rtsps'', ''rtspu'', ''rsync'', ''svn'',
      ''svn+ssh'', ''sftp'', ''nfs'', ''git'', ''git+ssh'', ''ws'', ''wss'', ''itms-services'']"

definition uses_relative :: "ustr list" where
  "uses_relative = map lit
     ['''', ''ftp'', ''http'', ''gopher'', ''nntp'', ''imap'', ''wais'', ''file'', ''https'', ''shttp'',
      ''mms'', ''prospero'', ''rtsp'', ''rtsps'', ''rtspu'', ''sftp'', ''svn'', ''svn+ssh'', ''ws'', ''wss'']"

definition uses_params :: "ustr list" where
  "uses_params = map lit
     ['''', ''ftp'', ''hdl'', ''prospero'', ''http'', ''https'', ''shttp'', ''rtsp'', ''rtsps'', ''rtspu'',
      ''sip'', ''sips'', ''mms'', ''sftp'', ''tel'']"

definition urlunsplit :: "ustr \<Rightarrow> ustr \<Rightarrow> ustr \<Rightarrow> ustr \<Rightarrow> ustr \<Rightarrow> ustr" where
  "urlunsplit scheme netloc path query fragment =
     (let slashes = lit ''//'';
          url = (if netloc \<noteq> []
                 then slashes @ netloc @ (if path \<noteq> [] \<and> hd path \<noteq> of_char CHR ''/'' then lit ''/'' else []) @ path
                 else if prefix slashes path then slashes @ path
                 else if scheme \<noteq> [] \<and> scheme \<in> set uses_netloc
                         \<and> (path = [] \<or> hd path = of_char CHR ''/'') then slashes @ path
                 else path)
      in (if scheme \<noteq> [] then scheme @ lit '':'' else []) @ url
         @ (if query \<noteq> [] then lit ''?'' @ query else [])
         @ (if fragment \<noteq> [] then lit ''#'' @ fragment else []))"

text \<open>\<^verbatim>\<open>_splitparams\<close>: the \<^verbatim>\<open>;params\<close> of the last path segment.\<close>

definition splitparams :: "ustr \<Rightarrow> ustr \<times> ustr" where
  "splitparams path =
     (case rpartition_at (of_char CHR ''/'') path of
        (dir, slash, seg) \<Rightarrow>
          (case partition_at (of_char CHR '';'') seg of
             (s, semi, params) \<Rightarrow>
               if semi then (dir @ (if slash then lit ''/'' else []) @ s, params) else (path, [])))"

definition urlparse_params :: "split_result \<Rightarrow> ustr \<times> ustr" where
  "urlparse_params sr =
     (if sr_scheme sr \<in> set uses_params \<and> of_char CHR '';'' \<in> set (sr_path sr)
      then splitparams (sr_path sr) else (sr_path sr, []))"

definition urlunparse :: "ustr \<Rightarrow> ustr \<Rightarrow> ustr \<Rightarrow> ustr \<Rightarrow> ustr \<Rightarrow> ustr \<Rightarrow> ustr" where
  "urlunparse scheme netloc path params query fragment =
     urlunsplit scheme netloc (if params \<noteq> [] then path @ lit '';'' @ params else path) query fragment"

section \<open>Joining\<close>

fun resolve_segments :: "ustr list \<Rightarrow> ustr list \<Rightarrow> ustr list" where
  "resolve_segments acc [] = rev acc"
| "resolve_segments acc (seg # segs) =
     (if seg = lit ''..'' then resolve_segments (tl acc) segs
      else if seg = lit ''.'' then resolve_segments acc segs
      else resolve_segments (seg # acc) segs)"

definition join_path :: "ustr \<Rightarrow> ustr \<Rightarrow> ustr" where
  "join_path bpath path =
     (let slash = of_char CHR ''/'';
          bparts = split_on slash bpath;
          base_parts = (if last bparts \<noteq> [] then butlast bparts else bparts);
          segs0 = base_parts @ split_on slash path;
          segs = (if prefix [slash] path then split_on slash path
                  else if length segs0 \<le> 2 then segs0
                  else hd segs0 # filter (\<lambda>s. s \<noteq> []) (butlast (tl segs0)) @ [last segs0]);
          resolved = resolve_segments [] segs
                     @ (if last segs \<in> {lit ''.'', lit ''..''} then [[]] else []);
          joined = join [slash] resolved
      in if joined = [] then [slash] else joined)"

definition urljoin :: "text_env \<Rightarrow> ustr \<Rightarrow> ustr \<Rightarrow> ustr option" where
  "urljoin te base url =
     (if base = [] then Some url else if url = [] then Some base
      else (case (urlsplit te base) of None \<Rightarrow> None | Some b \<Rightarrow>
        (case urlsplit_with te (sr_scheme b) url of None \<Rightarrow> None | Some u \<Rightarrow>
          (let scheme = sr_scheme u; (path, params) = urlparse_params u; (bpath, bparams) = urlparse_params b
           in if scheme \<noteq> sr_scheme b \<or> scheme \<notin> set uses_relative then Some url
              else if scheme \<in> set uses_netloc \<and> sr_netloc u \<noteq> []
                then Some (urlunparse scheme (sr_netloc u) path params (sr_query u) (sr_fragment u))
              else
                (let netloc = (if scheme \<in> set uses_netloc then sr_netloc b else sr_netloc u)
                 in if path = [] \<and> params = []
                    then Some (urlunparse scheme netloc bpath bparams
                           (if sr_query u = [] then sr_query b else sr_query u) (sr_fragment u))
                    else Some (urlunparse scheme netloc (join_path bpath path) params
                           (sr_query u) (sr_fragment u)))))))"

section \<open>Percent-coding over UTF-8\<close>

definition utf8_char :: "int \<Rightarrow> int list" where
  "utf8_char c =
     (if c < 0x80 then [c]
      else if c < 0x800 then [0xC0 + c div 64, 0x80 + c mod 64]
      else if c < 0x10000 then [0xE0 + c div 4096, 0x80 + c div 64 mod 64, 0x80 + c mod 64]
      else [0xF0 + c div 262144, 0x80 + c div 4096 mod 64, 0x80 + c div 64 mod 64, 0x80 + c mod 64])"

definition utf8 :: "ustr \<Rightarrow> int list" where
  "utf8 s = concat (map utf8_char s)"

definition is_cont :: "int \<Rightarrow> bool" where
  "is_cont b \<longleftrightarrow> 0x80 \<le> b \<and> b \<le> 0xBF"

text \<open>How many continuation bytes a lead byte wants, and the range of the first of them.\<close>

definition utf8_lead :: "int \<Rightarrow> (nat \<times> int \<times> int) option" where
  "utf8_lead b =
     (if 0xC2 \<le> b \<and> b \<le> 0xDF then Some (1, 0x80, 0xBF)
      else if b = 0xE0 then Some (2, 0xA0, 0xBF)
      else if b = 0xED then Some (2, 0x80, 0x9F)
      else if 0xE1 \<le> b \<and> b \<le> 0xEF then Some (2, 0x80, 0xBF)
      else if b = 0xF0 then Some (3, 0x90, 0xBF)
      else if 0xF1 \<le> b \<and> b \<le> 0xF3 then Some (3, 0x80, 0xBF)
      else if b = 0xF4 then Some (3, 0x80, 0x8F)
      else None)"

text \<open>The continuation bytes that follow a lead byte, at most as many as it wants.\<close>

definition utf8_conts :: "nat \<times> int \<times> int \<Rightarrow> int list \<Rightarrow> int list" where
  "utf8_conts want bs = (case want of (n, lo, hi) \<Rightarrow>
     (case bs of [] \<Rightarrow> []
      | b # bs' \<Rightarrow> if lo \<le> b \<and> b \<le> hi then b # takeWhile is_cont (take (n - 1) bs') else []))"

definition utf8_value :: "int \<Rightarrow> int list \<Rightarrow> int" where
  "utf8_value b cs =
     foldl (\<lambda>a c. a * 64 + (c - 0x80)) (if length cs = 1 then b - 0xC0 else if length cs = 2 then b - 0xE0 else b - 0xF0) cs"

text \<open>\<^verbatim>\<open>bytes.decode("utf-8", errors="replace")\<close>: a maximal ill-formed part becomes U+FFFD.\<close>

function utf8_decode :: "int list \<Rightarrow> ustr" where
  "utf8_decode [] = []"
| "utf8_decode (b # bs) =
     (if b < 0x80 then b # utf8_decode bs
      else (case utf8_lead b of
         None \<Rightarrow> 0xFFFD # utf8_decode bs
       | Some (n, lo, hi) \<Rightarrow>
           (let cs = utf8_conts (n, lo, hi) bs
            in (if length cs = n then utf8_value b cs else 0xFFFD) # utf8_decode (drop (length cs) bs))))"
  by pat_completeness auto
termination
  by (relation "measure length") auto

fun pct_decode :: "ustr \<Rightarrow> int list" where
  "pct_decode (c # a # b # s) =
     (if c = 37 \<and> is_hex_digit a \<and> is_hex_digit b then digits_value 16 [a, b] # pct_decode s
      else c # pct_decode (a # b # s))"
| "pct_decode s = s"

text \<open>
  \<^verbatim>\<open>unquote\<close>: every maximal run of ASCII characters is percent-decoded to bytes and
  read as UTF-8; other characters stay.
\<close>

function unquote_runs :: "ustr \<Rightarrow> ustr" where
  "unquote_runs [] = []"
| "unquote_runs (c # s) =
     (if c < 128
      then utf8_decode (pct_decode (takeWhile (\<lambda>x. x < 128) (c # s))) @ unquote_runs (dropWhile (\<lambda>x. x < 128) (c # s))
      else c # unquote_runs s)"
  by pat_completeness auto
termination
  by (relation "measure length") (auto simp: le_imp_less_Suc length_dropWhile_le)

definition unquote :: "ustr \<Rightarrow> ustr" where
  "unquote s = (if 37 \<in> set s then unquote_runs s else s)"

definition is_always_safe :: "int \<Rightarrow> bool" where
  "is_always_safe c \<longleftrightarrow> is_alpha_ascii c \<or> is_digit_ascii c \<or> c \<in> set (lit ''_.-~'')"

definition hex_upper :: "int \<Rightarrow> int" where
  "hex_upper d = (if d < 10 then 48 + d else 55 + d)"

definition quote :: "ustr \<Rightarrow> ustr \<Rightarrow> ustr" where
  "quote safe s = concat (map (\<lambda>b. if is_always_safe b \<or> b \<in> set safe then [b]
       else [37, hex_upper (b div 16), hex_upper (b mod 16)]) (utf8 s))"

definition quote_plus :: "ustr \<Rightarrow> ustr" where
  "quote_plus s = map (\<lambda>c. if c = 32 then 43 else c) (quote (lit '' '') s)"

definition urlencode :: "(ustr \<times> ustr) list \<Rightarrow> ustr" where
  "urlencode kvs = join (lit ''&'') (map (\<lambda>(k, v). quote_plus k @ lit ''='' @ quote_plus v) kvs)"

text \<open>\<^verbatim>\<open>parse_qsl(qs, keep_blank_values=False)\<close>.\<close>

definition plus_to_space :: "ustr \<Rightarrow> ustr" where
  "plus_to_space s = map (\<lambda>c. if c = 43 then 32 else c) s"

definition parse_field :: "ustr \<Rightarrow> (ustr \<times> ustr) option" where
  "parse_field f =
     (case partition_at (of_char CHR ''='') f of
        (k, eq, v) \<Rightarrow> if eq \<and> v \<noteq> [] then Some (unquote (plus_to_space k), unquote (plus_to_space v)) else None)"

definition parse_qsl :: "ustr \<Rightarrow> (ustr \<times> ustr) list" where
  "parse_qsl qs = List.map_filter parse_field (split_on (of_char CHR ''&'') qs)"

end
