(* ===== verification/Body_Reader.thy ===== *)
theory Body_Reader
  imports Py_Url
begin

text \<open>
  Reading a response body under a cap: \<^verbatim>\<open>_decompressor\<close> and \<^verbatim>\<open>_read_body\<close> of
  \<^verbatim>\<open>src/apps/core/safe_http.py\<close>, and the exceptions that module raises.

  The body arrives as raw chunks, each with the reading of the monotonic clock when it is
  handled; after the last one the stream ends or the transport fails.  \<^verbatim>\<open>zlib\<close> is a C
  library: a \<open>zlib\<close> record holds its three operations, and \<open>zlib_ok\<close> states what their
  documentation promises (output no longer than asked for, and no input held back unless the
  output limit was reached), \<open>flush_ok\<close> what it says of \<^verbatim>\<open>flush\<close>.  The loop around \<^verbatim>\<open>decompress\<close> has fuel
  \<open>EXPAND_FUEL\<close>; under \<open>zlib_ok\<close> it makes one call per chunk, so the fuel is never
  used up (\<open>expand_enough\<close>); running out is the value \<open>Diverges\<close>.
\<close>

type_synonym bytes = "8 word list"

datatype unsafe_reason =
    MalformedUrl | SchemeNotAllowed ustr | PlainHttp | PortNotAllowed int | CredentialsInUrl
  | MissingHost | InvalidHostName | NotPublic

datatype httpx_error = TimeoutException | DecodingError | OtherHTTPError

text \<open>
  What leaves \<^verbatim>\<open>safe_http.request\<close>: its own three exceptions, the transport's, and a
  plain \<^verbatim>\<open>ValueError\<close> of the standard library that nothing in the module catches.
\<close>

datatype http_exn =
    UnsafeURLError unsafe_reason | ResponseTooLargeError nat | DeadlineExceededError
  | HttpxError httpx_error | PlainValueError | Diverges

datatype zlib_error = ZlibError

record 'z zlib =
  z_new :: "int \<Rightarrow> 'z" \<comment> \<open>\<open>zlib.decompressobj(wbits)\<close>\<close>
  z_decompress :: "'z \<Rightarrow> bytes \<Rightarrow> nat \<Rightarrow> zlib_error + (bytes \<times> bytes \<times> 'z)"
    \<comment> \<open>\<open>decompress(data, max_length)\<close>: output, \<open>unconsumed_tail\<close>, the object after the call\<close>
  z_eof :: "'z \<Rightarrow> bool"
  z_flush :: "'z \<Rightarrow> zlib_error + bytes"

definition zlib_ok :: "'z zlib \<Rightarrow> bool" where
  "zlib_ok z \<longleftrightarrow> (\<forall>d data n out rest d'. 0 < n \<longrightarrow> z_decompress z d data n = Inr (out, rest, d') \<longrightarrow>
     length out \<le> n \<and> (length out < n \<longrightarrow> rest = []))"

record raw_body =
  rb_encoding :: "ustr option" \<comment> \<open>the Content-Encoding header\<close>
  rb_length :: "ustr option" \<comment> \<open>the Content-Length header\<close>
  rb_chunks :: "(int \<times> bytes) list"
  rb_failed :: "httpx_error option" \<comment> \<open>how the stream ends after the chunks\<close>

definition RAW_SLACK_BYTES :: nat where
  "RAW_SLACK_BYTES = 64 * 1024"

definition MAX_WBITS :: int where
  "MAX_WBITS = 15"

definition zlib_wrapped :: "bytes \<Rightarrow> bool" where
  "zlib_wrapped first \<longleftrightarrow>
     (case first of b0 # b1 # _ \<Rightarrow>
        b0 AND 0x0F = 8 \<and> (unat b0 * 256 + unat b1) mod 31 = 0
      | _ \<Rightarrow> False)"

definition decompressor :: "text_env \<Rightarrow> 'z zlib \<Rightarrow> ustr option \<Rightarrow> bytes \<Rightarrow> http_exn + 'z option" where
  "decompressor te z header first =
     (let encoding = py_lower te (strip (case header of None \<Rightarrow> [] | Some h \<Rightarrow> h))
      in if encoding \<in> {[], lit ''identity''} then Inr None
         else if encoding \<in> {lit ''gzip'', lit ''x-gzip''} then Inr (Some (z_new z (16 + MAX_WBITS)))
         else if encoding = lit ''deflate''
           then Inr (Some (z_new z (if zlib_wrapped first then MAX_WBITS else - MAX_WBITS)))
         else Inl (HttpxError DecodingError))"

definition EXPAND_FUEL :: nat where
  "EXPAND_FUEL = 2"

text \<open>\<^verbatim>\<open>while data and len(buf) < limit and not decoder.eof\<close>.\<close>

fun expand :: "'z zlib \<Rightarrow> nat \<Rightarrow> nat \<Rightarrow> 'z \<Rightarrow> bytes \<Rightarrow> bytes \<Rightarrow> http_exn + (bytes \<times> 'z)" where
  "expand z fuel limit d buf data =
     (if data \<noteq> [] \<and> length buf < limit \<and> \<not> z_eof z d
      then (case fuel of
          0 \<Rightarrow> Inl Diverges
        | Suc fuel' \<Rightarrow>
            (case z_decompress z d data (limit - length buf) of
               Inl ZlibError \<Rightarrow> Inl (HttpxError DecodingError)
             | Inr (out, rest, d') \<Rightarrow> expand z fuel' limit d' (buf @ out) rest))
      else Inr (buf, d))"

declare expand.simps [simp del]

record 'z read_state =
  rd_buf :: bytes
  rd_raw :: nat
  rd_decoder :: "'z option"
  rd_started :: bool

definition over_limit :: "nat \<Rightarrow> bytes \<Rightarrow> nat \<Rightarrow> bool" where
  "over_limit max_bytes buf raw \<longleftrightarrow> length buf > max_bytes \<or> raw > max_bytes + RAW_SLACK_BYTES"

text \<open>Evaluated on integers, since natural numerals of this size are unary for the code generator.\<close>

lemma over_limit_code [code]:
  "over_limit max_bytes buf raw \<longleftrightarrow> int (length buf) > int max_bytes \<or> int raw > int max_bytes + 65536"
  by (auto simp: over_limit_def RAW_SLACK_BYTES_def)

text \<open>One chunk: the new state and whether the loop breaks after it.\<close>

definition take_chunk :: "text_env \<Rightarrow> 'z zlib \<Rightarrow> raw_body \<Rightarrow> nat \<Rightarrow> int \<Rightarrow> 'z read_state \<Rightarrow> int \<times> bytes
    \<Rightarrow> http_exn + ('z read_state \<times> bool)" where
  "take_chunk te z rb max_bytes deadline s tc =
     (let (now, chunk) = tc; raw = rd_raw s + length chunk
      in if now > deadline then Inl DeadlineExceededError
         else ebind (if rd_started s then Inr (rd_decoder s) else decompressor te z (rb_encoding rb) chunk)
           (\<lambda>dec. case dec of
              None \<Rightarrow>
                (let buf = rd_buf s @ chunk
                 in Inr (\<lparr>rd_buf = buf, rd_raw = raw, rd_decoder = None, rd_started = True\<rparr>,
                         over_limit max_bytes buf raw))
            | Some d \<Rightarrow>
                ebind (expand z EXPAND_FUEL (max_bytes + 1) d (rd_buf s) chunk) (\<lambda>(buf, d').
                  Inr (\<lparr>rd_buf = buf, rd_raw = raw, rd_decoder = Some d', rd_started = True\<rparr>,
                       z_eof z d' \<or> over_limit max_bytes buf raw))))"

fun take_chunks :: "text_env \<Rightarrow> 'z zlib \<Rightarrow> raw_body \<Rightarrow> nat \<Rightarrow> int \<Rightarrow> 'z read_state \<Rightarrow> (int \<times> bytes) list
    \<Rightarrow> http_exn + 'z read_state" where
  "take_chunks te z rb max_bytes deadline s [] =
     (case rb_failed rb of None \<Rightarrow> Inr s | Some e \<Rightarrow> Inl (HttpxError e))"
| "take_chunks te z rb max_bytes deadline s (tc # tcs) =
     ebind (take_chunk te z rb max_bytes deadline s tc) (\<lambda>(s', stop).
       if stop then Inr s' else take_chunks te z rb max_bytes deadline s' tcs)"

definition declared_too_large :: "nat \<Rightarrow> ustr option \<Rightarrow> bool" where
  "declared_too_large max_bytes declared \<longleftrightarrow>
     (case declared of None \<Rightarrow> False
      | Some n \<Rightarrow> n \<noteq> [] \<and> list_all is_digit_ascii n \<and> digits_value 10 n > int max_bytes)"

text \<open>The \<^verbatim>\<open>try\<close> block: all chunks, then \<^verbatim>\<open>flush\<close> unless the buffer is over the cap or the stream complete.\<close>

definition read_stream :: "text_env \<Rightarrow> 'z zlib \<Rightarrow> raw_body \<Rightarrow> nat \<Rightarrow> int \<Rightarrow> http_exn + (bytes \<times> nat)" where
  "read_stream te z rb max_bytes deadline =
     ebind (take_chunks te z rb max_bytes deadline
              \<lparr>rd_buf = [], rd_raw = 0, rd_decoder = None, rd_started = False\<rparr> (rb_chunks rb))
       (\<lambda>s. case rd_decoder s of
          None \<Rightarrow> Inr (rd_buf s, rd_raw s)
        | Some d \<Rightarrow>
            if length (rd_buf s) \<le> max_bytes \<and> \<not> z_eof z d
            then (case z_flush z d of Inl ZlibError \<Rightarrow> Inl (HttpxError DecodingError)
                  | Inr out \<Rightarrow> Inr (rd_buf s @ out, rd_raw s))
            else Inr (rd_buf s, rd_raw s))"

definition read_body :: "text_env \<Rightarrow> 'z zlib \<Rightarrow> raw_body \<Rightarrow> nat \<Rightarrow> int \<Rightarrow> bool \<Rightarrow> http_exn + (bytes \<times> bool)" where
  "read_body te z rb max_bytes deadline trunc =
     (if declared_too_large max_bytes (rb_length rb) \<and> \<not> trunc
      then Inl (ResponseTooLargeError (nat (digits_value 10 (the (rb_length rb)))))
      else ebind (read_stream te z rb max_bytes deadline) (\<lambda>(buf, raw_read).
        if over_limit max_bytes buf raw_read
        then (if trunc then Inr (take max_bytes buf, True)
              else Inl (ResponseTooLargeError (max (length buf) raw_read)))
        else Inr (buf, False)))"

section \<open>The cap\<close>

lemma zlib_okD:
  assumes "zlib_ok z" and "z_decompress z d data n = Inr (out, rest, d')" and "0 < n"
  shows "length out \<le> n" and "length out < n \<Longrightarrow> rest = []"
  using assms unfolding zlib_ok_def by blast+

lemma expand_enough:
  assumes "zlib_ok z" and "0 < fuel"
  shows "expand z fuel limit d buf data = expand z EXPAND_FUEL limit d buf data"
    and "expand z fuel limit d buf data \<noteq> Inl Diverges"
proof -
  have stop: "expand z n limit d' (buf @ out) rest = Inr (buf @ out, d')"
    if "z_decompress z d data (limit - length buf) = Inr (out, rest, d')" and "length buf < limit"
    for n out rest d'
  proof -
    have "length out \<le> limit - length buf" and "length out < limit - length buf \<longrightarrow> rest = []"
      using zlib_okD [OF \<open>zlib_ok z\<close> that(1)] that(2) by auto
    then have "rest = [] \<or> length (buf @ out) \<ge> limit" by auto
    then show ?thesis by (auto simp: expand.simps [of z n])
  qed
  obtain k where k: "fuel = Suc k" using \<open>0 < fuel\<close> by (cases fuel) auto
  have two: "EXPAND_FUEL = Suc 1" by (simp add: EXPAND_FUEL_def)
  show "expand z fuel limit d buf data = expand z EXPAND_FUEL limit d buf data"
    unfolding k two expand.simps [of z "Suc k" limit d buf data] expand.simps [of z "Suc 1" limit d buf data]
    using stop by (auto split: sum.splits zlib_error.splits)
  show "expand z fuel limit d buf data \<noteq> Inl Diverges"
    unfolding k expand.simps [of z "Suc k" limit d buf data]
    using stop by (auto split: sum.splits zlib_error.splits)
qed

text \<open>The rest of a compressed bomb is never expanded: the buffer stops one byte over the cap.\<close>

lemma expand_bound:
  assumes "zlib_ok z" and "length buf \<le> limit" and "expand z fuel limit d buf data = Inr (buf', d')"
  shows "length buf' \<le> limit"
  using assms(2,3)
proof (induction fuel arbitrary: d buf data)
  case 0
  then show ?case by (auto simp: expand.simps [of z 0] split: if_splits)
next
  case (Suc fuel)
  show ?case
  proof (cases "data \<noteq> [] \<and> length buf < limit \<and> \<not> z_eof z d")
    case True
    then obtain out rest d'' where step: "z_decompress z d data (limit - length buf) = Inr (out, rest, d'')"
      and rec: "expand z fuel limit d'' (buf @ out) rest = Inr (buf', d')"
      using Suc.prems(2) by (auto simp: expand.simps [of z "Suc fuel"] split: sum.splits zlib_error.splits)
    have "length out \<le> limit - length buf"
      using zlib_okD(1) [OF \<open>zlib_ok z\<close> step] True by simp
    then have "length (buf @ out) \<le> limit" using True by auto
    with rec show ?thesis by (intro Suc.IH)
  next
    case False
    with Suc.prems show ?thesis by (auto simp: expand.simps [of z "Suc fuel"])
  qed
qed

lemma read_body_length:
  assumes "read_body te z rb max_bytes deadline trunc = Inr (body, was_cut)"
  shows "length body \<le> max_bytes" and "was_cut \<longrightarrow> trunc"
  using assms
  by (auto simp: read_body_def result_simps over_limit_def split: if_splits)

section \<open>Uncompressed bodies\<close>

definition plain_encoding :: "text_env \<Rightarrow> raw_body \<Rightarrow> bool" where
  "plain_encoding te rb \<longleftrightarrow>
     py_lower te (strip (case rb_encoding rb of None \<Rightarrow> [] | Some h \<Rightarrow> h)) \<in> {[], lit ''identity''}"

lemma take_chunk_plain:
  assumes "plain_encoding te rb" and "rd_decoder s = None" and "fst tc \<le> deadline"
  shows "take_chunk te z rb max_bytes deadline s tc =
    Inr (\<lparr>rd_buf = rd_buf s @ snd tc, rd_raw = rd_raw s + length (snd tc), rd_decoder = None, rd_started = True\<rparr>,
         over_limit max_bytes (rd_buf s @ snd tc) (rd_raw s + length (snd tc)))"
  using assms
  by (auto simp: take_chunk_def decompressor_def plain_encoding_def Let_def split: prod.splits)

lemma take_chunks_plain:
  assumes "plain_encoding te rb" and "rb_failed rb = None"
    and "\<forall>tc \<in> set tcs. fst tc \<le> deadline"
    and "rd_decoder s = None" and "rd_raw s = length (rd_buf s)"
    and "length (rd_buf s) + length (concat (map snd tcs)) \<le> max_bytes"
  shows "\<exists>st. take_chunks te z rb max_bytes deadline s tcs =
    Inr \<lparr>rd_buf = rd_buf s @ concat (map snd tcs), rd_raw = rd_raw s + length (concat (map snd tcs)),
         rd_decoder = None, rd_started = st\<rparr>"
  using assms
proof (induction tcs arbitrary: s)
  case Nil
  then show ?case by (cases s) simp
next
  case (Cons tc tcs)
  let ?s = "\<lparr>rd_buf = rd_buf s @ snd tc, rd_raw = rd_raw s + length (snd tc), rd_decoder = None, rd_started = True\<rparr>"
  have "\<not> over_limit max_bytes (rd_buf s @ snd tc) (rd_raw s + length (snd tc))"
    using Cons.prems by (auto simp: over_limit_def)
  then have "take_chunks te z rb max_bytes deadline s (tc # tcs) = take_chunks te z rb max_bytes deadline ?s tcs"
    using Cons.prems by (simp add: take_chunk_plain)
  moreover have "\<exists>st. take_chunks te z rb max_bytes deadline ?s tcs =
    Inr \<lparr>rd_buf = rd_buf ?s @ concat (map snd tcs), rd_raw = rd_raw ?s + length (concat (map snd tcs)),
         rd_decoder = None, rd_started = st\<rparr>"
    using Cons.IH [of ?s] Cons.prems by (simp add: add.assoc)
  ultimately show ?case by (simp add: add.assoc)
qed

section \<open>Properties\<close>

text \<open>An uncompressed body within the cap, received before the deadline, is returned
  whole and unchanged.\<close>

theorem read_body_plain:
  assumes "plain_encoding te rb" and "rb_failed rb = None"
    and "\<forall>tc \<in> set (rb_chunks rb). fst tc \<le> deadline"
    and "length (concat (map snd (rb_chunks rb))) \<le> max_bytes"
    and "\<not> declared_too_large max_bytes (rb_length rb)"
  shows "read_body te z rb max_bytes deadline trunc = Inr (concat (map snd (rb_chunks rb)), False)"
proof -
  let ?s0 = "\<lparr>rd_buf = [], rd_raw = 0, rd_decoder = None, rd_started = False\<rparr>"
  obtain st where "take_chunks te z rb max_bytes deadline ?s0 (rb_chunks rb) =
      Inr \<lparr>rd_buf = concat (map snd (rb_chunks rb)), rd_raw = length (concat (map snd (rb_chunks rb))),
           rd_decoder = None, rd_started = st\<rparr>"
    using take_chunks_plain [of te rb "rb_chunks rb" deadline ?s0 max_bytes z] assms by auto
  with assms(4,5) show ?thesis by (simp add: read_body_def read_stream_def over_limit_def)
qed

text \<open>A decoder that copies its input, as a stored stream does.\<close>

definition zlib_copy :: "unit zlib" where
  "zlib_copy = \<lparr>z_new = (\<lambda>_. ()), z_decompress = (\<lambda>d data n. Inr (take n data, drop n data, d)),
                z_eof = (\<lambda>_. False), z_flush = (\<lambda>_. Inr [])\<rparr>"

definition two_chunks :: raw_body where
  "two_chunks = \<lparr>rb_encoding = None, rb_length = Some (lit ''4''), rb_chunks = [(1, [60, 97]), (2, [98, 62])],
                 rb_failed = None\<rparr>"

theorem read_body_plain_witness:
  "read_body te_ascii zlib_copy two_chunks 10 5 False = Inr ([60, 97, 98, 62], False)"
proof -
  have "plain_encoding te_ascii two_chunks"
    by (simp add: plain_encoding_def two_chunks_def strip_by_def lstrip_by_def rstrip_by_def)
  moreover have "\<not> declared_too_large 10 (rb_length two_chunks)"
    by (simp add: declared_too_large_def two_chunks_def lit_def digits_value_def)
  ultimately show ?thesis
    using read_body_plain [of te_ascii two_chunks 5 10 zlib_copy False] by (simp add: two_chunks_def)
qed

text \<open>Whatever the server sends, a body that is returned has at most \<open>max_bytes\<close> bytes,
  and it is a cut one only if the caller asked for truncation.\<close>

theorem read_body_cap:
  assumes "read_body te z rb max_bytes deadline trunc = Inr (body, was_cut)"
  shows "length body \<le> max_bytes \<and> (was_cut \<longrightarrow> trunc)"
  using assms by (blast dest: read_body_length)

theorem read_body_cap_witness:
  "read_body te_ascii zlib_copy two_chunks 3 5 True = Inr ([60, 97, 98], True)
   \<and> length [60, 97, 98 :: 8 word] \<le> 3"
proof -
  have run: "read_body te_ascii zlib_copy two_chunks 3 5 True = Inr ([60, 97, 98], True)"
    by (simp add: read_body_def read_stream_def two_chunks_def take_chunk_def decompressor_def declared_too_large_def
        over_limit_def strip_by_def lstrip_by_def rstrip_by_def RAW_SLACK_BYTES_def)
  show ?thesis using run read_body_cap [OF run] by simp
qed

section \<open>Bombs\<close>

text \<open>
  Documented behaviour of \<^verbatim>\<open>flush\<close>: it returns the output of the input the object still holds.  A new
  object holds none, nor does one whose last \<^verbatim>\<open>decompress\<close> returned less than it was allowed to; after a
  call that reached its limit nothing is known, and \<^verbatim>\<open>flush\<close> may return any amount.
\<close>

definition drained :: "'z zlib \<Rightarrow> 'z \<Rightarrow> bool" where
  "drained z d \<longleftrightarrow> (\<forall>out. z_flush z d = Inr out \<longrightarrow> out = [])"

definition flush_ok :: "'z zlib \<Rightarrow> bool" where
  "flush_ok z \<longleftrightarrow> (\<forall>wbits. drained z (z_new z wbits))
     \<and> (\<forall>d data n out rest d'. z_decompress z d data n = Inr (out, rest, d') \<longrightarrow> length out < n \<longrightarrow> drained z d')"

lemma flush_okD: "flush_ok z \<Longrightarrow> z_decompress z d data n = Inr (out, rest, d') \<Longrightarrow> length out < n \<Longrightarrow> drained z d'"
  unfolding flush_ok_def by blast

lemma expand_drained:
  assumes "zlib_ok z" and "flush_ok z"
  shows "expand z fuel limit d buf data = Inr (buf', d') \<Longrightarrow> length buf = limit \<or> drained z d
    \<Longrightarrow> length buf' = limit \<or> drained z d'"
proof (induction fuel arbitrary: d buf data)
  case 0
  then show ?case by (auto simp: expand.simps [of z 0] split: if_splits)
next
  case (Suc fuel)
  show ?case
  proof (cases "data \<noteq> [] \<and> length buf < limit \<and> \<not> z_eof z d")
    case True
    then obtain out rest d'' where step: "z_decompress z d data (limit - length buf) = Inr (out, rest, d'')"
      and rec: "expand z fuel limit d'' (buf @ out) rest = Inr (buf', d')"
      using Suc.prems(1) by (auto simp: expand.simps [of z "Suc fuel"] split: sum.splits zlib_error.splits)
    have "length out \<le> limit - length buf" using zlib_okD(1) [OF assms(1) step] True by simp
    then have "length (buf @ out) = limit \<or> length out < limit - length buf" using True by auto
    with flush_okD [OF assms(2) step] rec show ?thesis by (intro Suc.IH) auto
  next
    case False
    with Suc.prems show ?thesis by (auto simp: expand.simps [of z "Suc fuel"])
  qed
qed

text \<open>The states of the loop on a compressed response: within one byte of the cap, and a decoder that may
  hold something back only when that byte is used up.\<close>

definition capped :: "'z zlib \<Rightarrow> nat \<Rightarrow> 'z read_state \<Rightarrow> bool" where
  "capped z max_bytes s \<longleftrightarrow> length (rd_buf s) \<le> Suc max_bytes
     \<and> (\<forall>d. rd_decoder s = Some d \<longrightarrow> length (rd_buf s) = Suc max_bytes \<or> drained z d)"

lemma take_chunk_capped:
  assumes z: "zlib_ok z" "flush_ok z" and "\<not> plain_encoding te rb"
    and "rd_started s \<longrightarrow> rd_decoder s \<noteq> None" and s: "capped z max_bytes s"
    and "take_chunk te z rb max_bytes deadline s tc = Inr (s', stop)"
  shows "capped z max_bytes s' \<and> rd_decoder s' \<noteq> None"
proof -
  obtain d buf d' where run: "expand z EXPAND_FUEL (max_bytes + 1) d (rd_buf s) (snd tc) = Inr (buf, d')"
    and s': "s' = \<lparr>rd_buf = buf, rd_raw = rd_raw s + length (snd tc), rd_decoder = Some d', rd_started = True\<rparr>"
    and d: "rd_decoder s = Some d \<or> (\<exists>w. d = z_new z w)"
    using assms(3,4,6)
    by (auto simp: take_chunk_def result_simps Let_def decompressor_def plain_encoding_def
        split: prod.splits if_splits option.splits)
  have "length (rd_buf s) = max_bytes + 1 \<or> drained z d"
    using d s z(2) by (auto simp: capped_def flush_ok_def)
  with expand_drained [OF z run] expand_bound [OF z(1) _ run] s show ?thesis by (simp add: capped_def s')
qed

lemma take_chunks_capped:
  assumes z: "zlib_ok z" "flush_ok z" and enc: "\<not> plain_encoding te rb"
  shows "rd_started s \<longrightarrow> rd_decoder s \<noteq> None \<Longrightarrow> capped z max_bytes s
    \<Longrightarrow> take_chunks te z rb max_bytes deadline s tcs = Inr s' \<Longrightarrow> capped z max_bytes s'"
proof (induction tcs arbitrary: s)
  case Nil
  then show ?case by (simp split: option.splits)
next
  case (Cons tc tcs)
  then obtain s1 stop where tc: "take_chunk te z rb max_bytes deadline s tc = Inr (s1, stop)"
    and rest: "(if stop then Inr s1 else take_chunks te z rb max_bytes deadline s1 tcs) = Inr s'"
    by (auto simp: result_simps)
  have "capped z max_bytes s1 \<and> rd_decoder s1 \<noteq> None"
    using take_chunk_capped [OF z enc Cons.prems(1,2) tc] .
  with rest Cons.IH show ?case by (auto split: if_splits)
qed

text \<open>C37: A compressed bomb is never expanded.  When the decoder behaves as zlib documents, whatever the
  chunks of a compressed response would decompress to, all that \<^verbatim>\<open>_read_body\<close> ever has in its buffer, the
  output of the final \<^verbatim>\<open>flush\<close> included, is at most one byte more than the cap.\<close>

theorem bomb_stays_capped:
  assumes "zlib_ok z" and "flush_ok z" and "\<not> plain_encoding te rb"
    and "read_stream te z rb max_bytes deadline = Inr (buf, raw_read)"
  shows "length buf \<le> Suc max_bytes"
proof -
  let ?s0 = "\<lparr>rd_buf = [], rd_raw = 0, rd_decoder = None, rd_started = False\<rparr>"
  obtain s where s: "take_chunks te z rb max_bytes deadline ?s0 (rb_chunks rb) = Inr s"
    using assms(4) by (cases "take_chunks te z rb max_bytes deadline ?s0 (rb_chunks rb)") (auto simp: read_stream_def)
  have ok: "capped z max_bytes s"
    by (rule take_chunks_capped [OF assms(1-3) _ _ s]) (simp_all add: capped_def)
  show ?thesis
  proof (cases "\<exists>d. rd_decoder s = Some d \<and> length (rd_buf s) \<le> max_bytes \<and> \<not> z_eof z d")
    case True
    then obtain d out where "rd_decoder s = Some d" "length (rd_buf s) \<le> max_bytes" "z_flush z d = Inr out" "buf = rd_buf s @ out"
      using assms(4) s by (auto simp: read_stream_def split: sum.splits zlib_error.splits)
    with ok show ?thesis by (auto simp: capped_def drained_def)
  next
    case False
    with assms(4) s have "buf = rd_buf s" by (auto simp: read_stream_def split: option.splits if_splits)
    with ok show ?thesis by (simp add: capped_def)
  qed
qed

definition gzip_chunks :: raw_body where
  "gzip_chunks = \<lparr>rb_encoding = Some (lit ''gzip''), rb_length = None,
                  rb_chunks = [(1, [1, 2, 3]), (2, [4, 5, 6])], rb_failed = None\<rparr>"

text \<open>A decoder that expands every byte to a hundred and hands out what it holds back on \<^verbatim>\<open>flush\<close>.\<close>

definition zlib_bomb :: "bytes zlib" where
  "zlib_bomb = \<lparr>z_new = (\<lambda>_. []),
     z_decompress = (\<lambda>held data n. let out = held @ concat (map (replicate 100) data) in Inr (take n out, [], drop n out)),
     z_eof = (\<lambda>_. False), z_flush = Inr\<rparr>"

theorem bomb_stays_capped_witness:
  "\<exists>buf raw. read_stream te_ascii zlib_bomb gzip_chunks 2 5 = Inr (buf, raw) \<and> buf = [1, 1, 1] \<and> length buf \<le> Suc 2"
proof -
  have ok: "zlib_ok zlib_bomb" "flush_ok zlib_bomb"
    by (auto simp: zlib_ok_def flush_ok_def drained_def zlib_bomb_def Let_def)
  have enc: "\<not> plain_encoding te_ascii gzip_chunks"
    by (simp add: plain_encoding_def gzip_chunks_def lit_def py_lower_def strip_by_def lstrip_by_def
        rstrip_by_def is_space_def isascii_def ascii_lower_def is_upper_ascii_def)
  have "(case read_stream te_ascii zlib_bomb gzip_chunks 2 5 of Inr (buf, _) \<Rightarrow> buf = [1, 1, 1] | Inl _ \<Rightarrow> False)"
    by code_simp
  then obtain buf raw where run: "read_stream te_ascii zlib_bomb gzip_chunks 2 5 = Inr (buf, raw)" "buf = [1, 1, 1]"
    by (auto split: sum.splits)
  show ?thesis using run bomb_stays_capped [OF ok enc run(1)] by blast
qed

end
