(* ===== verification/Safe_Http.thy ===== *)
theory Safe_Http
  imports Address_Policy Body_Reader
begin

text \<open>
  Outbound HTTP for user-supplied URLs: \<^verbatim>\<open>Target\<close>, \<^verbatim>\<open>ascii_host\<close>,
  \<^verbatim>\<open>canonical_url\<close>, \<^verbatim>\<open>resolve\<close> and \<^verbatim>\<open>request\<close> of
  \<^verbatim>\<open>src/apps/core/safe_http.py\<close>.

  The network is a \<open>net_env\<close>: what the \<open>n\<close>-th name lookup, clock reading and exchange of
  a request give, for \<open>n\<close> the redirect hop.  \<open>request\<close> returns the list of requests put
  on the wire beside its result, so the theorems can speak about every connection made, the ones
  of a request that fails in the end included.
\<close>

section \<open>Checking a URL\<close>

definition ALLOWED_PORTS :: "ustr \<Rightarrow> int option" where
  "ALLOWED_PORTS scheme =
     (if scheme = lit ''http'' then Some 80 else if scheme = lit ''https'' then Some 443 else None)"

definition REDIRECT_CODES :: "int list" where
  "REDIRECT_CODES = [301, 302, 303, 307, 308]"

definition PERMANENT_REDIRECT_CODES :: "int list" where
  "PERMANENT_REDIRECT_CODES = [301, 308]"

definition ACCEPT_ENCODING :: ustr where
  "ACCEPT_ENCODING = lit ''gzip, deflate''"

record target =
  t_scheme :: ustr
  t_host :: ustr
  t_port :: int
  t_address :: ip_addr
  t_path :: ustr

definition pinned_url :: "target \<Rightarrow> ustr" where
  "pinned_url t =
     (let literal = (case t_address t of
          V6 _ \<Rightarrow> lit ''['' @ ip_str (t_address t) @ lit '']''
        | V4 _ \<Rightarrow> ip_str (t_address t))
      in t_scheme t @ lit ''://'' @ literal @ lit '':'' @ nat_str (nat (t_port t)) @ t_path t)"

definition ascii_host :: "text_env \<Rightarrow> ustr \<Rightarrow> http_exn + ustr" where
  "ascii_host te host0 =
     (let host = py_lower te (rstrip_by (\<lambda>c. c = of_char CHR ''.'') host0)
      in if host = [] then Inl (UnsafeURLError MissingHost)
         else if isascii host then Inr host
         else (case idna_encode te host of
            Some h \<Rightarrow> Inr h
          | None \<Rightarrow> Inl (UnsafeURLError InvalidHostName)))"

text \<open>\<^verbatim>\<open>urlsplit\<close> and \<^verbatim>\<open>.port\<close> under one \<^verbatim>\<open>try\<close>, as both callers have it.\<close>

definition split_and_port :: "text_env \<Rightarrow> ustr \<Rightarrow> http_exn + (split_result \<times> int option)" where
  "split_and_port te url =
     (case urlsplit te url of
        None \<Rightarrow> Inl (UnsafeURLError MalformedUrl)
      | Some parts \<Rightarrow>
          (case port_of parts of
             None \<Rightarrow> Inl (UnsafeURLError MalformedUrl)
           | Some port \<Rightarrow> Inr (parts, port)))"

definition bracket_host :: "ustr \<Rightarrow> ustr" where
  "bracket_host host = (if of_char CHR '':'' \<in> set host then lit ''['' @ host @ lit '']'' else host)"

definition canonical_url :: "text_env \<Rightarrow> ustr \<Rightarrow> http_exn + ustr" where
  "canonical_url te url =
     ebind (split_and_port te (strip url)) (\<lambda>(parts, port).
       let scheme = py_lower te (sr_scheme parts) in
       ebind (ascii_host te (hostname te parts)) (\<lambda>host.
         let netloc = bracket_host host;
             netloc' = (case port of
                 None \<Rightarrow> netloc
               | Some p \<Rightarrow> if Some p \<noteq> ALLOWED_PORTS scheme then netloc @ lit '':'' @ nat_str (nat p) else netloc)
         in Inr (urlunsplit scheme netloc' (if sr_path parts = [] then lit ''/'' else sr_path parts)
                   (sr_query parts) [])))"

text \<open>The loop over the resolved addresses: every one is parsed and must be public.\<close>

fun check_addresses :: "ustr list \<Rightarrow> http_exn + ip_addr list" where
  "check_addresses [] = Inr []"
| "check_addresses (sockaddr # infos) =
     (case ip_address (before (of_char CHR ''%'') sockaddr) of
        None \<Rightarrow> Inl PlainValueError
      | Some ip \<Rightarrow>
          if \<not> is_public ip then Inl (UnsafeURLError NotPublic)
          else ebind (check_addresses infos) (\<lambda>ips. Inr (ip # ips)))"

definition resolve :: "text_env \<Rightarrow> (ustr \<Rightarrow> int \<Rightarrow> ustr list option) \<Rightarrow> bool \<Rightarrow> ustr \<Rightarrow> http_exn + target" where
  "resolve te getaddrinfo allow_http url =
     ebind (split_and_port te url) (\<lambda>(parts, port).
       let scheme = py_lower te (sr_scheme parts) in
       case ALLOWED_PORTS scheme of
         None \<Rightarrow> Inl (UnsafeURLError (SchemeNotAllowed scheme))
       | Some default_port \<Rightarrow>
           ebind (raise_if (scheme = lit ''http'' \<and> \<not> allow_http) (UnsafeURLError PlainHttp)) (\<lambda>_.
           ebind (raise_if (port \<notin> {None, Some default_port}) (UnsafeURLError (PortNotAllowed (the port)))) (\<lambda>_.
           ebind (raise_if (has_credentials parts) (UnsafeURLError CredentialsInUrl)) (\<lambda>_.
           ebind (ascii_host te (hostname te parts)) (\<lambda>host.
           ebind (of_option (UnsafeURLError NotPublic) (getaddrinfo host default_port)) (\<lambda>infos.
           ebind (check_addresses infos) (\<lambda>addresses.
             case addresses of
               [] \<Rightarrow> Inl (UnsafeURLError NotPublic)
             | ip # _ \<Rightarrow>
                 Inr \<lparr>t_scheme = scheme, t_host = host, t_port = default_port, t_address = ip,
                      t_path = (if sr_path parts = [] then lit ''/'' else sr_path parts)
                               @ (if sr_query parts = [] then [] else lit ''?'' @ sr_query parts)\<rparr>)))))))"

section \<open>Sending a request\<close>

record wire_request =
  wr_method :: ustr
  wr_target :: target
  wr_url :: ustr
  wr_headers :: "ustr \<rightharpoonup> ustr"
  wr_content :: "bytes option"
  wr_timeout :: int
  wr_sni :: "ustr option"

record wire_response =
  rs_status :: int
  rs_header :: "string \<Rightarrow> ustr option" \<comment> \<open>\<open>resp.headers.get(name)\<close>\<close>
  rs_chunks :: "(int \<times> bytes) list"
  rs_failed :: "httpx_error option"

record net_env =
  dns :: "nat \<Rightarrow> ustr \<Rightarrow> int \<Rightarrow> ustr list option"
  clock :: "nat \<Rightarrow> int"
  exchange :: "nat \<Rightarrow> wire_request \<Rightarrow> httpx_error + wire_response"

record http_response =
  status_code :: int
  resp_headers :: "string \<Rightarrow> ustr option"
  content :: bytes
  resp_url :: ustr
  truncated :: bool
  permanent_url :: "ustr option"

text \<open>The keyword arguments of \<^verbatim>\<open>request\<close> that stay the same over the hops.\<close>

record req_config =
  cf_headers :: "ustr \<rightharpoonup> ustr"
  cf_max_bytes :: nat
  cf_allow_http :: bool
  cf_truncate :: bool
  cf_discard_body :: bool

text \<open>What the loop changes: URL, method, content, and whether every redirect was permanent.\<close>

record req_state =
  rq_url :: ustr
  rq_method :: ustr
  rq_content :: "bytes option"
  rq_permanent :: bool

definition host_header :: "target \<Rightarrow> ustr" where
  "host_header t = bracket_host (t_host t)"

definition build_request :: "req_config \<Rightarrow> req_state \<Rightarrow> target \<Rightarrow> int \<Rightarrow> wire_request" where
  "build_request cf st t remaining =
     \<lparr>wr_method = rq_method st, wr_target = t, wr_url = pinned_url t,
      wr_headers = (cf_headers cf)(lit ''Host'' \<mapsto> host_header t, lit ''Accept-Encoding'' \<mapsto> ACCEPT_ENCODING),
      wr_content = rq_content st, wr_timeout = remaining,
      wr_sni = (if t_scheme t = lit ''https'' then Some (t_host t) else None)\<rparr>"

definition prepare_hop :: "text_env \<Rightarrow> net_env \<Rightarrow> req_config \<Rightarrow> int \<Rightarrow> nat \<Rightarrow> req_state \<Rightarrow> http_exn + wire_request" where
  "prepare_hop te net cf deadline hop st =
     ebind (resolve te (dns net hop) (cf_allow_http cf) (rq_url st)) (\<lambda>t.
       let remaining = deadline - clock net hop in
       if remaining \<le> 0 then Inl DeadlineExceededError else Inr (build_request cf st t remaining))"

definition location :: "wire_response \<Rightarrow> ustr" where
  "location resp = (case rs_header resp ''location'' of None \<Rightarrow> [] | Some l \<Rightarrow> l)"

definition is_redirect :: "wire_response \<Rightarrow> bool" where
  "is_redirect resp \<longleftrightarrow> rs_status resp \<in> set REDIRECT_CODES \<and> location resp \<noteq> []"

definition drops_content :: "wire_response \<Rightarrow> ustr \<Rightarrow> bool" where
  "drops_content resp meth \<longleftrightarrow>
     rs_status resp = 303 \<or> (rs_status resp \<in> {301, 302} \<and> meth = lit ''POST'')"

text \<open>\<^verbatim>\<open>urljoin\<close> may raise a plain \<^verbatim>\<open>ValueError\<close>, which the loop lets through.\<close>

definition follow :: "text_env \<Rightarrow> req_state \<Rightarrow> wire_response \<Rightarrow> http_exn + req_state" where
  "follow te st resp =
     ebind (of_option PlainValueError (urljoin te (rq_url st) (location resp))) (\<lambda>url.
       Inr \<lparr>rq_url = url,
            rq_method = (if drops_content resp (rq_method st) then lit ''GET'' else rq_method st),
            rq_content = (if drops_content resp (rq_method st) then None else rq_content st),
            rq_permanent = (rq_permanent st \<and> rs_status resp \<in> set PERMANENT_REDIRECT_CODES)\<rparr>)"

definition raw_of :: "wire_response \<Rightarrow> raw_body" where
  "raw_of resp = \<lparr>rb_encoding = rs_header resp ''content-encoding'', rb_length = rs_header resp ''content-length'',
                  rb_chunks = rs_chunks resp, rb_failed = rs_failed resp\<rparr>"

definition finish :: "text_env \<Rightarrow> 'z zlib \<Rightarrow> req_config \<Rightarrow> int \<Rightarrow> nat \<Rightarrow> req_state \<Rightarrow> wire_response
    \<Rightarrow> http_exn + http_response" where
  "finish te z cf deadline hop st resp =
     ebind (if cf_discard_body cf then Inr ([], False)
            else read_body te z (raw_of resp) (cf_max_bytes cf) deadline (cf_truncate cf)) (\<lambda>(body, was_cut).
       Inr \<lparr>status_code = rs_status resp, resp_headers = rs_header resp, content = body,
            resp_url = rq_url st, truncated = was_cut,
            permanent_url = (if rq_permanent st \<and> hop > 0 then Some (rq_url st) else None)\<rparr>)"

text \<open>The hops from \<open>hop\<close> on, with \<open>left\<close> redirects still allowed.\<close>

fun request_loop :: "text_env \<Rightarrow> 'z zlib \<Rightarrow> net_env \<Rightarrow> req_config \<Rightarrow> int \<Rightarrow> nat \<Rightarrow> nat \<Rightarrow> req_state
    \<Rightarrow> wire_request list \<times> (http_exn + http_response)" where
  "request_loop te z net cf deadline left hop st =
     (case prepare_hop te net cf deadline hop st of
        Inl e \<Rightarrow> ([], Inl e)
      | Inr wr \<Rightarrow>
          (case exchange net hop wr of
             Inl e \<Rightarrow> ([wr], Inl (HttpxError e))
           | Inr resp \<Rightarrow>
               if is_redirect resp \<and> left > 0
               then (case follow te st resp of
                   Inl e \<Rightarrow> ([wr], Inl e)
                 | Inr st' \<Rightarrow>
                     (case request_loop te z net cf deadline (left - 1) (Suc hop) st' of
                        (log, r) \<Rightarrow> (wr # log, r)))
               else ([wr], finish te z cf deadline hop st resp)))"

declare request_loop.simps [simp del]

definition request :: "text_env \<Rightarrow> 'z zlib \<Rightarrow> net_env \<Rightarrow> req_config \<Rightarrow> int \<Rightarrow> int \<Rightarrow> nat
    \<Rightarrow> ustr \<Rightarrow> ustr \<Rightarrow> bytes option \<Rightarrow> wire_request list \<times> (http_exn + http_response)" where
  "request te z net cf now timeout max_redirects meth url body =
     request_loop te z net cf (now + timeout) max_redirects 0
       \<lparr>rq_url = url, rq_method = map ascii_upper meth, rq_content = body, rq_permanent = True\<rparr>"

section \<open>What a resolved target guarantees\<close>

lemma check_addresses_Inr:
  "check_addresses infos = Inr ips \<longleftrightarrow>
     map (\<lambda>s. ip_address (before (of_char CHR ''%'') s)) infos = map Some ips \<and> list_all is_public ips"
proof (induction infos arbitrary: ips)
  case Nil
  then show ?case by auto
next
  case (Cons s infos)
  then show ?case
    by (cases ips) (auto simp: result_simps split: option.splits)
qed

lemma netloc_head:
  assumes "urlsplit te url = Some sr" and "sr_netloc sr \<noteq> []"
  shows "sr_path sr = [] \<or> hd (sr_path sr) = of_char CHR ''/''"
proof -
  let ?slash = "of_char CHR ''/'' :: int"
  define rest where "rest = (\<lambda>u. dropWhile (\<lambda>c. \<not> is_netloc_end c) (drop 2 u) :: ustr)"
  obtain u where path: "sr_path sr = before (of_char CHR ''?'') (before (of_char CHR ''#'') (rest u))"
    using assms unfolding urlsplit_def urlsplit_with_def rest_def
    by (auto simp: Let_def split: prod.splits if_splits)
  show ?thesis
  proof (cases "rest u")
    case Nil
    with path show ?thesis by (simp add: partition_at_def)
  next
    case (Cons c cs)
    then have "is_netloc_end c"
      unfolding rest_def using hd_dropWhile [of "\<lambda>c. \<not> is_netloc_end c" "drop 2 u"] by simp
    with path Cons show ?thesis
      by (auto simp: is_netloc_end_def partition_at_def)
  qed
qed

lemma hostname_netloc: "hostname te sr \<noteq> [] \<Longrightarrow> sr_netloc sr \<noteq> []"
  by (auto simp: hostname_def hostinfo_def rpartition_at_def partition_at_def Let_def)

lemma ascii_host_nonempty:
  assumes "ascii_host te h = Inr h'"
  shows "h \<noteq> []"
  using assms by (auto simp: ascii_host_def rstrip_by_def)

definition target_ok :: "bool \<Rightarrow> target \<Rightarrow> bool" where
  "target_ok allow_http t \<longleftrightarrow>
     is_public (t_address t)
     \<and> (t_scheme t = lit ''https'' \<and> t_port t = 443 \<or> allow_http \<and> t_scheme t = lit ''http'' \<and> t_port t = 80)
     \<and> t_path t \<noteq> [] \<and> hd (t_path t) = of_char CHR ''/''"

lemma resolve_InrE:
  assumes "resolve te gai allow_http url = Inr t"
  obtains parts port infos ips where
    "urlsplit te url = Some parts" "port_of parts = Some port" "port \<in> {None, Some (t_port t)}"
    "\<not> has_credentials parts"
    "t_scheme t = py_lower te (sr_scheme parts)" "ALLOWED_PORTS (t_scheme t) = Some (t_port t)"
    "t_scheme t = lit ''http'' \<Longrightarrow> allow_http"
    "ascii_host te (hostname te parts) = Inr (t_host t)"
    "gai (t_host t) (t_port t) = Some infos" "check_addresses infos = Inr (t_address t # ips)"
    "t_path t = (if sr_path parts = [] then lit ''/'' else sr_path parts)
                @ (if sr_query parts = [] then [] else lit ''?'' @ sr_query parts)"
  using assms that
  by (auto simp: resolve_def split_and_port_def result_simps Let_def)

lemma resolve_target_ok:
  assumes "resolve te gai allow_http url = Inr t"
  shows "target_ok allow_http t"
proof -
  obtain parts port infos ips where
    sp: "urlsplit te url = Some parts"
    and sch: "ALLOWED_PORTS (t_scheme t) = Some (t_port t)" "t_scheme t = lit ''http'' \<Longrightarrow> allow_http"
    and host: "ascii_host te (hostname te parts) = Inr (t_host t)"
    and addr: "check_addresses infos = Inr (t_address t # ips)"
    and path: "t_path t = (if sr_path parts = [] then lit ''/'' else sr_path parts)
                @ (if sr_query parts = [] then [] else lit ''?'' @ sr_query parts)"
    using resolve_InrE [OF assms] by metis
  have "sr_path parts = [] \<or> hd (sr_path parts) = of_char CHR ''/''"
    using netloc_head [OF sp] hostname_netloc ascii_host_nonempty [OF host] by blast
  then have "t_path t \<noteq> [] \<and> hd (t_path t) = of_char CHR ''/''"
    using path by (auto simp: lit_def)
  moreover have "is_public (t_address t)"
    using addr by (simp add: check_addresses_Inr)
  ultimately show ?thesis
    using sch by (auto simp: target_ok_def ALLOWED_PORTS_def split: if_splits)
qed

section \<open>Every request on the wire\<close>

text \<open>
  A property of requests that \<open>prepare_hop\<close> guarantees holds of every request the loop puts
  on the wire, whatever the servers answer.
\<close>

lemma request_loop_mem:
  assumes "wr \<in> set (fst (request_loop te z net cf deadline left hop st))"
  shows "prepare_hop te net cf deadline hop st = Inr wr \<or>
    (\<exists>l resp st'. left = Suc l \<and> follow te st resp = Inr st' \<and>
       wr \<in> set (fst (request_loop te z net cf deadline l (Suc hop) st')))"
  using assms
  by (auto simp: request_loop.simps [of te z net cf deadline left] gr0_conv_Suc
      split: sum.splits if_splits prod.splits) (metis fst_conv)+

locale hop_policy =
  fixes te :: text_env and net :: net_env and cf :: req_config and deadline :: int
    and ok :: "wire_request \<Rightarrow> bool"
  assumes prepared_ok: "prepare_hop te net cf deadline hop st = Inr wr \<Longrightarrow> ok wr"
begin

lemma logged_ok: "wr \<in> set (fst (request_loop te z net cf deadline left hop st)) \<Longrightarrow> ok wr"
proof (induction left arbitrary: hop st)
  case 0
  then show ?case by (auto dest: request_loop_mem prepared_ok)
next
  case (Suc left)
  then show ?case using request_loop_mem [OF Suc.prems] by (auto dest: prepared_ok)
qed

end

definition pinned_ok :: "req_config \<Rightarrow> wire_request \<Rightarrow> bool" where
  "pinned_ok cf wr \<longleftrightarrow>
     target_ok (cf_allow_http cf) (wr_target wr)
     \<and> wr_url wr = pinned_url (wr_target wr)
     \<and> wr_headers wr (lit ''Host'') = Some (host_header (wr_target wr))
     \<and> wr_sni wr = (if t_scheme (wr_target wr) = lit ''https'' then Some (t_host (wr_target wr)) else None)
     \<and> 0 < wr_timeout wr"

interpretation pinned: hop_policy te net cf deadline "pinned_ok cf" for te net cf deadline
  by unfold_locales
    (auto simp: prepare_hop_def result_simps Let_def pinned_ok_def build_request_def resolve_target_ok
      split: if_splits)

interpretation in_time: hop_policy te net cf deadline
    "\<lambda>wr. \<exists>hop. wr_timeout wr = deadline - clock net hop" for te net cf deadline
  by unfold_locales
    (auto simp: prepare_hop_def result_simps Let_def build_request_def split: if_splits)

lemma request_loop_length:
  "length (fst (request_loop te z net cf deadline left hop st)) \<le> Suc left"
proof (induction left arbitrary: hop st)
  case 0
  then show ?case
    by (auto simp: request_loop.simps [of te z net cf deadline 0] split: sum.splits)
next
  case (Suc left)
  have "length log \<le> Suc left"
    if "request_loop te z net cf deadline left hop' st' = (log, r)" for hop' st' log r
    using Suc.IH [of hop' st'] that by simp
  then show ?case
    by (auto simp: request_loop.simps [of te z net cf deadline "Suc left"] split: sum.splits if_splits prod.splits)
qed

text \<open>The body is sent only with the method the caller asked for.\<close>

lemma prepare_hop_content:
  "prepare_hop te net cf deadline hop st = Inr wr \<Longrightarrow> wr_content wr = rq_content st \<and> wr_method wr = rq_method st"
  by (auto simp: prepare_hop_def result_simps Let_def build_request_def split: if_splits)

lemma request_loop_content:
  assumes "wr \<in> set (fst (request_loop te z net cf deadline left hop st))"
  shows "wr_content wr = None \<or> wr_content wr = rq_content st \<and> wr_method wr = rq_method st"
  using assms
proof (induction left arbitrary: hop st)
  case 0
  then show ?case by (auto dest!: request_loop_mem simp: prepare_hop_content)
next
  case (Suc left)
  have keep: "rq_content st' = None \<or> rq_content st' = rq_content st \<and> rq_method st' = rq_method st"
    if "follow te st resp = Inr st'" for resp st'
    using that by (auto simp: follow_def result_simps split: if_splits)
  from request_loop_mem [OF Suc.prems] show ?case
  proof (elim disjE exE conjE)
    assume "prepare_hop te net cf deadline hop st = Inr wr"
    then show ?thesis by (simp add: prepare_hop_content)
  next
    fix l resp st'
    assume "Suc left = Suc l" and st': "follow te st resp = Inr st'"
      and "wr \<in> set (fst (request_loop te z net cf deadline l (Suc hop) st'))"
    then have "wr_content wr = None \<or> wr_content wr = rq_content st' \<and> wr_method wr = rq_method st'"
      using Suc.IH by simp
    with keep [OF st'] show ?thesis by auto
  qed
qed

lemma finish_permanent:
  assumes "finish te z cf deadline hop st resp = Inr r"
  shows "permanent_url r = Some u \<longleftrightarrow> u = resp_url r \<and> rq_permanent st \<and> 0 < hop"
  using assms by (auto simp: finish_def result_simps split: if_splits)

lemma request_loop_permanent:
  assumes "request_loop te z net cf deadline left hop st = (log, Inr r)"
  shows "permanent_url r = Some u \<longleftrightarrow>
      u = resp_url r \<and> rq_permanent st \<and> 1 < hop + length log \<and>
      (\<forall>i < length log - 1. \<exists>resp. exchange net (hop + i) (log ! i) = Inr resp
          \<and> rs_status resp \<in> set PERMANENT_REDIRECT_CODES)"
  using assms
proof (induction left arbitrary: hop st log)
  case 0
  then show ?case
    by (auto simp: request_loop.simps [of te z net cf deadline 0] finish_permanent split: sum.splits)
next
  case (Suc left)
  obtain wr resp where wr: "prepare_hop te net cf deadline hop st = Inr wr"
    and resp: "exchange net hop wr = Inr resp"
    using Suc.prems by (auto simp: request_loop.simps [of te z net cf deadline "Suc left"] split: sum.splits)
  show ?case
  proof (cases "is_redirect resp")
    case False
    with Suc.prems wr resp show ?thesis
      by (auto simp: request_loop.simps [of te z net cf deadline "Suc left"] finish_permanent)
  next
    case True
    then obtain st' log' where st': "follow te st resp = Inr st'" and log: "log = wr # log'"
      and rec: "request_loop te z net cf deadline left (Suc hop) st' = (log', Inr r)"
      using Suc.prems wr resp
      by (auto simp: request_loop.simps [of te z net cf deadline "Suc left"] split: sum.splits prod.splits)
    have ne: "log' \<noteq> []"
      using rec by (auto simp: request_loop.simps [of te z net cf deadline left] split: sum.splits if_splits prod.splits)
    have perm: "rq_permanent st' \<longleftrightarrow> rq_permanent st \<and> rs_status resp \<in> set PERMANENT_REDIRECT_CODES"
      using st' by (auto simp: follow_def result_simps)
    have split: "(\<forall>i < length log - 1. \<exists>rs. exchange net (hop + i) (log ! i) = Inr rs
          \<and> rs_status rs \<in> set PERMANENT_REDIRECT_CODES) \<longleftrightarrow>
        rs_status resp \<in> set PERMANENT_REDIRECT_CODES \<and>
        (\<forall>i < length log' - 1. \<exists>rs. exchange net (Suc hop + i) (log' ! i) = Inr rs
          \<and> rs_status rs \<in> set PERMANENT_REDIRECT_CODES)"
      using ne resp by (cases "length log'") (auto simp: log All_less_Suc2)
    from ne have "0 < length log'" by simp
    then show ?thesis
      unfolding Suc.IH [OF rec] perm split by (auto simp: log)
  qed
qed

lemma take_chunks_total:
  assumes "zlib_ok z"
  shows "take_chunks te z rb n deadline s tcs \<notin> {Inl Diverges, Inl PlainValueError}"
proof (induction tcs arbitrary: s)
  case Nil
  then show ?case by (simp split: option.splits)
next
  case (Cons tc tcs)
  have "expand z EXPAND_FUEL (n + 1) d buf data \<noteq> Inl Diverges" for d buf data
    using expand_enough(2) [OF assms, of EXPAND_FUEL] by (simp add: EXPAND_FUEL_def)
  moreover have "expand z fuel lim d buf data \<noteq> Inl PlainValueError" for fuel lim d buf data
    by (induction fuel arbitrary: d buf data)
      (auto simp: expand.simps [of z 0] expand.simps [of z "Suc _"] split: sum.splits zlib_error.splits)
  ultimately have "take_chunk te z rb n deadline s tc \<notin> {Inl Diverges, Inl PlainValueError}"
    by (auto simp: take_chunk_def result_simps Let_def decompressor_def split: prod.splits option.splits if_splits)
  with Cons.IH show ?case by (auto simp: result_simps)
qed

lemma read_body_total:
  assumes "zlib_ok z"
  shows "read_body te z rb n deadline trunc \<notin> {Inl Diverges, Inl PlainValueError}"
  using take_chunks_total [OF assms]
  by (auto simp: read_body_def read_stream_def result_simps split: if_splits option.splits sum.splits zlib_error.splits)

lemma check_addresses_total:
  assumes "\<forall>s \<in> set infos. ip_address (before (of_char CHR ''%'') s) \<noteq> None"
  shows "check_addresses infos \<notin> {Inl Diverges, Inl PlainValueError}"
  using assms by (induction infos) (auto simp: result_simps split: option.splits)

text \<open>A computation that raises neither, built up along the source.\<close>

definition raises_documented :: "http_exn + 'a \<Rightarrow> bool" where
  "raises_documented m \<longleftrightarrow> m \<notin> {Inl Diverges, Inl PlainValueError}"

lemma raises_documented_parts:
  "raises_documented (split_and_port te url)" "raises_documented (ascii_host te host)"
  "raises_documented (raise_if b (UnsafeURLError r))" "raises_documented (of_option (UnsafeURLError r) v)"
  "raises_documented (Inl (UnsafeURLError r))" "raises_documented (Inr x)"
  by (auto simp: raises_documented_def split_and_port_def ascii_host_def Let_def split: option.splits if_splits)

lemma raises_documented_ebind:
  "raises_documented m \<Longrightarrow> (\<And>x. m = Inr x \<Longrightarrow> raises_documented (f x)) \<Longrightarrow> raises_documented (ebind m f)"
  by (cases m) (auto simp: raises_documented_def)

lemma raises_documented_case:
  "raises_documented e \<Longrightarrow> (\<And>x. raises_documented (f x)) \<Longrightarrow> raises_documented (case v of None \<Rightarrow> e | Some x \<Rightarrow> f x)"
  "raises_documented e \<Longrightarrow> (\<And>x xs. raises_documented (g x xs)) \<Longrightarrow> raises_documented (case l of [] \<Rightarrow> e | x # xs \<Rightarrow> g x xs)"
  "(\<And>x y. raises_documented (h x y)) \<Longrightarrow> raises_documented (case p of (x, y) \<Rightarrow> h x y)"
  by (auto split: option.split list.split prod.split)

lemma resolve_total:
  assumes "\<And>h p infos s. gai h p = Some infos \<Longrightarrow> s \<in> set infos
      \<Longrightarrow> ip_address (before (of_char CHR ''%'') s) \<noteq> None"
  shows "resolve te gai allow_http url \<notin> {Inl Diverges, Inl PlainValueError}"
proof -
  have addresses: "raises_documented (check_addresses infos)" if "of_option e (gai h p) = Inr infos" for e h p infos
    unfolding raises_documented_def using that assms by (intro check_addresses_total) auto
  have "raises_documented (resolve te gai allow_http url)"
    unfolding resolve_def Let_def
    by (intro raises_documented_ebind raises_documented_case raises_documented_parts) (erule addresses)
  then show ?thesis by (simp add: raises_documented_def)
qed

end
