(* ===== verification/Http_Guarantees.thy ===== *)
theory Http_Guarantees
  imports Safe_Http
begin

text \<open>
  What callers of \<^verbatim>\<open>safe_http\<close> may rely on: the destination of every connection, the
  bound on redirects, where a request body may go, which URL a permanent move leads to, and which
  exceptions leave \<^verbatim>\<open>request\<close>.  The witnesses run a small network: one host that
  redirects once and then answers.
\<close>

definition net_example :: net_env where
  "net_example = \<lparr>dns = (\<lambda>_ _ _. Some [lit ''93.184.216.34'']), clock = (\<lambda>hop. int hop),
     exchange = (\<lambda>hop wr. Inr \<lparr>rs_status = (if hop = 0 then 301 else 200),
       rs_header = (\<lambda>h. if h = ''location'' \<and> hop = 0 then Some (lit ''https://www.example.org/feed'') else None),
       rs_chunks = [(2, [60, 97, 62])], rs_failed = None\<rparr>)\<rparr>"

definition cf_example :: req_config where
  "cf_example = \<lparr>cf_headers = Map.empty, cf_max_bytes = 100, cf_allow_http = False, cf_truncate = False,
                 cf_discard_body = False\<rparr>"

abbreviation run_example :: "wire_request list \<times> (http_exn + http_response)" where
  "run_example \<equiv> request te_ascii zlib_copy net_example cf_example 0 20 5 (lit ''get'')
                   (lit ''https://example.org/rss'') None"

lemma run_example_log: "map wr_url (fst run_example) =
    [lit ''https://93.184.216.34:443/rss'', lit ''https://93.184.216.34:443/feed'']"
  by code_simp

lemma run_example_hd: "fst run_example \<noteq> []"
  using run_example_log by (metis list.distinct(1) list.map_disc_iff)

lemma run_example_ok: "\<exists>r. run_example = (fst run_example, Inr r) \<and> permanent_url r = Some (lit ''https://www.example.org/feed'')"
proof -
  have "(case snd run_example of Inr r \<Rightarrow> permanent_url r | Inl _ \<Rightarrow> None) = Some (lit ''https://www.example.org/feed'')"
    by code_simp
  then show ?thesis by (cases run_example) (auto split: sum.splits)
qed

text \<open>C2: Every connection \<^verbatim>\<open>request\<close> makes, on the first hop and on every redirect, goes to
  an address that passed the public-address check, over https on port 443 (or http on port 80 when
  plain http is allowed); the URL on the wire names that checked address, so no second name lookup
  happens, while the Host header and the TLS server name stay the original host name; and the
  request still has time left.\<close>

theorem request_only_public:
  assumes "wr \<in> set (fst (request te z net cf now timeout max_redirects meth url body))"
  shows "is_public (t_address (wr_target wr))
    \<and> (t_scheme (wr_target wr) = lit ''https'' \<and> t_port (wr_target wr) = 443
       \<or> cf_allow_http cf \<and> t_scheme (wr_target wr) = lit ''http'' \<and> t_port (wr_target wr) = 80)
    \<and> wr_url wr = pinned_url (wr_target wr) \<and> hd (t_path (wr_target wr)) = of_char CHR ''/''
    \<and> wr_headers wr (lit ''Host'') = Some (host_header (wr_target wr))
    \<and> wr_sni wr = (if t_scheme (wr_target wr) = lit ''https'' then Some (t_host (wr_target wr)) else None)
    \<and> 0 < wr_timeout wr \<and> (\<exists>hop. wr_timeout wr = now + timeout - clock net hop)"
  using pinned.logged_ok [OF assms [unfolded request_def]] in_time.logged_ok [OF assms [unfolded request_def]]
  by (auto simp: pinned_ok_def target_ok_def)

theorem request_only_public_witness:
  "is_public (t_address (wr_target (hd (fst run_example)))) \<and> 0 < wr_timeout (hd (fst run_example))"
  using request_only_public [OF hd_in_set [OF run_example_hd]] by blast

text \<open>A URL passes \<^verbatim>\<open>resolve\<close> only when every address its host resolves to is
  public, its port is the scheme's default or absent, it carries no credentials, and plain http is
  used only where allowed; the connection is pinned to the first of the checked addresses.\<close>

theorem resolve_checks_everything:
  assumes "resolve te gai allow_http url = Inr t"
  shows "\<exists>parts port infos ips.
    urlsplit te url = Some parts \<and> port_of parts = Some port \<and> port \<in> {None, Some (t_port t)}
    \<and> \<not> has_credentials parts \<and> (t_scheme t = lit ''http'' \<longrightarrow> allow_http)
    \<and> gai (t_host t) (t_port t) = Some infos
    \<and> map (\<lambda>s. ip_address (before (of_char CHR ''%'') s)) infos = map Some (t_address t # ips)
    \<and> list_all is_public (t_address t # ips)"
  using resolve_InrE [OF assms] unfolding check_addresses_Inr by metis

theorem resolve_checks_everything_witness:
  "\<exists>t. resolve te_ascii (dns net_example 0) False (lit ''https://example.org/rss'') = Inr t \<and> is_public (t_address t)"
proof -
  have "(case resolve te_ascii (dns net_example 0) False (lit ''https://example.org/rss'') of Inr _ \<Rightarrow> True | Inl _ \<Rightarrow> False)"
    by code_simp
  then obtain t where t: "resolve te_ascii (dns net_example 0) False (lit ''https://example.org/rss'') = Inr t"
    by (auto split: sum.splits)
  then show ?thesis using resolve_checks_everything [OF t] by auto
qed

text \<open>A request makes at most \<open>max_redirects + 1\<close> exchanges, and its body is sent only
  with the method the caller asked for: after a redirect that turns the method into GET, nothing of
  it is sent.  With no redirects allowed (webhooks) there is one exchange at most.\<close>

theorem request_redirects_bounded:
  "length (fst (request te z net cf now timeout max_redirects meth url body)) \<le> Suc max_redirects
   \<and> list_all (\<lambda>wr. wr_content wr = None \<or> wr_content wr = body \<and> wr_method wr = map ascii_upper meth)
       (fst (request te z net cf now timeout max_redirects meth url body))"
  unfolding request_def list_all_iff
  by (intro conjI ballI request_loop_length) (drule request_loop_content, simp)

text \<open>The response reports a permanent move exactly when there was at least one redirect and
  every redirect on the way was a 301 or a 308; the URL reported is the one the answer came from.\<close>

theorem request_permanent_url:
  assumes "request te z net cf now timeout max_redirects meth url body = (log, Inr r)"
  shows "permanent_url r = Some u \<longleftrightarrow>
    u = resp_url r \<and> 1 < length log \<and>
    (\<forall>i < length log - 1. \<exists>resp. exchange net i (log ! i) = Inr resp \<and> rs_status resp \<in> {301, 308})"
  using request_loop_permanent [OF assms [unfolded request_def]]
  by (simp add: PERMANENT_REDIRECT_CODES_def)

theorem request_permanent_url_witness:
  "\<exists>log r. run_example = (log, Inr r) \<and> permanent_url r = Some (lit ''https://www.example.org/feed'') \<and> 1 < length log"
proof -
  obtain r where r: "run_example = (fst run_example, Inr r)"
    and p: "permanent_url r = Some (lit ''https://www.example.org/feed'')"
    using run_example_ok by blast
  show ?thesis
    using r p request_permanent_url [OF r] by blast
qed

text \<open>With redirects disabled and a resolver that returns addresses, only the documented
  exceptions leave \<^verbatim>\<open>request\<close>: unsafe URL, response too large, deadline exceeded, or a
  transport error.\<close>

theorem request_documented_exceptions:
  assumes "zlib_ok z"
    and "\<forall>h p infos s. dns net 0 h p = Some infos \<longrightarrow> s \<in> set infos
           \<longrightarrow> ip_address (before (of_char CHR ''%'') s) \<noteq> None"
    and "snd (request te z net cf now timeout 0 meth url body) = Inl e"
  shows "(\<exists>why. e = UnsafeURLError why) \<or> (\<exists>n. e = ResponseTooLargeError n)
    \<or> e = DeadlineExceededError \<or> (\<exists>h. e = HttpxError h)"
proof -
  have "resolve te (dns net 0) ah u \<notin> {Inl Diverges, Inl PlainValueError}" for ah u
    using assms(2) by (intro resolve_total) blast
  moreover have "read_body te z rb n dl trunc \<notin> {Inl Diverges, Inl PlainValueError}" for rb n dl trunc
    by (rule read_body_total [OF assms(1)])
  ultimately have "e \<noteq> Diverges \<and> e \<noteq> PlainValueError"
    using assms(3)
    by (auto simp: request_def request_loop.simps [of _ _ _ _ _ 0] prepare_hop_def finish_def result_simps Let_def
        split: sum.splits if_splits)
  then show ?thesis by (cases e) auto
qed

theorem request_documented_exceptions_witness:
  "\<exists>e. snd (request te_ascii zlib_copy net_example cf_example 0 20 0 (lit ''post'') (lit ''ftp://example.org/'') None) = Inl e
     \<and> (\<exists>why. e = UnsafeURLError why)"
proof -
  have "(case snd (request te_ascii zlib_copy net_example cf_example 0 20 0 (lit ''post'') (lit ''ftp://example.org/'') None)
      of Inl (UnsafeURLError why) \<Rightarrow> True | _ \<Rightarrow> False)"
    by code_simp
  then obtain why where run: "snd (request te_ascii zlib_copy net_example cf_example 0 20 0 (lit ''post'')
      (lit ''ftp://example.org/'') None) = Inl (UnsafeURLError why)"
    by (auto split: sum.splits http_exn.splits)
  have ok: "zlib_ok zlib_copy" by (auto simp: zlib_ok_def zlib_copy_def)
  have "ip_address (before (of_char CHR ''%'') (lit ''93.184.216.34'')) \<noteq> None" by code_simp
  then have dns: "\<forall>h p infos s. dns net_example 0 h p = Some infos \<longrightarrow> s \<in> set infos
           \<longrightarrow> ip_address (before (of_char CHR ''%'') s) \<noteq> None"
    by (auto simp: net_example_def)
  show ?thesis
    using run request_documented_exceptions [OF ok dns run] by blast
qed

text \<open>A redirect whose Location is not a URL the standard library can parse (for example
  \<^verbatim>\<open>http://[bad\<close>) makes \<^verbatim>\<open>request\<close> raise a plain \<^verbatim>\<open>ValueError\<close>,
  which is none of the exceptions its documentation lists and its callers handle.\<close>

theorem malformed_location_escapes:
  assumes "prepare_hop te net cf (now + timeout) 0
      \<lparr>rq_url = url, rq_method = map ascii_upper meth, rq_content = body, rq_permanent = True\<rparr> = Inr wr"
    and "exchange net 0 wr = Inr resp" and "is_redirect resp" and "0 < max_redirects"
    and "urljoin te url (location resp) = None"
  shows "request te z net cf now timeout max_redirects meth url body = ([wr], Inl PlainValueError)"
  using assms by (simp add: request_def request_loop.simps [of _ _ _ _ _ max_redirects] follow_def)

definition net_bad_location :: net_env where
  "net_bad_location = net_example\<lparr>exchange := (\<lambda>hop wr. Inr \<lparr>rs_status = 302,
       rs_header = (\<lambda>h. if h = ''location'' then Some (lit ''http://[bad'') else None),
       rs_chunks = [], rs_failed = None\<rparr>)\<rparr>"

theorem malformed_location_escapes_witness:
  "\<exists>wr. request te_ascii zlib_copy net_bad_location cf_example 0 20 5 (lit ''GET'') (lit ''https://example.org/rss'') None
     = ([wr], Inl PlainValueError)"
proof -
  let ?st = "\<lparr>rq_url = lit ''https://example.org/rss'', rq_method = map ascii_upper (lit ''GET''), rq_content = None,
              rq_permanent = True\<rparr>"
  have "(case prepare_hop te_ascii net_bad_location cf_example (0 + 20) 0 ?st of Inr _ \<Rightarrow> True | Inl _ \<Rightarrow> False)"
    by code_simp
  then obtain wr where wr: "prepare_hop te_ascii net_bad_location cf_example (0 + 20) 0 ?st = Inr wr"
    by (auto split: sum.splits)
  obtain resp where resp: "exchange net_bad_location 0 wr = Inr resp"
    and loc: "location resp = lit ''http://[bad''" and red: "is_redirect resp"
    by (auto simp: net_bad_location_def location_def is_redirect_def REDIRECT_CODES_def)
  have "urljoin te_ascii (lit ''https://example.org/rss'') (lit ''http://[bad'') = None"
    by code_simp
  then show ?thesis
    using malformed_location_escapes [OF wr resp red _, of 5 zlib_copy] loc by auto
qed

end
