(* ===== verification/Django_Cache.thy ===== *)
theory Django_Cache
  imports Py_Str
begin

text \<open>
  The Django cache (Redis) as the code uses it: a parameter of the definitions that call it.
  \<open>cache_ok\<close> is what the code relies on: a value set is returned until its timeout, an
  expired or deleted one is not, other keys are untouched, and \<^verbatim>\<open>add\<close> stores only
  where nothing is stored, in one atomic step.  \<open>map_cache\<close> is a cache with these laws.
\<close>

record ('c, 'v) cache_ops =
  c_get :: "'c \<Rightarrow> int \<Rightarrow> ustr \<Rightarrow> 'v option"
  c_set :: "'c \<Rightarrow> int \<Rightarrow> ustr \<Rightarrow> 'v \<Rightarrow> int \<Rightarrow> 'c"
  c_add :: "'c \<Rightarrow> int \<Rightarrow> ustr \<Rightarrow> 'v \<Rightarrow> int \<Rightarrow> bool \<times> 'c"
  c_delete :: "'c \<Rightarrow> int \<Rightarrow> ustr \<Rightarrow> 'c"

definition cache_ok :: "('c, 'v) cache_ops \<Rightarrow> bool" where
  "cache_ok ops \<longleftrightarrow>
     (\<forall>c now k v ttl t. now \<le> t \<longrightarrow>
        c_get ops (c_set ops c now k v ttl) t k = (if t < now + ttl then Some v else None))
   \<and> (\<forall>c now k v ttl t k'. k' \<noteq> k \<longrightarrow> c_get ops (c_set ops c now k v ttl) t k' = c_get ops c t k')
   \<and> (\<forall>c now k t. c_get ops (c_delete ops c now k) t k = None)
   \<and> (\<forall>c now k t k'. k' \<noteq> k \<longrightarrow> c_get ops (c_delete ops c now k) t k' = c_get ops c t k')
   \<and> (\<forall>c now k v ttl. c_add ops c now k v ttl =
        (if c_get ops c now k = None then (True, c_set ops c now k v ttl) else (False, c)))"

lemma cache_okD:
  assumes "cache_ok ops"
  shows "now \<le> t \<Longrightarrow> c_get ops (c_set ops c now k v ttl) t k = (if t < now + ttl then Some v else None)"
    and "k' \<noteq> k \<Longrightarrow> c_get ops (c_set ops c now k v ttl) t k' = c_get ops c t k'"
    and "c_get ops (c_delete ops c now k) t k = None"
    and "k' \<noteq> k \<Longrightarrow> c_get ops (c_delete ops c now k) t k' = c_get ops c t k'"
    and "c_add ops c now k v ttl = (if c_get ops c now k = None then (True, c_set ops c now k v ttl) else (False, c))"
  using assms by (simp_all add: cache_ok_def)

definition mc_get :: "(ustr \<rightharpoonup> 'v \<times> int) \<Rightarrow> int \<Rightarrow> ustr \<Rightarrow> 'v option" where
  "mc_get c now k = (case c k of None \<Rightarrow> None | Some (v, expires) \<Rightarrow> if now < expires then Some v else None)"

definition map_cache :: "(ustr \<rightharpoonup> 'v \<times> int, 'v) cache_ops" where
  "map_cache = \<lparr>c_get = mc_get,
     c_set = (\<lambda>c now k v ttl. c(k \<mapsto> (v, now + ttl))),
     c_add = (\<lambda>c now k v ttl. if mc_get c now k = None then (True, c(k \<mapsto> (v, now + ttl))) else (False, c)),
     c_delete = (\<lambda>c now k. c(k := None))\<rparr>"

lemma map_cache_ok: "cache_ok map_cache"
  by (simp add: cache_ok_def map_cache_def mc_get_def)

end
