(* ===== verification/Feeds.thy ===== *)
theory Feeds
  imports Complex_Main Safe_Http Django_Cache
begin

text \<open>
  Feeds and the pieces of a crawl: \<^verbatim>\<open>src/apps/feeds/models.py\<close>, \<^verbatim>\<open>backoff.py\<close>,
  \<^verbatim>\<open>ratelimit.py\<close>, \<^verbatim>\<open>validators.py\<close> and \<^verbatim>\<open>fetcher.py\<close>.

  A table of feeds is the list of its rows.  \<^verbatim>\<open>save(update_fields=...)\<close> writes the named
  fields of an instance in memory to its row and leaves the other columns as they are
  (\<open>save_fields\<close>).  Random jitter and settings are arguments; jitter is a rational number and a
  \<^verbatim>\<open>timedelta\<close> rounds to whole microseconds.
\<close>

section \<open>The model\<close>

datatype feed_status =
    NEVER \<comment> \<open>the empty string\<close>
  | OK | NOT_MODIFIED | HTTP_ERROR | NETWORK_ERROR | PARSE_ERROR | ROBOTS_BLOCKED | SSRF_BLOCKED | TOO_LARGE

definition FEED_MAX_URL_CHARS :: int where
  "FEED_MAX_URL_CHARS = 2048"

record feed =
  f_id :: int
  f_url :: ustr
  f_site_url :: ustr
  f_title :: ustr
  f_language :: ustr
  f_etag :: "ustr option"
  f_last_modified :: "ustr option"
  f_interval_seconds :: int
  f_last_fetched_at :: "int option"
  f_next_fetch_at :: int
  f_last_status :: feed_status
  f_consecutive_errors :: nat
  f_disabled_until :: "int option"
  f_is_active :: bool
  f_is_deleted :: bool
  f_created_at :: int
  f_updated_at :: int

definition reset_crawl_state :: "int \<Rightarrow> feed \<Rightarrow> feed" where
  "reset_crawl_state now f =
     f\<lparr>f_etag := None, f_last_modified := None, f_last_status := NEVER, f_consecutive_errors := 0,
       f_disabled_until := None, f_next_fetch_at := now\<rparr>"

record settings =
  USER_AGENT :: ustr
  HTTP_TIMEOUT :: int
  MAX_RESPONSE_BYTES :: nat
  MAX_ENTRIES_PER_FETCH :: int
  ALLOW_PLAIN_HTTP :: bool
  PER_DOMAIN_MIN_INTERVAL :: int

datatype feed_field =
    Url | SiteUrl | Title | Etag | LastModified | LastFetchedAt | NextFetchAt | LastStatus | ConsecutiveErrors
  | DisabledUntil | IsActive | IsDeleted

fun copy_field :: "feed \<Rightarrow> feed_field \<Rightarrow> feed \<Rightarrow> feed" where
  "copy_field inst Url r = r\<lparr>f_url := f_url inst\<rparr>"
| "copy_field inst SiteUrl r = r\<lparr>f_site_url := f_site_url inst\<rparr>"
| "copy_field inst Title r = r\<lparr>f_title := f_title inst\<rparr>"
| "copy_field inst Etag r = r\<lparr>f_etag := f_etag inst\<rparr>"
| "copy_field inst LastModified r = r\<lparr>f_last_modified := f_last_modified inst\<rparr>"
| "copy_field inst LastFetchedAt r = r\<lparr>f_last_fetched_at := f_last_fetched_at inst\<rparr>"
| "copy_field inst NextFetchAt r = r\<lparr>f_next_fetch_at := f_next_fetch_at inst\<rparr>"
| "copy_field inst LastStatus r = r\<lparr>f_last_status := f_last_status inst\<rparr>"
| "copy_field inst ConsecutiveErrors r = r\<lparr>f_consecutive_errors := f_consecutive_errors inst\<rparr>"
| "copy_field inst DisabledUntil r = r\<lparr>f_disabled_until := f_disabled_until inst\<rparr>"
| "copy_field inst IsActive r = r\<lparr>f_is_active := f_is_active inst\<rparr>"
| "copy_field inst IsDeleted r = r\<lparr>f_is_deleted := f_is_deleted inst\<rparr>"

text \<open>Every save also stamps \<^verbatim>\<open>updated_at\<close>, which all the callers list.\<close>

definition copy_fields :: "int \<Rightarrow> feed \<Rightarrow> feed_field list \<Rightarrow> feed \<Rightarrow> feed" where
  "copy_fields now inst names r = (fold (copy_field inst) names r)\<lparr>f_updated_at := now\<rparr>"

definition save_fields :: "int \<Rightarrow> feed \<Rightarrow> feed_field list \<Rightarrow> feed list \<Rightarrow> feed list" where
  "save_fields now inst names rows = update_where (\<lambda>r. f_id r = f_id inst) (copy_fields now inst names) rows"

definition feed_id_key :: "feed \<Rightarrow> int option" where
  "feed_id_key r = Some (f_id r)"

definition feed_url_key :: "feed \<Rightarrow> ustr option" where
  "feed_url_key r = Some (f_url r)"

definition feeds_ok :: "feed list \<Rightarrow> bool" where
  "feeds_ok rows \<longleftrightarrow> uniq feed_id_key rows \<and> uniq feed_url_key rows"

section \<open>Backoff\<close>

definition MAX_ERROR_EXPONENT :: nat where
  "MAX_ERROR_EXPONENT = 6"

definition DISABLE_HOURS :: int where
  "DISABLE_HOURS = 24"

definition MAX_DELAY_SECONDS :: int where
  "MAX_DELAY_SECONDS = DISABLE_HOURS * 3600"

definition round_half_even :: "rat \<Rightarrow> int" where
  "round_half_even x =
     (let n = \<lfloor>x\<rfloor>; d = x - of_int n
      in if d < 1 / 2 then n else if d > 1 / 2 then n + 1 else if even n then n else n + 1)"

definition timedelta_seconds :: "rat \<Rightarrow> int" where
  "timedelta_seconds s = round_half_even (s * 1000000)"

definition backoff_delay :: "int \<Rightarrow> nat \<Rightarrow> rat \<Rightarrow> rat" where
  "backoff_delay base_seconds consecutive_errors jitter =
     min (of_int base_seconds * 2 ^ (min consecutive_errors MAX_ERROR_EXPONENT) * jitter)
         (of_int (max base_seconds MAX_DELAY_SECONDS))"

definition next_attempt_at :: "int \<Rightarrow> int \<Rightarrow> nat \<Rightarrow> rat \<Rightarrow> int" where
  "next_attempt_at now base_seconds consecutive_errors jitter =
     now + timedelta_seconds (backoff_delay base_seconds consecutive_errors jitter)"

definition should_disable :: "nat \<Rightarrow> bool" where
  "should_disable consecutive_errors \<longleftrightarrow> consecutive_errors \<ge> MAX_ERROR_EXPONENT"

definition disabled_until :: "int \<Rightarrow> int" where
  "disabled_until now = now + seconds (DISABLE_HOURS * 3600)"

section \<open>Rate limit\<close>

definition rl_key :: "ustr \<Rightarrow> ustr" where
  "rl_key domain = lit ''rl:fetch:'' @ domain"

text \<open>\<^verbatim>\<open>SET key 1 NX EX ttl\<close>; \<open>None\<close> is the \<^verbatim>\<open>ValueError\<close> of \<^verbatim>\<open>urlparse\<close>.\<close>

definition try_acquire :: "text_env \<Rightarrow> ('d, unit) cache_ops \<Rightarrow> int \<Rightarrow> int \<Rightarrow> 'd \<Rightarrow> ustr \<Rightarrow> int option \<Rightarrow> ('d \<times> bool) option" where
  "try_acquire te ops now PER_DOMAIN d url interval_seconds =
     (case urlsplit te url of
        None \<Rightarrow> None
      | Some parsed \<Rightarrow>
          let domain = hostname te parsed in
          if domain = [] then Some (d, False)
          else let ttl = (case interval_seconds of None \<Rightarrow> PER_DOMAIN | Some i \<Rightarrow> if i = 0 then PER_DOMAIN else i);
                   (done, d') = c_add ops d now (rl_key domain) () (seconds ttl)
               in Some (d', done))"

definition rl_reset :: "('d, unit) cache_ops \<Rightarrow> int \<Rightarrow> 'd \<Rightarrow> ustr \<Rightarrow> 'd" where
  "rl_reset ops now d domain = c_delete ops d now (rl_key domain)"

section \<open>Fetching\<close>

definition ACCEPT :: ustr where
  "ACCEPT = lit ''application/atom+xml, application/rss+xml, application/xml;q=0.9, */*;q=0.5''"

record fetch_result =
  fr_status :: feed_status
  fr_http_status :: "int option"
  fr_body :: "bytes option"
  fr_etag :: "ustr option"
  fr_last_modified :: "ustr option"
  fr_url :: "ustr option"
  fr_permanent_url :: "ustr option"
  fr_content_type :: "ustr option"

definition bare_result :: "feed_status \<Rightarrow> int option \<Rightarrow> fetch_result" where
  "bare_result status http_status =
     \<lparr>fr_status = status, fr_http_status = http_status, fr_body = None, fr_etag = None, fr_last_modified = None,
      fr_url = None, fr_permanent_url = None, fr_content_type = None\<rparr>"

text \<open>A string that is absent or empty is false in a condition.\<close>

definition truthy :: "ustr option \<Rightarrow> bool" where
  "truthy v \<longleftrightarrow> (case v of None \<Rightarrow> False | Some s \<Rightarrow> s \<noteq> [])"

definition fetch_headers :: "settings \<Rightarrow> ustr option \<Rightarrow> ustr option \<Rightarrow> ustr \<rightharpoonup> ustr" where
  "fetch_headers cfg etag last_modified =
     (let h0 = [lit ''User-Agent'' \<mapsto> USER_AGENT cfg, lit ''Accept'' \<mapsto> ACCEPT];
          h1 = (if truthy etag then h0(lit ''If-None-Match'' := etag) else h0)
      in if truthy last_modified then h1(lit ''If-Modified-Since'' := last_modified) else h1)"

definition fetch_config :: "settings \<Rightarrow> ustr option \<Rightarrow> ustr option \<Rightarrow> req_config" where
  "fetch_config cfg etag last_modified =
     \<lparr>cf_headers = fetch_headers cfg etag last_modified, cf_max_bytes = MAX_RESPONSE_BYTES cfg,
      cf_allow_http = ALLOW_PLAIN_HTTP cfg, cf_truncate = False, cf_discard_body = False\<rparr>"

definition fetch_outcome :: "ustr option \<Rightarrow> ustr option \<Rightarrow> http_exn + http_response \<Rightarrow> http_exn + fetch_result" where
  "fetch_outcome etag last_modified reply =
     (case reply of
        Inl (UnsafeURLError _) \<Rightarrow> Inr (bare_result SSRF_BLOCKED None)
      | Inl (ResponseTooLargeError _) \<Rightarrow> Inr (bare_result TOO_LARGE None)
      | Inl DeadlineExceededError \<Rightarrow> Inr (bare_result NETWORK_ERROR None)
      | Inl (HttpxError _) \<Rightarrow> Inr (bare_result NETWORK_ERROR None)
      | Inl e \<Rightarrow> Inl e
      | Inr resp \<Rightarrow>
          if status_code resp = 304
          then Inr ((bare_result NOT_MODIFIED (Some 304))\<lparr>fr_etag := etag, fr_last_modified := last_modified,
                    fr_permanent_url := permanent_url resp\<rparr>)
          else if status_code resp \<ge> 300 then Inr (bare_result HTTP_ERROR (Some (status_code resp)))
          else Inr \<lparr>fr_status = OK, fr_http_status = Some (status_code resp), fr_body = Some (content resp),
                    fr_etag = resp_headers resp ''etag'', fr_last_modified = resp_headers resp ''last-modified'',
                    fr_url = Some (resp_url resp), fr_permanent_url = permanent_url resp,
                    fr_content_type = resp_headers resp ''content-type''\<rparr>)"

definition fetch :: "text_env \<Rightarrow> 'z zlib \<Rightarrow> net_env \<Rightarrow> settings \<Rightarrow> int \<Rightarrow> ustr \<Rightarrow> ustr option \<Rightarrow> ustr option
    \<Rightarrow> http_exn + fetch_result" where
  "fetch te z net cfg now url etag last_modified =
     fetch_outcome etag last_modified
       (snd (request te z net (fetch_config cfg etag last_modified) now (seconds (HTTP_TIMEOUT cfg)) 5 (lit ''GET'') url None))"

text \<open>\<^verbatim>\<open>assert_public_url\<close>; the name lookup is the resolver's.\<close>

definition assert_public_url :: "text_env \<Rightarrow> (ustr \<Rightarrow> int \<Rightarrow> ustr list option) \<Rightarrow> settings \<Rightarrow> ustr \<Rightarrow> bool option \<Rightarrow> http_exn + unit" where
  "assert_public_url te gai cfg url allow_http =
     ebind (resolve te gai (case allow_http of None \<Rightarrow> ALLOW_PLAIN_HTTP cfg | Some b \<Rightarrow> b) url) (\<lambda>_. Inr ())"

section \<open>Saving\<close>

lemma copy_field_id [simp]: "f_id (copy_field inst x r) = f_id r"
  by (cases x) auto

lemma copy_fields_id [simp]: "f_id (copy_fields now inst xs r) = f_id r"
proof -
  have "f_id (fold (copy_field inst) xs r) = f_id r" for r by (induction xs arbitrary: r) auto
  then show ?thesis by (simp add: copy_fields_def)
qed

lemma fold_copy_kept:
  assumes "\<And>x r. x \<in> set xs \<Longrightarrow> g (copy_field inst x r) = g r"
  shows "g (fold (copy_field inst) xs r) = g r"
  using assms by (induction xs arbitrary: r) auto

lemma copy_field_url: "x \<noteq> Url \<Longrightarrow> f_url (copy_field inst x r) = f_url r"
  by (cases x) auto

lemma copy_fields_url [simp]: "Url \<notin> set xs \<Longrightarrow> f_url (copy_fields now inst xs r) = f_url r"
  using fold_copy_kept [where g = f_url and inst = inst and xs = xs, OF copy_field_url] by (auto simp: copy_fields_def)

interpretation save_id: key_preserving feed_id_key "copy_fields now inst xs" for now inst xs
  by unfold_locales (simp add: feed_id_key_def)

lemma save_fields_url:
  assumes "Url \<notin> set xs"
  shows "keys_of feed_url_key (save_fields now inst xs rows) = keys_of feed_url_key rows"
  unfolding save_fields_def using assms by (intro keys_of_update_where) (simp add: feed_url_key_def)

lemma save_fields_ok: "feeds_ok rows \<Longrightarrow> Url \<notin> set xs \<Longrightarrow> feeds_ok (save_fields now inst xs rows)"
  by (simp add: feeds_ok_def uniq_def save_fields_url) (simp add: save_fields_def save_id.keys_kept)

lemma copy_fields_url_cases: "f_url (copy_fields now inst xs r) = f_url r \<or> Url \<in> set xs \<and> f_url (copy_fields now inst xs r) = f_url inst"
proof -
  have one: "f_url (copy_field inst x s) \<in> {f_url s, f_url inst}" for x s by (cases x) auto
  have "f_url (fold (copy_field inst) xs s) \<in> {f_url s, f_url inst}" for s
  proof (induction xs arbitrary: s)
    case (Cons x xs)
    from Cons.IH [of "copy_field inst x s"] one [of x s] show ?case by auto
  qed simp
  then show ?thesis using copy_fields_url [of xs now inst r] by (auto simp: copy_fields_def)
qed

text \<open>Columns that no crawl writes; the URL, which a permanent move changes, is not among them.\<close>

definition settings_of :: "feed \<Rightarrow> int \<times> ustr \<times> int \<times> bool \<times> bool \<times> int" where
  "settings_of r = (f_id r, f_language r, f_interval_seconds r, f_is_active r, f_is_deleted r, f_created_at r)"

lemma settings_of_field: "x \<noteq> IsActive \<Longrightarrow> x \<noteq> IsDeleted \<Longrightarrow> settings_of (copy_field inst x r) = settings_of r"
  by (cases x) (auto simp: settings_of_def)

lemma settings_of_copy [simp]:
  assumes "IsActive \<notin> set xs" and "IsDeleted \<notin> set xs"
  shows "settings_of (copy_fields now inst xs r) = settings_of r"
proof -
  have "settings_of (fold (copy_field inst) xs r) = settings_of r"
  proof (rule fold_copy_kept)
    show "settings_of (copy_field inst x r) = settings_of r" if "x \<in> set xs" for x r
      using that assms by (intro settings_of_field) auto
  qed
  then show ?thesis by (simp add: copy_fields_def settings_of_def)
qed

section \<open>Backoff is bounded\<close>

lemma round_half_even_bounds:
  assumes "of_int a \<le> x" and "x \<le> of_int b"
  shows "a \<le> round_half_even x \<and> round_half_even x \<le> b"
proof -
  have "a \<le> \<lfloor>x\<rfloor>" using assms(1) by (simp add: le_floor_iff)
  moreover have "\<lfloor>x\<rfloor> + 1 \<le> b" if "x \<noteq> of_int \<lfloor>x\<rfloor>"
  proof -
    have "of_int \<lfloor>x\<rfloor> < x" using that of_int_floor_le [of x] by linarith
    with assms(2) have "(of_int \<lfloor>x\<rfloor> :: rat) < of_int b" by linarith
    then show ?thesis by simp
  qed
  moreover have "\<lfloor>x\<rfloor> \<le> b" using assms(2) floor_le_iff of_int_floor_le by (metis floor_mono floor_of_int)
  ultimately show ?thesis by (auto simp: round_half_even_def Let_def)
qed

text \<open>After a failure the next attempt is at least half an interval away (or the longest pause,
  if that is shorter) and at most 24 hours, or one interval for feeds polled less often than that,
  for any jitter in the documented range and any number of errors.\<close>

theorem next_attempt_bounds:
  assumes "0 < base" and "1 / 2 \<le> jitter" and "jitter \<le> 3 / 2"
  shows "2 * (next_attempt_at now base errors jitter - now) \<ge> seconds base
    \<and> next_attempt_at now base errors jitter \<le> now + seconds (max base MAX_DELAY_SECONDS)"
proof -
  let ?d = "backoff_delay base errors jitter"
  have one: "(1 :: rat) \<le> 2 ^ n" for n by simp
  have "of_int base * (1 / 2) \<le> of_int base * (2 ^ (min errors MAX_ERROR_EXPONENT) * jitter)"
  proof (rule mult_left_mono)
    show "1 / 2 \<le> 2 ^ (min errors MAX_ERROR_EXPONENT) * jitter"
      using mult_mono [OF one assms(2)] by simp
  qed (use assms(1) in simp)
  then have "of_int (base * 500000) \<le> ?d * 1000000"
    using assms(1) by (simp add: backoff_delay_def min_def max_def mult.assoc)
  moreover have "?d * 1000000 \<le> of_int (max base MAX_DELAY_SECONDS * 1000000)"
    by (simp add: backoff_delay_def)
  ultimately have "base * 500000 \<le> timedelta_seconds ?d \<and> timedelta_seconds ?d \<le> max base MAX_DELAY_SECONDS * 1000000"
    unfolding timedelta_seconds_def by (rule round_half_even_bounds)
  then show ?thesis by (simp add: next_attempt_at_def seconds_def)
qed

theorem next_attempt_bounds_witness: "next_attempt_at 0 1800 9 1 \<le> 0 + seconds (max 1800 MAX_DELAY_SECONDS)"
  using next_attempt_bounds [of 1800 1 0 9] by simp

section \<open>One fetch per domain and interval\<close>

text \<open>When a fetch from a domain was let through, every other attempt on the same domain before
  the interval is over is refused, and one that comes later is let through again.\<close>

theorem try_acquire_exclusive:
  assumes "cache_ok ops" and "try_acquire te ops now interval d url None = Some (d', True)"
    and "urlsplit te url = Some p" and "urlsplit te url' = Some p'" and "hostname te p' = hostname te p"
    and "now \<le> later"
  shows "try_acquire te ops later interval d' url' None = Some (d', False) \<longleftrightarrow> later < now + seconds interval"
proof -
  have host: "hostname te p \<noteq> []" and "c_get ops d now (rl_key (hostname te p)) = None"
    and d': "d' = c_set ops d now (rl_key (hostname te p)) () (seconds interval)"
    using assms(2,3) by (auto simp: try_acquire_def Let_def cache_okD(5) [OF assms(1)] split: if_splits)
  then show ?thesis
    using assms(4-6)
    by (auto simp: try_acquire_def Let_def cache_okD(5) [OF assms(1)] cache_okD(1) [OF assms(1)])
qed

theorem try_acquire_exclusive_witness:
  "\<exists>d'. try_acquire te_ascii map_cache 0 30 Map.empty (lit ''https://a.b/x'') None = Some (d', True)
     \<and> try_acquire te_ascii map_cache (seconds 5) 30 d' (lit ''http://A.b/y'') None = Some (d', False)"
proof -
  have "(case (urlsplit te_ascii (lit ''https://a.b/x''), urlsplit te_ascii (lit ''http://A.b/y'')) of
      (Some p, Some p') \<Rightarrow> hostname te_ascii p = lit ''a.b'' \<and> hostname te_ascii p' = lit ''a.b'' | _ \<Rightarrow> False)"
    by code_simp
  then obtain p p' where p: "urlsplit te_ascii (lit ''https://a.b/x'') = Some p" "urlsplit te_ascii (lit ''http://A.b/y'') = Some p'"
    and h: "hostname te_ascii p = lit ''a.b''" "hostname te_ascii p' = lit ''a.b''"
    by (auto split: option.splits)
  have "try_acquire te_ascii map_cache 0 30 Map.empty (lit ''https://a.b/x'') None =
      Some ([rl_key (lit ''a.b'') \<mapsto> ((), 0 + seconds 30)], True)"
    by (simp add: try_acquire_def p h map_cache_def mc_get_def)
  from this try_acquire_exclusive [OF map_cache_ok this p, of "seconds 5"] h show ?thesis
    by (auto simp: seconds_def)
qed

section \<open>What a fetch reports\<close>

text \<open>The status of a fetch tells exactly what happened: a body is present exactly for
  \<^verbatim>\<open>ok\<close>, which is a 1xx or 2xx answer; \<^verbatim>\<open>not_modified\<close> is a 304 and keeps the
  validators that were sent; \<^verbatim>\<open>http_error\<close> is any other answer from 300 up; and the rest are failures
  with no HTTP status.\<close>

theorem fetch_classification:
  assumes "fetch te z net cfg now url etag last_modified = Inr r"
  shows "(fr_body r \<noteq> None \<longleftrightarrow> fr_status r = OK)
    \<and> (fr_status r = OK \<longleftrightarrow> (\<exists>c. fr_http_status r = Some c \<and> c < 300))
    \<and> (fr_status r = NOT_MODIFIED \<longleftrightarrow> fr_http_status r = Some 304)
    \<and> (fr_status r = HTTP_ERROR \<longleftrightarrow> (\<exists>c. fr_http_status r = Some c \<and> 300 \<le> c \<and> c \<noteq> 304))
    \<and> (fr_http_status r = None \<longleftrightarrow> fr_status r \<in> {SSRF_BLOCKED, TOO_LARGE, NETWORK_ERROR})
    \<and> (fr_status r = NOT_MODIFIED \<longrightarrow> fr_etag r = etag \<and> fr_last_modified r = last_modified)
    \<and> (fr_permanent_url r \<noteq> None \<longrightarrow> fr_status r \<in> {OK, NOT_MODIFIED})"
  using assms
  by (auto simp: fetch_def fetch_outcome_def bare_result_def split: sum.splits http_exn.splits if_splits)

definition cfg_example :: settings where
  "cfg_example = \<lparr>USER_AGENT = lit ''newsforge/0.1'', HTTP_TIMEOUT = 20, MAX_RESPONSE_BYTES = 100, MAX_ENTRIES_PER_FETCH = 200,
     ALLOW_PLAIN_HTTP = False, PER_DOMAIN_MIN_INTERVAL = 30\<rparr>"

definition net_silent :: net_env where
  "net_silent = \<lparr>dns = (\<lambda>_ _ _. None), clock = (\<lambda>_. 0), exchange = (\<lambda>_ _. Inl TimeoutException)\<rparr>"

theorem fetch_classification_witness:
  "\<exists>r. fetch te_ascii zlib_copy net_silent cfg_example 0 (lit ''https://a.b/'') None None = Inr r
     \<and> fr_status r = SSRF_BLOCKED \<and> fr_http_status r = None"
proof -
  have "(case resolve te_ascii (dns net_silent 0) False (lit ''https://a.b/'') of Inl (UnsafeURLError _) \<Rightarrow> True | _ \<Rightarrow> False)"
    by code_simp
  then obtain why where "resolve te_ascii (dns net_silent 0) False (lit ''https://a.b/'') = Inl (UnsafeURLError why)"
    by (auto split: sum.splits http_exn.splits)
  then have run: "fetch te_ascii zlib_copy net_silent cfg_example 0 (lit ''https://a.b/'') None None =
      Inr (bare_result SSRF_BLOCKED None)"
    by (simp add: fetch_def request_def request_loop.simps [of _ _ _ _ _ 5] prepare_hop_def fetch_config_def cfg_example_def
        fetch_outcome_def)
  with fetch_classification [OF run] show ?thesis by (simp add: bare_result_def)
qed

end
