(* ===== verification/Robots.thy ===== *)
theory Robots
  imports Safe_Http Django_Cache
begin

text \<open>
  The robots.txt policy of \<^verbatim>\<open>src/apps/feeds/robots.py\<close>: fetching and caching the
  file, choosing the rules of the crawler's groups, matching a path against them.

  The reference for matching is \<open>glob\<close>, where a star stands for any text; the reference for
  choosing rules is \<open>groups\<close>, the list of groups of the file, each with its user agents.
\<close>

section \<open>Rules and matching\<close>

definition CACHE_TTL_SECONDS :: int where
  "CACHE_TTL_SECONDS = 86400"

definition RETRY_TTL_SECONDS :: int where
  "RETRY_TTL_SECONDS = 1800"

definition MAX_ROBOTS_BYTES :: nat where
  "MAX_ROBOTS_BYTES = 500 * 1024"

definition MAX_RULES :: nat where
  "MAX_RULES = 2000"

definition MAX_PATTERN_CHARS :: nat where
  "MAX_PATTERN_CHARS = 2048"

definition DISALLOW_ALL :: ustr where
  "DISALLOW_ALL = lit ''User-agent: *'' @ [10] @ lit ''Disallow: /'' @ [10]"

abbreviation star :: int where "star \<equiv> 42" \<comment> \<open>the code point of \<^verbatim>\<open>*\<close>\<close>

definition is_token_char :: "int \<Rightarrow> bool" where
  "is_token_char c \<longleftrightarrow> is_alpha_ascii c \<or> c = of_char CHR ''_'' \<or> c = of_char CHR ''-''"

definition product_token :: "text_env \<Rightarrow> ustr \<Rightarrow> ustr option \<Rightarrow> ustr" where
  "product_token te USER_AGENT user_agent =
     py_lower te (takeWhile is_token_char
       (case user_agent of None \<Rightarrow> USER_AGENT | Some ua \<Rightarrow> if ua = [] then USER_AGENT else ua))"

record robots_rule =
  r_allow :: bool
  r_pattern :: ustr
  r_parts :: "ustr list"
  r_anchored :: bool

text \<open>\<^verbatim>\<open>for part in rest\<close>: the position after the last part found, or no match.\<close>

fun find_parts :: "ustr \<Rightarrow> nat \<Rightarrow> ustr list \<Rightarrow> nat option" where
  "find_parts path pos [] = Some pos"
| "find_parts path pos (part # rest) =
     (case find_sub part (drop pos path) of
        None \<Rightarrow> None
      | Some found \<Rightarrow> find_parts path (pos + found + length part) rest)"

definition rule_matches :: "robots_rule \<Rightarrow> ustr \<Rightarrow> bool" where
  "rule_matches r path =
     (case r_parts r of
        [] \<Rightarrow> False \<comment> \<open>never built: a split has at least one part\<close>
      | first # rest \<Rightarrow>
          if \<not> prefix first path then False
          else if rest = [] then \<not> r_anchored r \<or> path = first
          else if r_anchored r
            then (case find_parts path (length first) (butlast rest) of
                None \<Rightarrow> False
              | Some pos \<Rightarrow> suffix (last rest) path \<and> int (length path) - int (length (last rest)) \<ge> int pos)
            else find_parts path (length first) rest \<noteq> None)"

definition SAFE_PATH_CHARS :: ustr where
  "SAFE_PATH_CHARS = lit ''/?=&;:@!$'' @ [39] @ lit ''()*+,~-._%''"

definition normalize_path :: "ustr \<Rightarrow> ustr" where
  "normalize_path path = quote SAFE_PATH_CHARS (unquote path)"

definition ends_with_dollar :: "ustr \<Rightarrow> bool" where
  "ends_with_dollar pattern \<longleftrightarrow> pattern \<noteq> [] \<and> last pattern = of_char CHR ''$''"

definition pattern_body :: "ustr \<Rightarrow> ustr" where
  "pattern_body pattern = normalize_path (if ends_with_dollar pattern then butlast pattern else pattern)"

definition mk_rule :: "bool \<Rightarrow> ustr \<Rightarrow> robots_rule" where
  "mk_rule allow pattern =
     \<lparr>r_allow = allow, r_pattern = pattern, r_parts = split_on star (pattern_body pattern),
      r_anchored = ends_with_dollar pattern\<rparr>"

section \<open>Parsing\<close>

definition agent_token :: "text_env \<Rightarrow> ustr \<Rightarrow> ustr" where
  "agent_token te value =
     (if strip value = lit ''*'' then lit ''*'' else py_lower te (takeWhile is_token_char (strip value)))"

record parse_state =
  p_own :: "robots_rule list"
  p_star :: "robots_rule list"
  p_named :: bool
  p_for_own :: bool
  p_for_star :: bool
  p_in_rules :: bool
  p_count :: nat

definition parse_init :: parse_state where
  "parse_init = \<lparr>p_own = [], p_star = [], p_named = False, p_for_own = False, p_for_star = False,
                 p_in_rules = False, p_count = 0\<rparr>"

text \<open>Key and value of a line, after comments are removed.\<close>

definition key_value :: "text_env \<Rightarrow> ustr \<Rightarrow> (ustr \<times> ustr) option" where
  "key_value te raw =
     (let line = strip (before (of_char CHR ''#'') raw)
      in if of_char CHR '':'' \<notin> set line then None
         else Some (py_lower te (strip (before (of_char CHR '':'') line)), strip (after (of_char CHR '':'') line)))"

definition on_agent :: "text_env \<Rightarrow> ustr \<Rightarrow> ustr \<Rightarrow> parse_state \<Rightarrow> parse_state" where
  "on_agent te token value st0 =
     (let st = (if p_in_rules st0 then st0\<lparr>p_for_own := False, p_for_star := False, p_in_rules := False\<rparr> else st0);
          agent = agent_token te value
      in if token \<noteq> [] \<and> agent = token then st\<lparr>p_for_own := True, p_named := True\<rparr>
         else if agent = lit ''*'' then st\<lparr>p_for_star := True\<rparr>
         else st)"

definition on_rule :: "bool \<Rightarrow> ustr \<Rightarrow> parse_state \<Rightarrow> parse_state" where
  "on_rule allow value st0 =
     (let st = st0\<lparr>p_in_rules := True\<rparr>
      in if \<not> (p_for_own st \<or> p_for_star st) then st
         else if value = [] \<or> length value > MAX_PATTERN_CHARS \<or> p_count st \<ge> MAX_RULES then st
         else let rule = mk_rule allow value
              in st\<lparr>p_count := p_count st + 1,
                    p_own := (if p_for_own st then p_own st @ [rule] else p_own st),
                    p_star := (if p_for_star st then p_star st @ [rule] else p_star st)\<rparr>)"

definition parse_line :: "text_env \<Rightarrow> ustr \<Rightarrow> ustr \<Rightarrow> parse_state \<Rightarrow> parse_state" where
  "parse_line te token raw st =
     (case key_value te raw of
        None \<Rightarrow> st
      | Some (key, value) \<Rightarrow>
          if key = lit ''user-agent'' then on_agent te token value st
          else if key \<in> {lit ''allow'', lit ''disallow''} then on_rule (key = lit ''allow'') value st
          else st)"

definition rules_for :: "text_env \<Rightarrow> ustr \<Rightarrow> ustr \<Rightarrow> robots_rule list" where
  "rules_for te body token =
     (let st = fold (parse_line te token) (splitlines body) parse_init
      in if p_named st then p_own st else p_star st)"

section \<open>The decision\<close>

definition better :: "robots_rule \<Rightarrow> robots_rule option \<Rightarrow> bool" where
  "better rule best =
     (case best of None \<Rightarrow> True
      | Some b \<Rightarrow> length (r_pattern rule) > length (r_pattern b)
                  \<or> (length (r_pattern rule) = length (r_pattern b) \<and> r_allow rule))"

definition best_rule :: "ustr \<Rightarrow> robots_rule list \<Rightarrow> robots_rule option" where
  "best_rule path rules =
     fold (\<lambda>rule best. if rule_matches rule path \<and> better rule best then Some rule else best) rules None"

definition url_path :: "split_result \<Rightarrow> ustr" where
  "url_path parts =
     normalize_path ((if sr_path parts = [] then lit ''/'' else sr_path parts)
                     @ (if sr_query parts = [] then [] else lit ''?'' @ sr_query parts))"

definition can_fetch :: "text_env \<Rightarrow> ustr \<Rightarrow> ustr \<Rightarrow> ustr \<Rightarrow> http_exn + bool" where
  "can_fetch te body url token =
     ebind (of_option PlainValueError (urlsplit te url)) (\<lambda>parts.
       if url_path parts = lit ''/robots.txt'' then Inr True
       else (case best_rule (url_path parts) (rules_for te body token) of
               None \<Rightarrow> Inr True
             | Some best \<Rightarrow> Inr (r_allow best)))"

definition robots_config :: "ustr \<Rightarrow> bool \<Rightarrow> req_config" where
  "robots_config USER_AGENT ALLOW_PLAIN_HTTP =
     \<lparr>cf_headers = [lit ''User-Agent'' \<mapsto> USER_AGENT], cf_max_bytes = MAX_ROBOTS_BYTES,
      cf_allow_http = ALLOW_PLAIN_HTTP, cf_truncate = True, cf_discard_body = False\<rparr>"

text \<open>What the answer to the request for \<^verbatim>\<open>/robots.txt\<close> means: policy text and seconds to cache.\<close>

definition robots_outcome :: "http_exn + http_response \<Rightarrow> http_exn + (ustr \<times> int)" where
  "robots_outcome result =
     (case result of
        Inl (UnsafeURLError _) \<Rightarrow> Inr ([], RETRY_TTL_SECONDS)
      | Inl DeadlineExceededError \<Rightarrow> Inr (DISALLOW_ALL, RETRY_TTL_SECONDS)
      | Inl (HttpxError _) \<Rightarrow> Inr (DISALLOW_ALL, RETRY_TTL_SECONDS)
      | Inl e \<Rightarrow> Inl e
      | Inr resp \<Rightarrow>
          if status_code resp \<ge> 500 then Inr (DISALLOW_ALL, RETRY_TTL_SECONDS)
          else if status_code resp \<ge> 300 then Inr ([], CACHE_TTL_SECONDS)
          else Inr (utf8_decode (map uint (content resp)), CACHE_TTL_SECONDS))"

definition fetch_robots :: "text_env \<Rightarrow> 'z zlib \<Rightarrow> net_env \<Rightarrow> int \<Rightarrow> ustr \<Rightarrow> bool \<Rightarrow> ustr \<Rightarrow> ustr
    \<Rightarrow> http_exn + (ustr \<times> int)" where
  "fetch_robots te z net now USER_AGENT ALLOW_PLAIN_HTTP domain scheme =
     robots_outcome (snd (request te z net (robots_config USER_AGENT ALLOW_PLAIN_HTTP) now (seconds 5) 5
       (lit ''GET'') (scheme @ lit ''://'' @ domain @ lit ''/robots.txt'') None))"

definition cache_key :: "ustr \<Rightarrow> ustr" where
  "cache_key domain = lit ''robots:'' @ domain"

text \<open>The cache read, and on a miss the fetch and the cache write.\<close>

definition robots_body :: "text_env \<Rightarrow> ('c, ustr) cache_ops \<Rightarrow> (http_exn + (ustr \<times> int)) \<Rightarrow> int \<Rightarrow> 'c \<Rightarrow> ustr
    \<Rightarrow> 'c \<times> (http_exn + ustr)" where
  "robots_body te ops fetched now c domain =
     (case c_get ops c now (cache_key domain) of
        Some body \<Rightarrow> (c, Inr body)
      | None \<Rightarrow>
          (case fetched of
             Inl e \<Rightarrow> (c, Inl e)
           | Inr (body, ttl) \<Rightarrow> (c_set ops c now (cache_key domain) body (seconds ttl), Inr body)))"

definition is_allowed :: "text_env \<Rightarrow> 'z zlib \<Rightarrow> net_env \<Rightarrow> ('c, ustr) cache_ops \<Rightarrow> int \<Rightarrow> ustr \<Rightarrow> bool
    \<Rightarrow> 'c \<Rightarrow> ustr \<Rightarrow> ustr option \<Rightarrow> 'c \<times> (http_exn + bool)" where
  "is_allowed te z net ops now USER_AGENT ALLOW_PLAIN_HTTP c url user_agent =
     (case urlsplit te url of
        None \<Rightarrow> (c, Inl PlainValueError)
      | Some parsed \<Rightarrow>
          if hostname te parsed = [] then (c, Inr False)
          else let domain = py_lower te (hostname te parsed);
                   scheme = (if sr_scheme parsed = [] then lit ''https'' else sr_scheme parsed);
                   (c', body) = robots_body te ops (fetch_robots te z net now USER_AGENT ALLOW_PLAIN_HTTP domain scheme)
                                  now c domain
               in (c', ebind body (\<lambda>b. if b = [] then Inr True
                         else can_fetch te b url (product_token te USER_AGENT user_agent))))"

definition invalidate :: "('c, ustr) cache_ops \<Rightarrow> int \<Rightarrow> 'c \<Rightarrow> ustr \<Rightarrow> 'c" where
  "invalidate ops now c domain = c_delete ops c now (cache_key domain)"

section \<open>Matching is wildcard matching\<close>

primrec glob :: "ustr \<Rightarrow> ustr \<Rightarrow> bool" where
  "glob [] s \<longleftrightarrow> s = []"
| "glob (c # p) s \<longleftrightarrow>
     (if c = star then \<exists>t \<in> set (suffixes s). glob p t
      else case s of [] \<Rightarrow> False | x # t \<Rightarrow> x = c \<and> glob p t)"

lemma glob_star: "glob (star # p) s \<longleftrightarrow> (\<exists>g t. s = g @ t \<and> glob p t)"
  by (fastforce simp: suffix_def)

lemma glob_literal: "star \<notin> set w \<Longrightarrow> glob (w @ p) s \<longleftrightarrow> (\<exists>t. s = w @ t \<and> glob p t)"
  by (induction w arbitrary: s) (auto split: list.splits)

declare glob.simps(2) [simp del]

text \<open>Parts found one after the other, with \<open>Q\<close> of what is left.\<close>

primrec parts_then :: "(ustr \<Rightarrow> bool) \<Rightarrow> ustr list \<Rightarrow> ustr \<Rightarrow> bool" where
  "parts_then Q [] s \<longleftrightarrow> Q s"
| "parts_then Q (p # ps) s \<longleftrightarrow> (\<exists>g t. s = g @ p @ t \<and> parts_then Q ps t)"

lemma parts_then_longer:
  assumes "\<And>u t. Q t \<Longrightarrow> Q (u @ t)" and "parts_then Q ps t"
  shows "parts_then Q ps (u @ t)"
  using assms by (cases ps) (auto, metis append_assoc)

lemma find_sub_split:
  assumes "find_sub p s = Some i"
  shows "s = take i s @ p @ drop (i + length p) s"
  using assms by (auto simp: find_sub_Some_iff prefix_def) (metis append_take_drop_id append_eq_conv_conj drop_drop add.commute)

lemma find_sub_leftmost:
  assumes "s = g @ p @ t"
  obtains i where "find_sub p s = Some i" and "suffix t (drop (i + length p) s)"
proof -
  have "prefix p (drop (length g) s)" and "length g \<le> length s"
    using assms by simp_all
  then obtain i where i: "find_sub p s = Some i"
    using find_sub_None_iff [of p s] by blast
  then have "i \<le> length g"
    using \<open>prefix p (drop (length g) s)\<close> by (meson find_sub_Some_iff not_le_imp_less)
  then have "drop (i + length p) s = drop (i + length p) (g @ p) @ t"
    using assms by simp
  then have "suffix t (drop (i + length p) s)" by (simp add: suffix_def)
  with i show ?thesis by (rule that)
qed

lemma find_parts_iff:
  assumes longer: "\<And>u t. Q t \<Longrightarrow> Q (u @ t)" and "pos \<le> length path"
  shows "(\<exists>pos'. find_parts path pos ps = Some pos' \<and> pos' \<le> length path \<and> Q (drop pos' path))
    \<longleftrightarrow> parts_then Q ps (drop pos path)"
  using assms(2)
proof (induction ps arbitrary: pos)
  case Nil
  then show ?case by simp
next
  case (Cons p ps)
  let ?s = "drop pos path"
  show ?case
  proof (cases "find_sub p ?s")
    case None
    then have "\<not> (\<exists>g t. ?s = g @ p @ t)" by (metis find_sub_leftmost option.distinct(1))
    with None show ?thesis by simp
  next
    case (Some i)
    let ?pos = "pos + i + length p"
    have split: "?s = take i ?s @ p @ drop ?pos path"
      using find_sub_split [OF Some] by (simp add: add.assoc add.commute add.left_commute)
    have "i + length p \<le> length ?s"
      using Some by (auto simp: find_sub_Some_iff dest!: prefix_length_le)
    then have "?pos \<le> length path" using Cons.prems by simp
    then have IH: "(\<exists>pos'. find_parts path ?pos ps = Some pos' \<and> pos' \<le> length path \<and> Q (drop pos' path))
        \<longleftrightarrow> parts_then Q ps (drop ?pos path)"
      by (rule Cons.IH)
    have "parts_then Q ps (drop ?pos path)" if "?s = g @ p @ t" and t: "parts_then Q ps t" for g t
    proof -
      have "suffix t (drop ?pos path)"
        using find_sub_leftmost [OF that(1)] Some by (auto simp: add.assoc add.commute add.left_commute)
      then show ?thesis using parts_then_longer [OF longer t] by (auto simp: suffix_def)
    qed
    with split have "parts_then Q (p # ps) ?s \<longleftrightarrow> parts_then Q ps (drop ?pos path)"
      by auto
    with IH Some show ?thesis by simp
  qed
qed

lemma find_parts_bound: "find_parts path pos ps = Some pos' \<Longrightarrow> pos \<le> length path \<Longrightarrow> pos' \<le> length path"
proof (induction ps arbitrary: pos)
  case Nil
  then show ?case by simp
next
  case (Cons p ps)
  then obtain i where i: "find_sub p (drop pos path) = Some i"
    and rest: "find_parts path (pos + i + length p) ps = Some pos'"
    by (auto split: option.splits)
  have "pos + i + length p \<le> length path"
    using i Cons.prems(2) by (auto simp: find_sub_Some_iff dest!: prefix_length_le)
  with rest show ?case by (rule Cons.IH)
qed

lemma suffix_drop_iff:
  assumes "pos \<le> length s"
  shows "suffix l (drop pos s) \<longleftrightarrow> suffix l s \<and> pos + length l \<le> length s"
proof
  assume "suffix l (drop pos s)"
  then show "suffix l s \<and> pos + length l \<le> length s"
    using assms suffix_length_le [of l "drop pos s"] suffix_drop [of pos s] suffix_order.trans by fastforce
next
  assume "suffix l s \<and> pos + length l \<le> length s"
  then show "suffix l (drop pos s)" by (auto simp: suffix_def)
qed

lemma glob_open:
  assumes "list_all (\<lambda>w. star \<notin> set w) (p # ps)"
  shows "glob (join [star] (p # ps) @ [star]) s \<longleftrightarrow> (\<exists>t. s = p @ t \<and> parts_then (\<lambda>_. True) ps t)"
  using assms
proof (induction ps arbitrary: p s)
  case Nil
  then show ?case by (simp add: glob_literal glob_star)
next
  case (Cons q ps)
  then show ?case by (auto simp: join_Cons glob_literal glob_star)
qed

lemma glob_closed:
  assumes "list_all (\<lambda>w. star \<notin> set w) (p # ps)"
  shows "glob (join [star] (p # ps)) s \<longleftrightarrow>
    (\<exists>t. s = p @ t \<and> (if ps = [] then t = [] else parts_then (suffix (last ps)) (butlast ps) t))"
  using assms
proof (induction ps arbitrary: p s)
  case Nil
  then show ?case using glob_literal [of p "[]"] by simp
next
  case (Cons q ps)
  then show ?case
    by (cases "ps = []") (auto simp: join_Cons glob_literal glob_star suffix_def)
qed

lemma scan_open:
  "(\<exists>t. path = p @ t \<and> parts_then (\<lambda>_. True) ps t) \<longleftrightarrow>
     prefix p path \<and> find_parts path (length p) ps \<noteq> None"
  using find_parts_iff [of "\<lambda>_. True" "length p" path ps] find_parts_bound [of path "length p" ps]
  by (auto simp: prefix_def)

lemma scan_closed:
  "(\<exists>t. path = p @ t \<and> parts_then (suffix l) ps t) \<longleftrightarrow>
     prefix p path \<and> (case find_parts path (length p) ps of None \<Rightarrow> False
       | Some pos \<Rightarrow> suffix l path \<and> int pos \<le> int (length path) - int (length l))"
proof (cases "prefix p path")
  case True
  then obtain t where t: "path = p @ t" by (auto simp: prefix_def)
  have "parts_then (suffix l) ps t \<longleftrightarrow>
      (\<exists>pos. find_parts path (length p) ps = Some pos \<and> pos \<le> length path \<and> suffix l (drop pos path))"
    using find_parts_iff [of "suffix l" "length p" path ps] by (simp add: t suffix_appendI)
  also have "\<dots> \<longleftrightarrow> (\<exists>pos. find_parts path (length p) ps = Some pos \<and> suffix l path \<and> pos + length l \<le> length path)"
    using find_parts_bound [of path "length p" ps] prefix_length_le [OF True] by (auto simp: suffix_drop_iff)
  also have "\<dots> \<longleftrightarrow> (case find_parts path (length p) ps of None \<Rightarrow> False
       | Some pos \<Rightarrow> suffix l path \<and> int pos \<le> int (length path) - int (length l))"
    by (auto split: option.splits)
  finally show ?thesis using True by (simp add: t)
qed (auto simp: prefix_def)

text \<open>The language of a rule's pattern.\<close>

definition pattern_glob :: "ustr \<Rightarrow> ustr" where
  "pattern_glob pattern = pattern_body pattern @ (if ends_with_dollar pattern then [] else [star])"

text \<open>C32: The left-to-right scan of \<^verbatim>\<open>_Rule.matches\<close>, which never backtracks, decides
  exactly wildcard matching: a path matches a rule when the rule's normalised pattern, with
  \<^verbatim>\<open>*\<close> for any text and with anything allowed after a pattern without
  \<^verbatim>\<open>$\<close>, describes the path.\<close>

theorem rule_matches_glob: "rule_matches (mk_rule allow pattern) path \<longleftrightarrow> glob (pattern_glob pattern) path"
proof -
  obtain p ps where parts: "split_on star (pattern_body pattern) = p # ps"
    using split_on_nonempty by (meson neq_Nil_conv)
  have body: "pattern_body pattern = join [star] (p # ps)"
    using join_split_on [of star "pattern_body pattern"] parts by simp
  have "list_all (\<lambda>w. star \<notin> set w) (p # ps)"
    using split_on_no_sep [of _ star "pattern_body pattern"] parts by (auto simp: list_all_iff)
  then show ?thesis
    unfolding pattern_glob_def body
    by (cases "ps = []")
      (auto simp: rule_matches_def mk_rule_def parts glob_open glob_closed scan_open scan_closed prefix_def
        simp del: join.simps)
qed

section \<open>The longest match\<close>

definition best_ok :: "robots_rule list \<Rightarrow> robots_rule option \<Rightarrow> bool" where
  "best_ok cands best \<longleftrightarrow>
     (case best of None \<Rightarrow> cands = []
      | Some b \<Rightarrow> b \<in> set cands \<and> (\<forall>r \<in> set cands. length (r_pattern r) \<le> length (r_pattern b)
                    \<and> (length (r_pattern r) = length (r_pattern b) \<and> r_allow r \<longrightarrow> r_allow b)))"

lemma best_ok_step:
  assumes "best_ok cands best"
  shows "best_ok (cands @ [r]) (if better r best then Some r else best)"
  using assms by (cases best) (auto simp: best_ok_def better_def)

lemma best_ok_fold:
  assumes "best_ok cands best"
  shows "best_ok (cands @ filter (\<lambda>r. rule_matches r path) rules)
    (fold (\<lambda>rule best. if rule_matches rule path \<and> better rule best then Some rule else best) rules best)"
  using assms
proof (induction rules arbitrary: cands best)
  case Nil
  then show ?case by simp
next
  case (Cons r rules)
  show ?case
  proof (cases "rule_matches r path")
    case True
    show ?thesis
      using Cons.IH [OF best_ok_step [OF Cons.prems, of r]] True by simp
  next
    case False
    then show ?thesis using Cons.IH [OF Cons.prems] by simp
  qed
qed

lemma best_rule_ok: "best_ok (filter (\<lambda>r. rule_matches r path) rules) (best_rule path rules)"
  using best_ok_fold [of "[]" None path rules] by (simp add: best_rule_def best_ok_def)

definition candidates :: "text_env \<Rightarrow> ustr \<Rightarrow> ustr \<Rightarrow> ustr \<Rightarrow> robots_rule list" where
  "candidates te body token path = filter (\<lambda>r. rule_matches r path) (rules_for te body token)"

text \<open>C34: \<^verbatim>\<open>can_fetch\<close> lets a URL be fetched exactly when its path is
  \<^verbatim>\<open>/robots.txt\<close>, or no rule of the chosen groups matches, or some Allow rule matches
  whose pattern is at least as long as that of every matching rule: the longest match wins and a
  tie goes to Allow.\<close>

theorem can_fetch_longest_match:
  assumes "urlsplit te url = Some parts"
  shows "can_fetch te body url token =
    Inr (url_path parts = lit ''/robots.txt'' \<or> candidates te body token (url_path parts) = []
      \<or> list_ex (\<lambda>r. r_allow r \<and> list_all (\<lambda>r'. length (r_pattern r') \<le> length (r_pattern r))
          (candidates te body token (url_path parts))) (candidates te body token (url_path parts)))"
proof -
  have "best_ok (candidates te body token (url_path parts)) (best_rule (url_path parts) (rules_for te body token))"
    unfolding candidates_def by (rule best_rule_ok)
  then show ?thesis
    using assms(1) unfolding can_fetch_def
    by (cases "best_rule (url_path parts) (rules_for te body token)")
      (auto simp: best_ok_def list_ex_iff list_all_iff dual_order.antisym)
qed

definition robots_example :: ustr where
  "robots_example = lit ''User-agent: *'' @ [10] @ lit ''Disallow: /p'' @ [10] @ lit ''Allow: /p*g$'' @ [10]"

theorem can_fetch_longest_match_witness:
  "can_fetch te_ascii robots_example (lit ''https://a.b/pg'') (lit ''n'') = Inr True
   \<and> can_fetch te_ascii robots_example (lit ''https://a.b/ph'') (lit ''n'') = Inr False
   \<and> (\<exists>parts. urlsplit te_ascii (lit ''https://a.b/ph'') = Some parts \<and>
        candidates te_ascii robots_example (lit ''n'') (url_path parts) \<noteq> [])"
proof -
  have good: "can_fetch te_ascii robots_example (lit ''https://a.b/pg'') (lit ''n'') = Inr True"
    and bad: "can_fetch te_ascii robots_example (lit ''https://a.b/ph'') (lit ''n'') = Inr False"
    by code_simp+
  have "urlsplit te_ascii (lit ''https://a.b/ph'') \<noteq> None" by code_simp
  then obtain parts where parts: "urlsplit te_ascii (lit ''https://a.b/ph'') = Some parts" by blast
  show ?thesis
    using good bad parts can_fetch_longest_match [OF parts, of robots_example "lit ''n''"] by auto
qed

section \<open>Groups\<close>

datatype robots_line = AgentLine ustr | RuleLine bool ustr | OtherLine

definition classify :: "text_env \<Rightarrow> ustr \<Rightarrow> robots_line" where
  "classify te raw =
     (case key_value te raw of
        None \<Rightarrow> OtherLine
      | Some (key, value) \<Rightarrow>
          if key = lit ''user-agent'' then AgentLine (agent_token te value)
          else if key = lit ''allow'' then RuleLine True value
          else if key = lit ''disallow'' then RuleLine False value
          else OtherLine)"

text \<open>
  Every rule with the user agents of its group: a group is a run of user-agent lines followed by a
  run of rules.
\<close>

fun grouped :: "ustr list \<Rightarrow> bool \<Rightarrow> robots_line list \<Rightarrow> (ustr list \<times> bool \<times> ustr) list" where
  "grouped agents in_rules [] = []"
| "grouped agents in_rules (AgentLine a # ls) = grouped (a # (if in_rules then [] else agents)) False ls"
| "grouped agents in_rules (RuleLine allow v # ls) = (agents, allow, v) # grouped agents True ls"
| "grouped agents in_rules (OtherLine # ls) = grouped agents in_rules ls"

definition usable :: "ustr \<Rightarrow> bool" where
  "usable v \<longleftrightarrow> v \<noteq> [] \<and> length v \<le> MAX_PATTERN_CHARS"

definition rules_naming :: "ustr \<Rightarrow> (ustr list \<times> bool \<times> ustr) list \<Rightarrow> robots_rule list" where
  "rules_naming agent gs = map (\<lambda>(_, allow, v). mk_rule allow v) (filter (\<lambda>(agents, _, v). agent \<in> set agents \<and> usable v) gs)"

text \<open>The rules RFC 9309 assigns to a product token.\<close>

definition rules_spec :: "text_env \<Rightarrow> ustr \<Rightarrow> ustr \<Rightarrow> robots_rule list" where
  "rules_spec te body token =
     (let ls = map (classify te) (splitlines body); gs = grouped [] False ls
      in if AgentLine token \<in> set ls then rules_naming token gs else rules_naming (lit ''*'') gs)"

lemma parse_line_classify:
  "parse_line te token raw st =
     (case classify te raw of
        AgentLine a \<Rightarrow>
          (let st' = (if p_in_rules st then st\<lparr>p_for_own := False, p_for_star := False, p_in_rules := False\<rparr> else st)
           in if token \<noteq> [] \<and> a = token then st'\<lparr>p_for_own := True, p_named := True\<rparr>
              else if a = lit ''*'' then st'\<lparr>p_for_star := True\<rparr> else st')
      | RuleLine allow v \<Rightarrow> on_rule allow v st
      | OtherLine \<Rightarrow> st)"
  by (auto simp: parse_line_def classify_def on_agent_def Let_def split: option.splits)

definition tracks :: "ustr \<Rightarrow> ustr list \<Rightarrow> bool \<Rightarrow> parse_state \<Rightarrow> bool" where
  "tracks token agents in_rules st \<longleftrightarrow>
     p_for_own st = (token \<in> set agents) \<and> p_for_star st = (lit ''*'' \<in> set agents) \<and> p_in_rules st = in_rules"

abbreviation rule_lines :: "robots_line list \<Rightarrow> nat" where
  "rule_lines ls \<equiv> length (filter (\<lambda>l. case l of RuleLine _ _ \<Rightarrow> True | _ \<Rightarrow> False) ls)"

lemma on_rule_tracks:
  assumes "tracks token agents in_rules st" and "p_count st < MAX_RULES"
  shows "tracks token agents True (on_rule allow v st)"
    and "p_count (on_rule allow v st) \<le> Suc (p_count st)"
    and "p_named (on_rule allow v st) = p_named st"
    and "p_own (on_rule allow v st) = p_own st @ rules_naming token [(agents, allow, v)]"
    and "p_star (on_rule allow v st) = p_star st @ rules_naming (lit ''*'') [(agents, allow, v)]"
  using assms by (auto simp: on_rule_def tracks_def rules_naming_def usable_def Let_def)

lemma rules_naming_Cons: "rules_naming a (g # gs) = rules_naming a [g] @ rules_naming a gs"
  by (simp add: rules_naming_def split: prod.splits)

lemma parse_tracks:
  assumes "tracks token agents in_rules st" and "token \<noteq> []" and "token \<noteq> lit ''*''"
    and "p_count st + rule_lines (map (classify te) raws) \<le> MAX_RULES"
  shows "p_own (fold (parse_line te token) raws st) =
      p_own st @ rules_naming token (grouped agents in_rules (map (classify te) raws))"
    and "p_star (fold (parse_line te token) raws st) =
      p_star st @ rules_naming (lit ''*'') (grouped agents in_rules (map (classify te) raws))"
    and "p_named (fold (parse_line te token) raws st) \<longleftrightarrow> p_named st \<or> AgentLine token \<in> set (map (classify te) raws)"
proof -
  let ?st = "fold (parse_line te token) raws st" and ?gs = "grouped agents in_rules (map (classify te) raws)"
  have "p_own ?st = p_own st @ rules_naming token ?gs
    \<and> p_star ?st = p_star st @ rules_naming (lit ''*'') ?gs
    \<and> (p_named ?st \<longleftrightarrow> p_named st \<or> AgentLine token \<in> set (map (classify te) raws))"
    using assms
  proof (induction raws arbitrary: st agents in_rules)
    case Nil
    then show ?case by (simp add: rules_naming_def)
  next
    case (Cons raw raws)
    show ?case
    proof (cases "classify te raw")
      case (AgentLine a)
      have "tracks token (a # (if in_rules then [] else agents)) False (parse_line te token raw st)"
        and "p_count (parse_line te token raw st) = p_count st"
        and "p_own (parse_line te token raw st) = p_own st" and "p_star (parse_line te token raw st) = p_star st"
        and "p_named (parse_line te token raw st) \<longleftrightarrow> p_named st \<or> a = token"
        using Cons.prems(1-3) AgentLine by (auto simp: parse_line_classify tracks_def Let_def)
      with Cons.IH [of "a # (if in_rules then [] else agents)" False "parse_line te token raw st"] Cons.prems AgentLine
      show ?thesis by auto
    next
      case (RuleLine allow v)
      then have step: "parse_line te token raw st = on_rule allow v st" by (simp add: parse_line_classify)
      have "p_count st < MAX_RULES" using Cons.prems(4) RuleLine by simp
      note on = on_rule_tracks [OF Cons.prems(1) this, of allow v]
      have "p_count (on_rule allow v st) + rule_lines (map (classify te) raws) \<le> MAX_RULES"
        using on(2) Cons.prems(4) RuleLine by simp
      from Cons.IH [OF on(1) Cons.prems(2,3) this] show ?thesis
        using on(3,4,5) RuleLine rules_naming_Cons [of _ "(agents, allow, v)" "grouped agents True (map (classify te) raws)"]
        by (simp add: step)
    next
      case OtherLine
      with Cons.IH [OF Cons.prems(1-3)] Cons.prems(4) show ?thesis by (simp add: parse_line_classify)
    qed
  qed
  then show "p_own ?st = p_own st @ rules_naming token ?gs" and "p_star ?st = p_star st @ rules_naming (lit ''*'') ?gs"
    and "p_named ?st \<longleftrightarrow> p_named st \<or> AgentLine token \<in> set (map (classify te) raws)"
    by blast+
qed

text \<open>For a file with at most \<^verbatim>\<open>MAX_RULES\<close> rule lines, the one-pass parser
  \<^verbatim>\<open>_rules_for\<close>, which keeps two lists and a few flags, returns the rules RFC 9309 assigns:
  those of all groups whose user agents name the token when some user-agent line names it, and
  otherwise those of the groups for \<^verbatim>\<open>*\<close>, in file order, empty and oversized ones left out.\<close>

theorem rules_for_groups:
  assumes "token \<noteq> []" and "token \<noteq> lit ''*''"
    and "rule_lines (map (classify te) (splitlines body)) \<le> MAX_RULES"
  shows "rules_for te body token = rules_spec te body token"
proof -
  have init: "tracks token [] False parse_init" by (simp add: tracks_def parse_init_def)
  have "p_count parse_init + rule_lines (map (classify te) (splitlines body)) \<le> MAX_RULES"
    using assms(3) by (simp add: parse_init_def)
  note fin = parse_tracks [OF init assms(1,2) this]
  have start: "p_own parse_init = []" "p_star parse_init = []" "\<not> p_named parse_init"
    by (simp_all add: parse_init_def)
  show ?thesis
    by (simp only: rules_for_def rules_spec_def Let_def fin start append_Nil simp_thms)
qed

theorem rules_for_groups_witness:
  "rules_for te_ascii robots_example (lit ''newsforge'') = rules_spec te_ascii robots_example (lit ''newsforge'')"
proof -
  have "rule_lines (map (classify te_ascii) (splitlines robots_example)) = 2" by code_simp
  then have "rule_lines (map (classify te_ascii) (splitlines robots_example)) \<le> MAX_RULES"
    by (simp only: MAX_RULES_def)
  then show ?thesis by (intro rules_for_groups) simp_all
qed

lemma parse_line_count:
  assumes "length (p_own st) \<le> p_count st" and "length (p_star st) \<le> p_count st" and "p_count st \<le> MAX_RULES"
  shows "length (p_own (parse_line te token raw st)) \<le> p_count (parse_line te token raw st)
    \<and> length (p_star (parse_line te token raw st)) \<le> p_count (parse_line te token raw st)
    \<and> p_count (parse_line te token raw st) \<le> MAX_RULES"
  using assms by (auto simp: parse_line_def on_agent_def on_rule_def Let_def split: option.splits)

text \<open>However long a robots.txt is, at most \<^verbatim>\<open>MAX_RULES\<close> rules are kept for a crawler.\<close>

theorem rules_for_bound: "length (rules_for te body token) \<le> MAX_RULES"
proof -
  have "length (p_own (fold (parse_line te token) raws st)) \<le> MAX_RULES
      \<and> length (p_star (fold (parse_line te token) raws st)) \<le> MAX_RULES"
    if "length (p_own st) \<le> p_count st" "length (p_star st) \<le> p_count st" "p_count st \<le> MAX_RULES" for raws st
    using that
  proof (induction raws arbitrary: st)
    case (Cons raw raws)
    then show ?case using parse_line_count [OF Cons.prems, of te token raw] by simp
  qed auto
  from this [of parse_init "splitlines body"] show ?thesis
    by (simp add: rules_for_def Let_def parse_init_def)
qed

section \<open>Outcomes of fetching the file\<close>

definition robots_domain :: "text_env \<Rightarrow> split_result \<Rightarrow> ustr" where
  "robots_domain te parts = py_lower te (hostname te parts)"

text \<open>The request that \<^verbatim>\<open>_fetch_robots\<close> sends for a URL.\<close>

definition robots_reply :: "text_env \<Rightarrow> 'z zlib \<Rightarrow> net_env \<Rightarrow> int \<Rightarrow> ustr \<Rightarrow> bool \<Rightarrow> split_result
    \<Rightarrow> http_exn + http_response" where
  "robots_reply te z net now USER_AGENT ALLOW_PLAIN_HTTP parts =
     snd (request te z net (robots_config USER_AGENT ALLOW_PLAIN_HTTP) now (seconds 5) 5 (lit ''GET'')
       ((if sr_scheme parts = [] then lit ''https'' else sr_scheme parts) @ lit ''://''
         @ robots_domain te parts @ lit ''/robots.txt'') None)"

lemma is_allowed_miss:
  assumes "urlsplit te url = Some parts" and "hostname te parts \<noteq> []"
    and "c_get ops c now (cache_key (robots_domain te parts)) = None"
    and "robots_outcome (robots_reply te z net now ua http parts) = Inr (body, ttl)"
  shows "is_allowed te z net ops now ua http c url agent =
    (c_set ops c now (cache_key (robots_domain te parts)) body (seconds ttl),
     if body = [] then Inr True else can_fetch te body url (product_token te ua agent))"
  using assms
  by (simp add: is_allowed_def robots_body_def fetch_robots_def robots_reply_def robots_domain_def Let_def)

lemma is_allowed_hit:
  assumes "urlsplit te url = Some parts" and "hostname te parts \<noteq> []"
    and "c_get ops c now (cache_key (robots_domain te parts)) = Some body"
  shows "is_allowed te z net ops now ua http c url agent =
    (c, if body = [] then Inr True else can_fetch te body url (product_token te ua agent))"
  using assms by (simp add: is_allowed_def robots_body_def robots_domain_def Let_def)

lemma hd_normalize_path:
  assumes "path \<noteq> []" and "hd path = 47"
  shows "prefix (lit ''/'') (normalize_path path)"
proof -
  obtain rest where path: "path = 47 # rest" using assms by (cases path) auto
  have pct: "\<exists>t. pct_decode (47 # s) = 47 # t" for s
    by (cases "47 # s" rule: pct_decode.cases) auto
  have "\<exists>t. unquote path = 47 # t"
    using pct [of "takeWhile (\<lambda>x. x < 128) rest"] by (auto simp: path unquote_def)
  then show ?thesis
    by (auto simp: normalize_path_def quote_def utf8_def utf8_char_def SAFE_PATH_CHARS_def lit_def)
qed

lemma rules_for_DISALLOW_ALL: "rules_for te DISALLOW_ALL token = [mk_rule False (lit ''/'')]"
proof -
  have ls: "splitlines DISALLOW_ALL = [lit ''User-agent: *'', lit ''Disallow: /'']"
    by (simp add: splitlines_def DISALLOW_ALL_def lit_def is_line_break_def)
  have kv: "key_value te (lit ''User-agent: *'') = Some (lit ''user-agent'', lit ''*'')"
    "key_value te (lit ''Disallow: /'') = Some (lit ''disallow'', lit ''/'')"
    by (simp_all add: key_value_def partition_at_def strip_by_def lstrip_by_def rstrip_by_def is_space_def lit_def
        py_lower_def isascii_def ascii_lower_def is_upper_ascii_def)
  have tok: "agent_token te (lit ''*'') = lit ''*''"
    by (simp add: agent_token_def strip_by_def lstrip_by_def rstrip_by_def is_space_def lit_def)
  show ?thesis
    by (auto simp: rules_for_def ls parse_line_def kv on_agent_def on_rule_def tok parse_init_def Let_def
        MAX_PATTERN_CHARS_def MAX_RULES_def)
qed

lemma can_fetch_DISALLOW_ALL:
  assumes "urlsplit te url = Some parts" and "hostname te parts \<noteq> []"
  shows "can_fetch te DISALLOW_ALL url token = Inr (url_path parts = lit ''/robots.txt'')"
proof -
  have "pattern_body (lit ''/'') = lit ''/''"
    by (simp add: pattern_body_def ends_with_dollar_def normalize_path_def lit_def unquote_def quote_def utf8_def
        utf8_char_def SAFE_PATH_CHARS_def)
  then have parts: "r_parts (mk_rule False (lit ''/'')) = [lit ''/'']"
    by (simp add: mk_rule_def lit_def)
  have "sr_path parts = [] \<or> hd (sr_path parts) = 47"
    using netloc_head [OF assms(1)] hostname_netloc [OF assms(2)] by simp
  then have "prefix (lit ''/'') (url_path parts)"
    unfolding url_path_def by (intro hd_normalize_path) (auto simp: lit_def)
  then have "rule_matches (mk_rule False (lit ''/'')) (url_path parts)"
    by (simp add: rule_matches_def parts) (simp add: mk_rule_def ends_with_dollar_def lit_def)
  then show ?thesis
    using assms(1)
    by (simp add: can_fetch_def rules_for_DISALLOW_ALL best_rule_def better_def) (simp add: mk_rule_def)
qed

definition server_unreachable :: "http_exn + http_response \<Rightarrow> bool" where
  "server_unreachable reply =
     (case reply of
        Inl DeadlineExceededError \<Rightarrow> True
      | Inl (HttpxError _) \<Rightarrow> True
      | Inl _ \<Rightarrow> False
      | Inr resp \<Rightarrow> status_code resp \<ge> 500)"

lemma outcome_unreachable:
  assumes "server_unreachable reply"
  shows "robots_outcome reply = Inr (DISALLOW_ALL, RETRY_TTL_SECONDS)"
  using assms by (auto simp: server_unreachable_def robots_outcome_def split: sum.splits http_exn.splits)

text \<open>When a host's robots.txt cannot be had (a network error, a timeout, or a 5xx answer),
  every URL of the host except robots.txt itself is disallowed, and the verdict is cached for
  \<^verbatim>\<open>RETRY_TTL_SECONDS\<close> only.\<close>

theorem unreachable_disallows:
  assumes "urlsplit te url = Some parts" and "hostname te parts \<noteq> []"
    and "c_get ops c now (cache_key (robots_domain te parts)) = None"
    and "server_unreachable (robots_reply te z net now ua http parts)"
  shows "is_allowed te z net ops now ua http c url agent =
    (c_set ops c now (cache_key (robots_domain te parts)) DISALLOW_ALL (seconds RETRY_TTL_SECONDS),
     Inr (url_path parts = lit ''/robots.txt''))"
proof -
  have "DISALLOW_ALL \<noteq> []" by (simp add: DISALLOW_ALL_def)
  then show ?thesis
    by (simp add: is_allowed_miss [OF assms(1-3) outcome_unreachable [OF assms(4)]] can_fetch_DISALLOW_ALL [OF assms(1,2)])
qed

definition net_down :: net_env where
  "net_down = \<lparr>dns = (\<lambda>_ _ _. Some [lit ''93.184.216.34'']), clock = (\<lambda>_. 0),
               exchange = (\<lambda>_ _. Inl OtherHTTPError)\<rparr>"

definition blog_url :: ustr where
  "blog_url = lit ''https://a.b/ph''"

lemma blog_parts:
  obtains parts where "urlsplit te_ascii blog_url = Some parts" and "hostname te_ascii parts \<noteq> []"
    and "url_path parts \<noteq> lit ''/robots.txt''" and "server_unreachable (robots_reply te_ascii z net_down 0 ua False parts)"
proof -
  have "(case urlsplit te_ascii blog_url of None \<Rightarrow> False
      | Some parts \<Rightarrow> hostname te_ascii parts \<noteq> [] \<and> url_path parts \<noteq> lit ''/robots.txt'' \<and>
          (if sr_scheme parts = [] then lit ''https'' else sr_scheme parts) @ lit ''://''
            @ robots_domain te_ascii parts @ lit ''/robots.txt'' = lit ''https://a.b/robots.txt'')"
    by code_simp
  moreover have "(case resolve te_ascii (dns net_down 0) False (lit ''https://a.b/robots.txt'') of Inl _ \<Rightarrow> False | Inr _ \<Rightarrow> True)"
    by code_simp
  ultimately show ?thesis
    by (intro that [of "the (urlsplit te_ascii blog_url)"])
      (auto simp: robots_reply_def request_def request_loop.simps [of _ _ _ _ _ 5] prepare_hop_def robots_config_def
        net_down_def seconds_def server_unreachable_def simp del: append_assoc split: option.splits sum.splits)
qed

lemma empty_cache_miss: "c_get map_cache Map.empty t k = None"
  by (simp add: map_cache_def mc_get_def)

theorem unreachable_disallows_witness:
  "\<exists>k. is_allowed te_ascii zlib_copy net_down map_cache 0 (lit ''n/1'') False Map.empty blog_url None =
     (c_set map_cache Map.empty 0 k DISALLOW_ALL (seconds RETRY_TTL_SECONDS), Inr False)"
proof -
  obtain parts where parts: "urlsplit te_ascii blog_url = Some parts" "hostname te_ascii parts \<noteq> []"
    and path: "url_path parts \<noteq> lit ''/robots.txt''"
    and down: "server_unreachable (robots_reply te_ascii zlib_copy net_down 0 (lit ''n/1'') False parts)"
    by (rule blog_parts)
  show ?thesis
    using unreachable_disallows [OF parts empty_cache_miss down, of None] path by auto
qed

text \<open>Once a robots.txt has been fetched, the verdict on a URL of that host is repeated from
  the cache for at least \<^verbatim>\<open>RETRY_TTL_SECONDS\<close>, whatever the network would answer meanwhile, and
  after \<^verbatim>\<open>invalidate\<close> the next question fetches the file again.\<close>

theorem is_allowed_cached:
  assumes "cache_ok ops" and "urlsplit te url = Some parts" and "hostname te parts \<noteq> []"
    and "c_get ops c now (cache_key (robots_domain te parts)) = None"
    and "is_allowed te z net ops now ua http c url agent = (c', Inr verdict)"
    and "now \<le> later" and "later < now + seconds RETRY_TTL_SECONDS"
  shows "is_allowed te z net' ops later ua http c' url agent = (c', Inr verdict)
    \<and> c_get ops (invalidate ops later c' (robots_domain te parts)) later (cache_key (robots_domain te parts)) = None"
proof -
  obtain body ttl where out: "robots_outcome (robots_reply te z net now ua http parts) = Inr (body, ttl)"
    using assms(2-5)
    by (cases "robots_outcome (robots_reply te z net now ua http parts)")
      (auto simp: is_allowed_def robots_body_def fetch_robots_def robots_reply_def robots_domain_def Let_def)
  have "ttl = RETRY_TTL_SECONDS \<or> ttl = CACHE_TTL_SECONDS"
    using out by (auto simp: robots_outcome_def split: sum.splits http_exn.splits if_splits)
  then have "later < now + seconds ttl"
    using assms(7) by (auto simp: RETRY_TTL_SECONDS_def CACHE_TTL_SECONDS_def seconds_def)
  moreover have c': "c' = c_set ops c now (cache_key (robots_domain te parts)) body (seconds ttl)"
    and v: "(if body = [] then Inr True else can_fetch te body url (product_token te ua agent)) = Inr verdict"
    using is_allowed_miss [OF assms(2-4) out, of agent] assms(5) by simp_all
  ultimately have "c_get ops c' later (cache_key (robots_domain te parts)) = Some body"
    by (simp add: cache_okD(1) [OF assms(1) assms(6)])
  from is_allowed_hit [OF assms(2,3) this, of z net' ua http agent] v show ?thesis
    by (simp add: invalidate_def cache_okD(3) [OF assms(1)])
qed

theorem is_allowed_cached_witness:
  "\<exists>c' verdict. is_allowed te_ascii zlib_copy net_down map_cache 0 (lit ''n/1'') False Map.empty blog_url None = (c', Inr verdict)
     \<and> is_allowed te_ascii zlib_copy (net_down\<lparr>dns := \<lambda>_ _ _. None\<rparr>) map_cache (seconds 60) (lit ''n/1'') False c'
         blog_url None = (c', Inr verdict)"
proof -
  obtain parts where parts: "urlsplit te_ascii blog_url = Some parts" "hostname te_ascii parts \<noteq> []"
    and down: "server_unreachable (robots_reply te_ascii zlib_copy net_down 0 (lit ''n/1'') False parts)"
    by (rule blog_parts)
  obtain c' verdict where run: "is_allowed te_ascii zlib_copy net_down map_cache 0 (lit ''n/1'') False Map.empty
      blog_url None = (c', Inr verdict)"
    using is_allowed_miss [OF parts empty_cache_miss outcome_unreachable [OF down], of None]
      can_fetch_DISALLOW_ALL [OF parts] by (auto split: if_splits)
  show ?thesis
    using run is_allowed_cached [OF map_cache_ok parts empty_cache_miss run, of "seconds 60"]
    by (auto simp: RETRY_TTL_SECONDS_def seconds_def)
qed

text \<open>A percent-encoded star in a pattern is decoded before the pattern is split, and then acts as a wildcard.\<close>

lemma encoded_star_is_wildcard: "rule_matches (mk_rule True (lit ''/a%2Ab'')) (lit ''/axb'')"
  by code_simp

end
