(* ===== verification/Url_Text.thy ===== *)
theory Url_Text
  imports Py_Url
begin

text \<open>
  Which characters the pieces of a URL are made of: splitting, decoding and encoding bring no
  character in from outside, and percent-coded text never contains a NUL.
\<close>

section \<open>Pieces of a URL\<close>

lemma set_partition_at: "set (before c s) \<subseteq> set s" "set (after c s) \<subseteq> set s"
  by (auto simp: partition_at_def dest: set_takeWhileD set_dropWhileD in_set_dropD)

lemma set_rpartition_at: "set (fst (rpartition_at c s)) \<subseteq> set s" "set (snd (snd (rpartition_at c s))) \<subseteq> set s"
  by (fastforce simp: rpartition_at_def dest: set_takeWhileD set_dropWhileD in_set_dropD)+

lemma set_split_on: "w \<in> set (split_on c s) \<Longrightarrow> set w \<subseteq> set s"
  by (induction s arbitrary: w) (fastforce split: list.splits if_splits)+

lemma set_words_by: "w \<in> set (words_by p acc s) \<Longrightarrow> set w \<subseteq> set acc \<union> set s"
  by (induction s arbitrary: acc) (fastforce split: if_splits)+

lemma set_split_ws: "w \<in> set (split_ws s) \<Longrightarrow> set w \<subseteq> set s"
  unfolding split_ws_def using set_words_by [of w is_space "[]" s] by simp

lemma join_not_in: "c \<notin> set sep \<Longrightarrow> \<forall>w \<in> set ws. c \<notin> set w \<Longrightarrow> c \<notin> set (join sep ws)"
  by (induction sep ws rule: join.induct) auto

lemma split_scheme_rest: "set (snd (split_scheme te dflt url)) \<subseteq> set url"
  using set_partition_at(2) [of "of_char CHR '':''" url] by (auto simp: split_scheme_def split: prod.splits)

lemma urlsplit_chars:
  assumes "urlsplit te url = Some parsed"
  shows "set (sr_netloc parsed) \<subseteq> set url" and "set (sr_path parsed) \<subseteq> set url" and "set (sr_query parsed) \<subseteq> set url"
proof -
  define url1 where "url1 = filter (\<lambda>c. c \<notin> {9, 10, 13}) (lstrip_by is_c0_or_space url)"
  define url2 where "url2 = snd (split_scheme te [] url1)"
  define url3 where "url3 = (if prefix (lit ''//'') url2 then dropWhile (\<lambda>c. \<not> is_netloc_end c) (drop 2 url2) else url2)"
  have "set url1 \<subseteq> set url" by (auto simp: url1_def lstrip_by_def dest: set_dropWhileD)
  then have url2: "set url2 \<subseteq> set url" using split_scheme_rest [of te "[]" url1] by (auto simp: url2_def)
  then have url3: "set url3 \<subseteq> set url" by (auto simp: url3_def dest: set_dropWhileD in_set_dropD)
  have netloc: "set (takeWhile p (drop 2 url2)) \<subseteq> set url" for p
    using url2 by (auto dest: set_takeWhileD in_set_dropD)
  have parts: "sr_netloc parsed = (if prefix (lit ''//'') url2 then takeWhile (\<lambda>c. \<not> is_netloc_end c) (drop 2 url2) else [])"
    "sr_path parsed = before (of_char CHR ''?'') (before (of_char CHR ''#'') url3)"
    "sr_query parsed = after (of_char CHR ''?'') (before (of_char CHR ''#'') url3)"
    using assms unfolding urlsplit_def urlsplit_with_def Let_def url1_def url2_def url3_def
    by (auto split: prod.splits if_splits)
  show "set (sr_netloc parsed) \<subseteq> set url" using netloc unfolding parts(1) by (simp only: split: if_split) simp
  show "set (sr_path parsed) \<subseteq> set url" "set (sr_query parsed) \<subseteq> set url"
    unfolding parts(2,3) using set_partition_at url3 by (meson order_trans)+
qed

lemma urlparse_path_chars: "set (fst (urlparse_params parsed)) \<subseteq> set (sr_path parsed)"
proof -
  let ?r = "rpartition_at (of_char CHR ''/'') (sr_path parsed)"
  have "set (fst ?r) \<subseteq> set (sr_path parsed)"
    "set (before (of_char CHR '';'') (snd (snd ?r))) \<subseteq> set (sr_path parsed)"
    using set_rpartition_at set_partition_at(1) by (meson order_trans)+
  moreover have "set (lit ''/'') \<subseteq> set (sr_path parsed)" if "fst (snd ?r)"
    using that by (simp add: rpartition_at_def lit_def)
  ultimately show ?thesis
    by (auto simp: urlparse_params_def splitparams_def split: prod.splits)
qed

lemma hostinfo_chars: "set (fst (hostinfo netloc)) \<subseteq> set netloc"
proof -
  let ?hi = "snd (snd (rpartition_at (of_char CHR ''@'') netloc))"
  have "set (before d (after b ?hi)) \<subseteq> set netloc" "set (before d ?hi) \<subseteq> set netloc" for b d
    using set_partition_at set_rpartition_at(2) by (meson order_trans)+
  moreover have "fst (hostinfo netloc) \<in> {before (of_char CHR '']'') (after (of_char CHR ''['') ?hi), before (of_char CHR '':'') ?hi}"
    by (auto simp: hostinfo_def Let_def split: prod.split bool.split)
  ultimately show ?thesis by (metis insertE singletonD)
qed

text \<open>Documented behaviour of \<^verbatim>\<open>str.lower\<close>: no other character is lowered to NUL.\<close>

definition lower_ok :: "text_env \<Rightarrow> bool" where
  "lower_ok te \<longleftrightarrow> (\<forall>s. 0 \<notin> set s \<longrightarrow> 0 \<notin> set (str_lower te s))"

lemma py_lower_no_nul: "lower_ok te \<Longrightarrow> 0 \<notin> set s \<Longrightarrow> 0 \<notin> set (py_lower te s)"
proof (cases "isascii s")
  case True
  have "ascii_lower c \<noteq> 0" if "c \<noteq> 0" for c using that by (simp add: ascii_lower_def is_upper_ascii_def)
  then show "0 \<notin> set s \<Longrightarrow> ?thesis" using True by (auto simp: py_lower_def) metis
qed (simp add: py_lower_def lower_ok_def)

lemma hostname_no_nul:
  assumes "lower_ok te" and "0 \<notin> set (sr_netloc parsed)"
  shows "0 \<notin> set (hostname te parsed)"
proof -
  let ?h = "fst (hostinfo (sr_netloc parsed))" and ?pct = "of_char CHR ''%'' :: int"
  have "0 \<notin> set ?h" using assms(2) hostinfo_chars by blast
  then have parts: "0 \<notin> set (before ?pct ?h)" "0 \<notin> set (after ?pct ?h)" using set_partition_at [of ?pct ?h] by blast+
  have "hostname te parsed = py_lower te (before ?pct ?h) @ (if ?pct \<in> set ?h then [?pct] else []) @ after ?pct ?h"
    by (simp add: hostname_def partition_at_def)
  then show ?thesis using py_lower_no_nul [OF assms(1) parts(1)] parts(2) by simp
qed

section \<open>Percent-coding\<close>

text \<open>A Python string is a sequence of code points, none of them negative.\<close>

definition codepoints :: "ustr \<Rightarrow> bool" where
  "codepoints s \<longleftrightarrow> list_all (\<lambda>c. 0 \<le> c) s"

lemma codepoints_simps [simp]:
  "codepoints []" "codepoints (c # s) \<longleftrightarrow> 0 \<le> c \<and> codepoints s" "codepoints (s @ t) \<longleftrightarrow> codepoints s \<and> codepoints t"
  by (simp_all add: codepoints_def)

lemma codepoints_subset: "codepoints s \<Longrightarrow> set t \<subseteq> set s \<Longrightarrow> codepoints t"
  by (auto simp: codepoints_def list_all_iff)

lemma hex_pair_nonneg: "is_hex_digit a \<Longrightarrow> is_hex_digit b \<Longrightarrow> 0 \<le> digits_value 16 [a, b]"
  by (auto simp: digits_value_def is_hex_digit_def is_digit_ascii_def)

lemma pct_decode_codepoints: "codepoints s \<Longrightarrow> codepoints (pct_decode s)"
  by (induction s rule: pct_decode.induct) (auto simp: hex_pair_nonneg)

lemma foldl_bytes_nonneg:
  "0 \<le> a \<Longrightarrow> list_all (\<lambda>c. 0x80 \<le> c) cs \<Longrightarrow> 0 \<le> foldl (\<lambda>a c. a * 64 + (c - 0x80)) (a :: int) cs"
  by (induction cs arbitrary: a) auto

lemma utf8_value_nonneg:
  assumes "utf8_lead b = Some (n, lo, hi)" and "length (utf8_conts (n, lo, hi) bs) = n"
  shows "0 \<le> utf8_value b (utf8_conts (n, lo, hi) bs)"
proof -
  have "0 \<le> (if n = 1 then b - 0xC0 else if n = 2 then b - 0xE0 else b - 0xF0)" "0x80 \<le> lo"
    using assms(1) by (auto simp: utf8_lead_def split: if_splits)
  moreover from this(2) have "list_all (\<lambda>c. 0x80 \<le> c) (utf8_conts (n, lo, hi) bs)"
    by (auto simp: utf8_conts_def list_all_iff is_cont_def split: list.splits dest: set_takeWhileD)
  ultimately show ?thesis unfolding utf8_value_def assms(2) using foldl_bytes_nonneg by blast
qed

lemma utf8_decode_codepoints: "codepoints bs \<Longrightarrow> codepoints (utf8_decode bs)"
proof (induction bs rule: utf8_decode.induct)
  case (2 b bs)
  have "codepoints (drop k bs)" for k using 2(4) by (auto intro: codepoints_subset [of bs] dest: in_set_dropD)
  with 2 show ?case by (auto simp: Let_def utf8_value_nonneg split: option.splits)
qed simp

lemma unquote_codepoints: "codepoints s \<Longrightarrow> codepoints (unquote s)"
proof -
  have "codepoints s \<Longrightarrow> codepoints (unquote_runs s)"
  proof (induction s rule: unquote_runs.induct)
    case (2 c s)
    show ?case
    proof (cases "c < 128")
      case True
      have run: "codepoints (takeWhile (\<lambda>x. x < 128) (c # s))" and rest: "codepoints (dropWhile (\<lambda>x. x < 128) (c # s))"
        by (rule codepoints_subset [OF 2(3)], meson set_takeWhileD set_dropWhileD subsetI)+
      show ?thesis
        unfolding unquote_runs.simps if_P [OF True] codepoints_simps
        using utf8_decode_codepoints [OF pct_decode_codepoints [OF run]] 2(1) [OF True rest] by (rule conjI)
    next
      case False
      with 2(2) [OF False] 2(3) show ?thesis by (simp add: unquote_runs.simps(2))
    qed
  qed simp
  then show "codepoints s \<Longrightarrow> codepoints (unquote s)" by (simp add: unquote_def)
qed

lemma parse_qsl_codepoints:
  assumes "codepoints q" and "(k, v) \<in> set (parse_qsl q)"
  shows "codepoints k \<and> codepoints v"
proof -
  have plus: "codepoints s \<Longrightarrow> codepoints (plus_to_space s)" for s
    by (auto simp: plus_to_space_def codepoints_def list_all_iff)
  obtain f where f: "f \<in> set (split_on (of_char CHR ''&'') q)" "parse_field f = Some (k, v)"
    using assms(2) by (auto simp: parse_qsl_def map_filter_def)
  have "codepoints (before c f)" "codepoints (after c f)" for c
    using assms(1) set_split_on [OF f(1)] set_partition_at [of c f] codepoints_subset [of q] by (meson order_trans)+
  with f(2) plus unquote_codepoints show ?thesis
    by (auto simp: parse_field_def split_beta split: if_splits)
qed

lemma utf8_codepoints: "codepoints s \<Longrightarrow> codepoints (utf8 s)"
proof (induction s)
  case (Cons c s)
  then show ?case by (auto simp: utf8_def utf8_char_def)
qed (simp add: utf8_def)

lemma quote_plus_no_nul: "codepoints s \<Longrightarrow> 0 \<notin> set (quote_plus s)"
proof -
  assume "codepoints s"
  then have "0 \<le> b" if "b \<in> set (utf8 s)" for b
    using utf8_codepoints [of s] that by (simp add: codepoints_def list_all_iff)
  moreover have "hex_upper d \<noteq> 0" if "0 \<le> d" for d using that by (auto simp: hex_upper_def)
  ultimately have "0 \<notin> set (if is_always_safe b \<or> b \<in> set (lit '' '') then [b]
      else [37, hex_upper (b div 16), hex_upper (b mod 16)])" if "b \<in> set (utf8 s)" for b
    using that pos_imp_zdiv_nonneg_iff [of 16 b]
    by (auto simp: is_always_safe_def is_alpha_ascii_def is_digit_ascii_def is_lower_ascii_def
        is_upper_ascii_def lit_def)
  then have "0 \<notin> set (quote (lit '' '') s)" unfolding quote_def by (auto simp only: set_concat set_map)
  then show ?thesis by (auto simp: quote_plus_def split: if_splits)
qed

lemma urlencode_no_nul:
  assumes "\<forall>(k, v) \<in> set kvs. codepoints k \<and> codepoints v"
  shows "0 \<notin> set (urlencode kvs)"
  unfolding urlencode_def
proof (rule join_not_in)
  show "\<forall>w \<in> set (map (\<lambda>(k, v). quote_plus k @ lit ''='' @ quote_plus v) kvs). 0 \<notin> set w"
    using assms quote_plus_no_nul by (fastforce simp: lit_def)
qed (simp add: lit_def)

end
