(* ===== verification/Normalizer.thy ===== *)
theory Normalizer
  imports Url_Text "HOL-Library.List_Lexorder" "HOL-Library.Product_Lexorder" "HOL-Library.Multiset"
begin

text \<open>
  Normalisation of feed entries: \<^verbatim>\<open>src/apps/articles/normalizer.py\<close>.

  Parameters of the definitions (\<open>html_env\<close>): \<^verbatim>\<open>bleach.clean\<close>,
  \<^verbatim>\<open>langdetect.detect\<close>, \<^verbatim>\<open>sha256(...).hexdigest()\<close> and the entity table behind
  \<^verbatim>\<open>html.unescape\<close>.
\<close>

section \<open>Text and links\<close>

record html_env =
  bleach_clean :: "ustr list \<Rightarrow> (ustr \<times> ustr list) list option \<Rightarrow> ustr \<Rightarrow> ustr"
  html_unescape :: "ustr \<Rightarrow> ustr"
  detect :: "ustr \<Rightarrow> ustr option" \<comment> \<open>\<open>None\<close>: LangDetectException\<close>
  sha256_hex :: "int list \<Rightarrow> ustr"

definition ALLOWED_TAGS :: "ustr list" where
  "ALLOWED_TAGS = map lit
     [''a'', ''p'', ''br'', ''strong'', ''em'', ''b'', ''i'', ''u'', ''ul'', ''ol'', ''li'', ''blockquote'', ''code'',
      ''pre'', ''h1'', ''h2'', ''h3'', ''h4'', ''h5'', ''h6'', ''img'', ''figure'', ''figcaption'', ''hr'', ''table'',
      ''thead'', ''tbody'', ''tr'', ''th'', ''td'']"

definition ALLOWED_ATTRIBUTES :: "(ustr \<times> ustr list) list" where
  "ALLOWED_ATTRIBUTES =
     [(lit ''a'', map lit [''href'', ''title'', ''rel'']), (lit ''img'', map lit [''src'', ''alt'', ''title''])]"

definition TRACKING_PREFIXES :: "ustr list" where
  "TRACKING_PREFIXES = [lit ''utm_'']"

definition TRACKING_PARAMS :: "ustr list" where
  "TRACKING_PARAMS = map lit [''fbclid'', ''gclid'', ''yclid'', ''mc_cid'', ''mc_eid'', ''ref'']"

definition SUPPORTED_LANGS :: "(ustr \<times> ustr) list" where
  "SUPPORTED_LANGS = [(lit ''ru'', lit ''russian''), (lit ''en'', lit ''english'')]"

definition MAX_URL_CHARS :: int where "MAX_URL_CHARS = 2048"
definition MAX_TITLE_CHARS :: int where "MAX_TITLE_CHARS = 1000"
definition MAX_AUTHOR_CHARS :: int where "MAX_AUTHOR_CHARS = 255"
definition MAX_HTML_CHARS :: int where "MAX_HTML_CHARS = 200000"
definition MAX_GUID_CHARS :: int where "MAX_GUID_CHARS = 512"

datatype entry_error =
    InvalidEntryError string \<comment> \<open>the kind of the message\<close>
  | EntryValueError \<comment> \<open>a plain \<^verbatim>\<open>ValueError\<close> of \<^verbatim>\<open>urlparse\<close>\<close>

definition no_nul :: "ustr option \<Rightarrow> ustr" where
  "no_nul value = filter (\<lambda>c. c \<noteq> 0) (case value of None \<Rightarrow> [] | Some v \<Rightarrow> v)"

definition plain_text :: "html_env \<Rightarrow> ustr \<Rightarrow> int \<Rightarrow> ustr" where
  "plain_text he value max_chars =
     slice_to max_chars (join (lit '' '') (split_ws (html_unescape he (bleach_clean he [] None value))))"

definition check_link :: "text_env \<Rightarrow> ustr \<Rightarrow> entry_error + ustr" where
  "check_link te url0 =
     (let url = strip (no_nul (Some url0)) in
      case urlsplit te url of
        None \<Rightarrow> Inl EntryValueError
      | Some parsed \<Rightarrow>
          if py_lower te (sr_scheme parsed) \<notin> {lit ''http'', lit ''https''} \<or> hostname te parsed = []
          then Inl (InvalidEntryError ''not an http(s) link'')
          else if port_of parsed = None then Inl (InvalidEntryError ''bad port in link'')
          else if int (length url) > MAX_URL_CHARS then Inl (InvalidEntryError ''link too long'')
          else Inr url)"

definition is_tracking :: "text_env \<Rightarrow> ustr \<Rightarrow> bool" where
  "is_tracking te k \<longleftrightarrow>
     py_lower te k \<in> set TRACKING_PARAMS \<or> list_ex (\<lambda>p. prefix p (py_lower te k)) TRACKING_PREFIXES"

definition cleaned_query :: "text_env \<Rightarrow> ustr \<Rightarrow> (ustr \<times> ustr) list" where
  "cleaned_query te query = sort (filter (\<lambda>(k, v). \<not> is_tracking te k) (parse_qsl query))"

definition canonical_netloc :: "text_env \<Rightarrow> split_result \<Rightarrow> int option \<Rightarrow> ustr" where
  "canonical_netloc te parsed port =
     (let host = py_lower te (hostname te parsed)
      in case port of
           None \<Rightarrow> host
         | Some p \<Rightarrow>
             if p \<noteq> 0 \<and> \<not> (sr_scheme parsed = lit ''http'' \<and> p = 80 \<or> sr_scheme parsed = lit ''https'' \<and> p = 443)
             then host @ lit '':'' @ nat_str (nat p) else host)"

definition canonicalize_url :: "text_env \<Rightarrow> ustr \<Rightarrow> entry_error + ustr" where
  "canonicalize_url te url =
     ebind (of_option EntryValueError (urlsplit te url)) (\<lambda>parsed.
     ebind (of_option EntryValueError (port_of parsed)) (\<lambda>port.
       Inr (urlunparse (py_lower te (sr_scheme parsed)) (canonical_netloc te parsed port)
              (if fst (urlparse_params parsed) = [] then lit ''/'' else fst (urlparse_params parsed)) []
              (urlencode (cleaned_query te (sr_query parsed))) [])))"

definition sanitize_html :: "html_env \<Rightarrow> ustr option \<Rightarrow> ustr" where
  "sanitize_html he html = bleach_clean he ALLOWED_TAGS (Some ALLOWED_ATTRIBUTES) (slice_to MAX_HTML_CHARS (no_nul html))"

definition detect_language :: "html_env \<Rightarrow> ustr \<Rightarrow> ustr" where
  "detect_language he text =
     (let snippet = strip text
      in if length snippet < 20 then lit ''simple''
         else (case detect he (slice_to 4096 snippet) of
            None \<Rightarrow> lit ''simple''
          | Some code \<Rightarrow> (case map_of SUPPORTED_LANGS code of None \<Rightarrow> lit ''simple'' | Some l \<Rightarrow> l)))"

definition content_hash :: "html_env \<Rightarrow> ustr \<Rightarrow> ustr \<Rightarrow> ustr \<Rightarrow> ustr" where
  "content_hash he canonical_url title body = sha256_hex he (utf8 (canonical_url @ [10] @ strip title @ [10] @ strip body))"

definition normalize_guid :: "html_env \<Rightarrow> ustr option \<Rightarrow> ustr" where
  "normalize_guid he guid0 =
     (let guid = strip (no_nul guid0)
      in if int (length guid) > MAX_GUID_CHARS then lit ''sha256:'' @ sha256_hex he (utf8 guid) else guid)"

section \<open>Entries\<close>

text \<open>A \<^verbatim>\<open>datetime\<close>: a naive one is a wall-clock reading, counted as if in UTC.\<close>

datatype py_datetime = Naive int | Aware int

record normalized_entry =
  ne_canonical_url :: ustr
  ne_url :: ustr
  ne_title :: ustr
  ne_summary :: ustr
  ne_body :: ustr
  ne_author :: "ustr option"
  ne_language :: ustr
  ne_content_hash :: ustr
  ne_guid :: ustr
  ne_published_at :: "int option"

record raw_entry =
  re_url :: ustr
  re_title :: ustr
  re_summary :: ustr
  re_body :: ustr
  re_guid :: ustr
  re_author :: "ustr option"
  re_published_at :: "py_datetime option"

definition clamp_published :: "int \<Rightarrow> py_datetime \<Rightarrow> int" where
  "clamp_published now dt = min (case dt of Naive t \<Rightarrow> t | Aware t \<Rightarrow> t) now"

definition entry_language :: "html_env \<Rightarrow> ustr \<Rightarrow> ustr \<Rightarrow> ustr \<Rightarrow> ustr \<Rightarrow> ustr" where
  "entry_language he clean_title clean_summary clean_body fallback =
     (let lang = detect_language he (join (lit '' '')
            [clean_title, plain_text he clean_summary MAX_HTML_CHARS, plain_text he clean_body MAX_HTML_CHARS])
      in if lang = lit ''simple'' \<and> fallback \<in> snd ` set SUPPORTED_LANGS then fallback else lang)"

definition normalize_entry :: "text_env \<Rightarrow> html_env \<Rightarrow> int \<Rightarrow> raw_entry \<Rightarrow> ustr \<Rightarrow> entry_error + normalized_entry" where
  "normalize_entry te he now re fallback_language =
     ebind (check_link te (re_url re)) (\<lambda>url.
     ebind (canonicalize_url te url) (\<lambda>canonical.
       let clean_title = plain_text he (no_nul (Some (re_title re))) MAX_TITLE_CHARS;
           clean_summary = sanitize_html he (Some (re_summary re));
           clean_body = sanitize_html he (Some (re_body re));
           author = plain_text he (no_nul (re_author re)) MAX_AUTHOR_CHARS
       in Inr \<lparr>ne_canonical_url = canonical, ne_url = url, ne_title = clean_title, ne_summary = clean_summary,
               ne_body = clean_body, ne_author = (if author = [] then None else Some author),
               ne_language = entry_language he clean_title clean_summary clean_body fallback_language,
               ne_content_hash = content_hash he canonical clean_title
                 (if clean_body \<noteq> [] then clean_body else clean_summary),
               ne_guid = normalize_guid he (Some (re_guid re)),
               ne_published_at = map_option (clamp_published now) (re_published_at re)\<rparr>))"

section \<open>What a normalised entry guarantees\<close>

text \<open>Documented behaviour of the digest parameter: a digest has 64 hexadecimal characters.\<close>

definition digest_ok :: "html_env \<Rightarrow> bool" where
  "digest_ok he \<longleftrightarrow> (\<forall>bs. length (sha256_hex he bs) = 64 \<and> 0 \<notin> set (sha256_hex he bs))"

text \<open>Documented behaviour of the sanitiser and of \<^verbatim>\<open>html.unescape\<close>: neither makes a NUL out of text
  that has none (\<^verbatim>\<open>html.unescape\<close> reads \<^verbatim>\<open>&#0;\<close> as U+FFFD; bleach leaves entities as they are).\<close>

definition markup_ok :: "html_env \<Rightarrow> bool" where
  "markup_ok he \<longleftrightarrow> (\<forall>s. 0 \<notin> set s \<longrightarrow>
     0 \<notin> set (html_unescape he s) \<and> (\<forall>tags attributes. 0 \<notin> set (bleach_clean he tags attributes s)))"

definition text_columns :: "normalized_entry \<Rightarrow> ustr list" where
  "text_columns e = [ne_canonical_url e, ne_url e, ne_title e, ne_summary e, ne_body e, ne_language e,
     ne_content_hash e, ne_guid e] @ (case ne_author e of None \<Rightarrow> [] | Some a \<Rightarrow> [a])"

definition entry_ok :: "int \<Rightarrow> normalized_entry \<Rightarrow> bool" where
  "entry_ok now e \<longleftrightarrow>
     list_all (\<lambda>column. 0 \<notin> set column) (text_columns e)
     \<and> int (length (ne_url e)) \<le> MAX_URL_CHARS
     \<and> int (length (ne_title e)) \<le> MAX_TITLE_CHARS
     \<and> (case ne_author e of None \<Rightarrow> True | Some a \<Rightarrow> a \<noteq> [] \<and> int (length a) \<le> MAX_AUTHOR_CHARS)
     \<and> ne_language e \<in> {lit ''simple'', lit ''russian'', lit ''english''}
     \<and> length (ne_content_hash e) = 64
     \<and> int (length (ne_guid e)) \<le> MAX_GUID_CHARS
     \<and> (case ne_published_at e of None \<Rightarrow> True | Some t \<Rightarrow> t \<le> now)"

lemma length_plain_text: "0 \<le> n \<Longrightarrow> int (length (plain_text he v n)) \<le> n"
  unfolding plain_text_def by (rule length_slice_to)

lemma no_nul_nul [simp]: "0 \<notin> set (no_nul v)"
  by (simp add: no_nul_def)

lemma strip_no_nul: "0 \<notin> set (strip (no_nul v))"
  using set_strip_by [of is_space "no_nul v"] no_nul_nul by blast

lemma check_link_Inr:
  assumes "check_link te url0 = Inr url"
  shows "url = strip (no_nul (Some url0))" and "int (length url) \<le> MAX_URL_CHARS"
    and "\<exists>parsed port. urlsplit te url = Some parsed \<and> port_of parsed = Some port
      \<and> py_lower te (sr_scheme parsed) \<in> {lit ''http'', lit ''https''} \<and> hostname te parsed \<noteq> []"
  using assms by (auto simp: check_link_def Let_def split: option.splits if_splits)

lemma check_link_canonical:
  assumes "check_link te url0 = Inr url"
  shows "\<exists>c. canonicalize_url te url = Inr c"
  using check_link_Inr(3) [OF assms] by (auto simp: canonicalize_url_def)

lemma normalize_guid_ok:
  assumes "digest_ok he"
  shows "int (length (normalize_guid he g)) \<le> MAX_GUID_CHARS" and "0 \<notin> set (normalize_guid he g)"
  using assms strip_no_nul [of g]
  by (auto simp: normalize_guid_def digest_ok_def MAX_GUID_CHARS_def Let_def lit_def)

lemma content_hash_length: "digest_ok he \<Longrightarrow> length (content_hash he c t b) = 64"
  by (simp add: content_hash_def digest_ok_def)

lemma detect_language_supported: "detect_language he text \<in> {lit ''simple'', lit ''russian'', lit ''english''}"
  by (auto simp: detect_language_def SUPPORTED_LANGS_def Let_def split: option.splits)

lemma entry_language_supported: "entry_language he t s b f \<in> {lit ''simple'', lit ''russian'', lit ''english''}"
  using detect_language_supported unfolding entry_language_def Let_def
  by (auto simp: SUPPORTED_LANGS_def)

lemma markup_okD:
  assumes "markup_ok he" and "0 \<notin> set s"
  shows "0 \<notin> set (html_unescape he s)" and "0 \<notin> set (bleach_clean he tags attributes s)"
  using assms by (simp_all add: markup_ok_def)

lemma plain_text_no_nul:
  assumes "markup_ok he" and "0 \<notin> set v"
  shows "0 \<notin> set (plain_text he v n)"
proof -
  have "0 \<notin> set (html_unescape he (bleach_clean he [] None v))" using markup_okD assms by blast
  then have "\<forall>w \<in> set (split_ws (html_unescape he (bleach_clean he [] None v))). 0 \<notin> set w"
    by (meson set_split_ws subsetD)
  then have "0 \<notin> set (join (lit '' '') (split_ws (html_unescape he (bleach_clean he [] None v))))"
    by (intro join_not_in) (simp_all add: lit_def)
  then show ?thesis unfolding plain_text_def by (meson set_slice_to subsetD)
qed

lemma sanitize_html_no_nul: "markup_ok he \<Longrightarrow> 0 \<notin> set (sanitize_html he v)"
  unfolding sanitize_html_def using set_slice_to [of MAX_HTML_CHARS "no_nul v"] no_nul_nul [of v]
  by (intro markup_okD(2)) blast+

lemma content_hash_no_nul: "digest_ok he \<Longrightarrow> 0 \<notin> set (content_hash he c t b)"
  by (simp add: content_hash_def digest_ok_def)

lemma canonicalize_no_nul:
  assumes te: "lower_ok te" and url: "0 \<notin> set url" "codepoints url" and run: "canonicalize_url te url = Inr c"
    and scheme: "\<And>parsed. urlsplit te url = Some parsed \<Longrightarrow> 0 \<notin> set (py_lower te (sr_scheme parsed))"
  shows "0 \<notin> set c"
proof -
  obtain parsed port where parsed: "urlsplit te url = Some parsed" and c: "c = urlunparse (py_lower te (sr_scheme parsed))
      (canonical_netloc te parsed port) (if fst (urlparse_params parsed) = [] then lit ''/'' else fst (urlparse_params parsed)) []
      (urlencode (cleaned_query te (sr_query parsed))) []"
    using run by (auto simp: canonicalize_url_def result_simps)
  note chars = urlsplit_chars [OF parsed]
  have "0 \<notin> set (hostname te parsed)" using chars(1) url(1) by (intro hostname_no_nul [OF te]) blast
  then have "0 \<notin> set (py_lower te (hostname te parsed))" by (rule py_lower_no_nul [OF te])
  moreover have "0 \<notin> set (nat_str k)" for k
    using nat_str_digits [of k] by (auto simp: list_all_iff is_digit_ascii_def)
  ultimately have netloc: "0 \<notin> set (canonical_netloc te parsed port)"
    by (auto simp: canonical_netloc_def Let_def lit_def split: option.splits if_splits)
  have path: "0 \<notin> set (fst (urlparse_params parsed))" using urlparse_path_chars chars(2) url(1) by blast
  have query: "0 \<notin> set (urlencode (cleaned_query te (sr_query parsed)))"
    using parse_qsl_codepoints [OF codepoints_subset [OF url(2) chars(3)]]
    by (intro urlencode_no_nul) (auto simp: cleaned_query_def)
  show ?thesis
    unfolding c urlunparse_def urlunsplit_def Let_def using netloc path query scheme [OF parsed] by (simp add: lit_def)
qed

text \<open>C15: Every entry that \<^verbatim>\<open>normalize_entry\<close> returns fits the columns it is stored in.  No text
  column has a NUL, which PostgreSQL refuses: neither form of the link, nor title, summary, body,
  author, language, hash or guid.  Link, title, author and guid keep to their limits, the content hash
  has 64 characters, the language is one of the three supported ones, and the publication time is not
  in the future.  The assumptions are those on the sanitiser, the digest and \<^verbatim>\<open>str.lower\<close>, and that the
  link is a string of code points.\<close>

theorem normalize_entry_ok:
  assumes he: "digest_ok he" "markup_ok he" and te: "lower_ok te" and cp: "codepoints (re_url re)"
    and run: "normalize_entry te he now re fallback = Inr e"
  shows "entry_ok now e"
proof -
  obtain url where link: "check_link te (re_url re) = Inr url" and canonical: "canonicalize_url te url = Inr (ne_canonical_url e)"
    and e: "e = \<lparr>ne_canonical_url = ne_canonical_url e, ne_url = url,
      ne_title = plain_text he (no_nul (Some (re_title re))) MAX_TITLE_CHARS,
      ne_summary = sanitize_html he (Some (re_summary re)), ne_body = sanitize_html he (Some (re_body re)),
      ne_author = (let a = plain_text he (no_nul (re_author re)) MAX_AUTHOR_CHARS in if a = [] then None else Some a),
      ne_language = entry_language he (ne_title e) (ne_summary e) (ne_body e) fallback,
      ne_content_hash = content_hash he (ne_canonical_url e) (ne_title e) (if ne_body e \<noteq> [] then ne_body e else ne_summary e),
      ne_guid = normalize_guid he (Some (re_guid re)),
      ne_published_at = map_option (clamp_published now) (re_published_at re)\<rparr>"
    using run by (auto simp: normalize_entry_def result_simps Let_def)
  have url: "int (length url) \<le> MAX_URL_CHARS" "0 \<notin> set url" "codepoints url"
    using check_link_Inr(1,2) [OF link] strip_no_nul [of "Some (re_url re)"]
      codepoints_subset [OF cp, of url] set_strip_by [of is_space "no_nul (Some (re_url re))"]
    by (auto simp: no_nul_def)
  have "0 \<notin> set (ne_canonical_url e)"
    using check_link_Inr(3) [OF link] by (intro canonicalize_no_nul [OF te url(2,3) canonical]) (auto simp: lit_def)
  moreover have "0 \<notin> set (entry_language he t u b fallback)" for t u b
    using entry_language_supported [of he t u b fallback] by (auto simp: lit_def)
  moreover note plain_text_no_nul [OF he(2) no_nul_nul] sanitize_html_no_nul [OF he(2)] content_hash_no_nul [OF he(1)]
    normalize_guid_ok [OF he(1)] content_hash_length [OF he(1)]
  moreover have "int (length (plain_text he v MAX_TITLE_CHARS)) \<le> MAX_TITLE_CHARS"
    "int (length (plain_text he v MAX_AUTHOR_CHARS)) \<le> MAX_AUTHOR_CHARS" for v
    by (rule length_plain_text, simp add: MAX_TITLE_CHARS_def MAX_AUTHOR_CHARS_def)+
  moreover have "entry_language he t u b fallback \<in> {lit ''simple'', lit ''russian'', lit ''english''}" for t u b
    by (rule entry_language_supported)
  moreover have "clamp_published now dt \<le> now" for dt by (simp add: clamp_published_def)
  ultimately show ?thesis
    using url unfolding entry_ok_def text_columns_def by (subst (1 2 3 4 5 6 7 8 9 10 11 12 13 14 15 16) e) (simp add: Let_def split: option.split)
qed

text \<open>A sanitiser, detector and digest for examples.\<close>

definition he_example :: html_env where
  "he_example = \<lparr>bleach_clean = (\<lambda>_ _ s. filter (\<lambda>c. c \<noteq> of_char CHR ''<'') s), html_unescape = (\<lambda>s. s),
                 detect = (\<lambda>_. Some (lit ''en'')), sha256_hex = (\<lambda>bs. slice_to 64 (map (\<lambda>b. 48 + b mod 10) bs @ replicate 64 48))\<rparr>"

definition re_example :: raw_entry where
  "re_example = \<lparr>re_url = lit '' HTTP://Example.org:80/a;v=1?utm_source=x&b=2&a=1#top'', re_title = lit ''News  item'',
     re_summary = [], re_body = lit ''text'', re_guid = lit ''g1'', re_author = None, re_published_at = Some (Naive 90)\<rparr>"

lemma digest_ok_example: "digest_ok he_example"
proof -
  have "0 \<notin> set (map (\<lambda>b :: int. 48 + b mod 10) bs @ replicate 64 (48 :: int))" for bs :: "int list"
  proof -
    have "48 + b mod 10 \<noteq> (0 :: int)" for b :: int
      using pos_mod_sign [of 10 b] by linarith
    then show ?thesis by fastforce
  qed
  then show ?thesis
    by (auto simp: digest_ok_def he_example_def slice_to_take dest!: in_set_takeD)
qed

lemma markup_ok_example: "markup_ok he_example"
  by (simp add: markup_ok_def he_example_def)

lemma lower_ok_ascii: "lower_ok te_ascii"
  by (simp add: lower_ok_def te_ascii_def)

theorem normalize_entry_ok_witness:
  "\<exists>e. normalize_entry te_ascii he_example 50 re_example (lit ''russian'') = Inr e \<and> entry_ok 50 e
     \<and> ne_canonical_url e = lit ''http://example.org/a?a=1&b=2''"
proof -
  have "(case normalize_entry te_ascii he_example 50 re_example (lit ''russian'') of
      Inl _ \<Rightarrow> False | Inr e \<Rightarrow> ne_canonical_url e = lit ''http://example.org/a?a=1&b=2'')"
    by code_simp
  then obtain e where e: "normalize_entry te_ascii he_example 50 re_example (lit ''russian'') = Inr e"
    and "ne_canonical_url e = lit ''http://example.org/a?a=1&b=2''"
    by (auto split: sum.splits)
  moreover have "codepoints (re_url re_example)" by (simp add: re_example_def lit_def)
  ultimately show ?thesis
    using normalize_entry_ok [OF digest_ok_example markup_ok_example lower_ok_ascii _ e] by blast
qed

section \<open>Errors and canonical links\<close>

text \<open>\<^verbatim>\<open>normalize_entry\<close> rejects an entry only for its link: with
  \<^verbatim>\<open>InvalidEntryError\<close> when the link parses but is not an http(s) URL with a host, a valid port
  and at most 2048 characters, and with a plain \<^verbatim>\<open>ValueError\<close>, which its callers do not
  treat as a bad entry, exactly when the standard library cannot parse the link.\<close>

theorem normalize_entry_errors:
  "(normalize_entry te he now re fallback = Inl EntryValueError \<longleftrightarrow>
     urlsplit te (strip (no_nul (Some (re_url re)))) = None)
   \<and> ((\<exists>why. normalize_entry te he now re fallback = Inl (InvalidEntryError why)) \<longleftrightarrow>
     (\<exists>parsed. urlsplit te (strip (no_nul (Some (re_url re)))) = Some parsed \<and>
        \<not> (py_lower te (sr_scheme parsed) \<in> {lit ''http'', lit ''https''} \<and> hostname te parsed \<noteq> []
           \<and> port_of parsed \<noteq> None \<and> int (length (strip (no_nul (Some (re_url re))))) \<le> MAX_URL_CHARS)))"
proof -
  have no: "normalize_entry te he now re fallback = Inl e \<longleftrightarrow> check_link te (re_url re) = Inl e" for e
    using check_link_canonical [of te "re_url re"]
    by (cases "check_link te (re_url re)") (auto simp: normalize_entry_def result_simps Let_def)
  show ?thesis
    unfolding no by (auto simp: check_link_def Let_def split: option.splits)
qed

text \<open>The parameters of a link that count: everything but tracking parameters, in any order.\<close>

definition kept_params :: "text_env \<Rightarrow> ustr \<Rightarrow> (ustr \<times> ustr) multiset" where
  "kept_params te query = mset (filter (\<lambda>(k, v). \<not> is_tracking te k) (parse_qsl query))"

lemma cleaned_query_kept: "kept_params te q = kept_params te q' \<longleftrightarrow> cleaned_query te q = cleaned_query te q'"
proof -
  have "mset xs = mset ys \<longleftrightarrow> sort xs = sort ys" for xs ys :: "(ustr \<times> ustr) list"
  proof
    assume "sort xs = sort ys"
    then show "mset xs = mset ys" by (metis mset_sort)
  qed (use properties_for_sort [of "sort ys" xs] in simp)
  then show ?thesis by (simp only: kept_params_def cleaned_query_def)
qed

text \<open>C17: The canonical form of a link depends only on its scheme, host and path, on a port that
  is not the scheme's default, and on the multiset of its query parameters without the tracking
  ones: links that differ in fragment, parameter order, tracking parameters, path parameters, blank
  values, letter case of the host or an explicit default port have the same canonical form.\<close>

theorem canonicalize_url_same:
  assumes "urlsplit te a = Some pa" and "urlsplit te b = Some pb"
    and "port_of pa = Some porta" and "port_of pb = Some portb"
    and "sr_scheme pa = sr_scheme pb" and "hostname te pa = hostname te pb"
    and "fst (urlparse_params pa) = fst (urlparse_params pb)"
    and "porta = portb \<or> {porta, portb} = {None, Some 443} \<and> sr_scheme pa = lit ''https''
         \<or> {porta, portb} = {None, Some 80} \<and> sr_scheme pa = lit ''http''"
    and "kept_params te (sr_query pa) = kept_params te (sr_query pb)"
  shows "canonicalize_url te a = canonicalize_url te b"
proof -
  have "canonical_netloc te pa porta = canonical_netloc te pb portb"
    using assms(8) unfolding canonical_netloc_def Let_def assms(6) assms(5) [symmetric]
    by (auto simp: doubleton_eq_iff)
  moreover have "cleaned_query te (sr_query pa) = cleaned_query te (sr_query pb)"
    using assms(9) by (simp add: cleaned_query_kept)
  ultimately show ?thesis
    using assms(1-7) by (simp add: canonicalize_url_def)
qed

theorem canonicalize_url_same_witness:
  "canonicalize_url te_ascii (lit ''https://A.b/p?x=1&y=2&utm_id=3#f'') = canonicalize_url te_ascii (lit ''https://a.b:443/p;q?y=2&x=1&z='')"
proof -
  let ?a = "lit ''https://A.b/p?x=1&y=2&utm_id=3#f''" and ?b = "lit ''https://a.b:443/p;q?y=2&x=1&z=''"
  have "(case (urlsplit te_ascii ?a, urlsplit te_ascii ?b) of (Some pa, Some pb) \<Rightarrow>
      port_of pa = Some None \<and> port_of pb = Some (Some 443)
      \<and> sr_scheme pa = lit ''https'' \<and> sr_scheme pb = lit ''https'' \<and> hostname te_ascii pa = hostname te_ascii pb
      \<and> fst (urlparse_params pa) = fst (urlparse_params pb)
      \<and> cleaned_query te_ascii (sr_query pa) = cleaned_query te_ascii (sr_query pb)
    | _ \<Rightarrow> False)"
    by code_simp
  then obtain pa pb where p: "urlsplit te_ascii ?a = Some pa" "urlsplit te_ascii ?b = Some pb"
    "port_of pa = Some None" "port_of pb = Some (Some 443)" "sr_scheme pa = lit ''https''" "sr_scheme pb = lit ''https''"
    "hostname te_ascii pa = hostname te_ascii pb" "fst (urlparse_params pa) = fst (urlparse_params pb)"
    "kept_params te_ascii (sr_query pa) = kept_params te_ascii (sr_query pb)"
    by (auto simp: cleaned_query_kept split: option.splits)
  show ?thesis
    by (rule canonicalize_url_same [OF p(1-4) _ p(7,8) _ p(9)]) (simp_all add: p)
qed

text \<open>The brackets of an IPv6 host are lost in the canonical form.\<close>

lemma canonical_ipv6_unbracketed:
  "canonicalize_url te_ascii (lit ''http://[2001:db8::1]/'') = Inr (lit ''http://2001:db8::1/'')"
  by code_simp

end
