(* ===== verification/Article_Store.thy ===== *)
theory Article_Store
  imports Normalizer
begin

text \<open>
  The article table and its writers: \<^verbatim>\<open>src/apps/articles/models.py\<close>,
  \<^verbatim>\<open>services.py\<close>, \<^verbatim>\<open>receivers.py\<close> and \<^verbatim>\<open>src/tasks/articles.py\<close>.

  One definition per SQL statement; a statement is atomic and works on the rows as they are when
  it runs.  \<^verbatim>\<open>ON CONFLICT DO NOTHING\<close> consumes an id either way.  The generated
  \<^verbatim>\<open>tsv\<close> column is maintained by a trigger and not part of a row here.
\<close>

section \<open>Rows and statements\<close>

record article =
  a_id :: int
  a_feed :: int
  a_guid :: ustr
  a_canonical_url :: ustr
  a_url :: ustr
  a_title :: ustr
  a_summary :: ustr
  a_body :: ustr
  a_author :: "ustr option"
  a_language :: ustr
  a_content_hash :: ustr
  a_published_at :: "int option"
  a_fetched_at :: int
  a_last_seen_at :: int
  a_is_deleted :: bool
  a_created_at :: int
  a_processed_at :: "int option"

record art_store =
  art_rows :: "article list"
  art_next :: int

text \<open>The primary key and the unique indexes \<^verbatim>\<open>articles_feed_guid_uniq\<close> (partial) and
  \<^verbatim>\<open>articles_feed_hash_uniq\<close>.\<close>

definition id_key :: "article \<Rightarrow> int option" where
  "id_key r = Some (a_id r)"

definition guid_key :: "article \<Rightarrow> (int \<times> ustr) option" where
  "guid_key r = (if a_guid r = [] then None else Some (a_feed r, a_guid r))"

definition hash_key :: "article \<Rightarrow> (int \<times> ustr) option" where
  "hash_key r = Some (a_feed r, a_content_hash r)"

definition new_article :: "int \<Rightarrow> int \<Rightarrow> int \<Rightarrow> normalized_entry \<Rightarrow> article" where
  "new_article now aid feed_id e =
     \<lparr>a_id = aid, a_feed = feed_id, a_guid = ne_guid e, a_canonical_url = ne_canonical_url e, a_url = ne_url e,
      a_title = ne_title e, a_summary = ne_summary e, a_body = ne_body e, a_author = ne_author e,
      a_language = ne_language e, a_content_hash = ne_content_hash e, a_published_at = ne_published_at e,
      a_fetched_at = now, a_last_seen_at = now, a_is_deleted = False, a_created_at = now, a_processed_at = None\<rparr>"

definition insert_article :: "int \<Rightarrow> int \<Rightarrow> normalized_entry \<Rightarrow> art_store \<Rightarrow> art_store \<times> int option" where
  "insert_article now feed_id e st =
     (let r = new_article now (art_next st) feed_id e; st' = st\<lparr>art_next := art_next st + 1\<rparr>
      in if conflicts guid_key r (art_rows st) \<or> conflicts hash_key r (art_rows st) then (st', None)
         else (st'\<lparr>art_rows := art_rows st @ [r]\<rparr>, Some (a_id r)))"

definition same_guid :: "int \<Rightarrow> normalized_entry \<Rightarrow> article \<Rightarrow> bool" where
  "same_guid feed_id e r \<longleftrightarrow> a_feed r = feed_id \<and> ne_guid e \<noteq> [] \<and> a_guid r = ne_guid e"

definition same_content :: "int \<Rightarrow> normalized_entry \<Rightarrow> article \<Rightarrow> bool" where
  "same_content feed_id e r \<longleftrightarrow> a_feed r = feed_id \<and> a_content_hash r = ne_content_hash e"

definition edit_row :: "int \<Rightarrow> normalized_entry \<Rightarrow> article \<Rightarrow> article" where
  "edit_row now e r =
     r\<lparr>a_canonical_url := ne_canonical_url e, a_url := ne_url e, a_title := ne_title e, a_summary := ne_summary e,
       a_body := ne_body e, a_author := ne_author e, a_language := ne_language e,
       a_content_hash := ne_content_hash e,
       a_published_at := (case ne_published_at e of None \<Rightarrow> a_published_at r | Some t \<Rightarrow> Some t),
       a_last_seen_at := now\<rparr>"

definition edited :: "int \<Rightarrow> normalized_entry \<Rightarrow> article list \<Rightarrow> article \<Rightarrow> bool" where
  "edited feed_id e rows r \<longleftrightarrow>
     same_guid feed_id e r \<and> a_content_hash r \<noteq> ne_content_hash e \<and> \<not> list_ex (same_content feed_id e) rows"

datatype sql_error = IntegrityError

text \<open>An update that would break a unique index raises and changes nothing.\<close>

definition update_edited :: "int \<Rightarrow> int \<Rightarrow> normalized_entry \<Rightarrow> art_store \<Rightarrow> art_store \<times> (sql_error + int option)" where
  "update_edited now feed_id e st =
     (let hit = edited feed_id e (art_rows st);
          rows' = update_where hit (edit_row now e) (art_rows st)
      in if \<not> (uniq guid_key rows' \<and> uniq hash_key rows') then (st, Inl IntegrityError)
         else (st\<lparr>art_rows := rows'\<rparr>, Inr (map_option a_id (find hit (art_rows st)))))"

definition seen_at :: "int \<Rightarrow> article \<Rightarrow> article" where
  "seen_at now r = r\<lparr>a_last_seen_at := now\<rparr>"

text \<open>The sub-select of \<^verbatim>\<open>_TOUCH_EXISTING\<close>: a row with the guid before one with the content.\<close>

definition find_existing :: "int \<Rightarrow> normalized_entry \<Rightarrow> article list \<Rightarrow> int option" where
  "find_existing feed_id e rows =
     (case find (same_guid feed_id e) rows of
        Some r \<Rightarrow> Some (a_id r)
      | None \<Rightarrow> map_option a_id (find (same_content feed_id e) rows))"

definition touch_existing :: "int \<Rightarrow> int \<Rightarrow> normalized_entry \<Rightarrow> art_store \<Rightarrow> art_store \<times> int option" where
  "touch_existing now feed_id e st =
     (case find_existing feed_id e (art_rows st) of
        None \<Rightarrow> (st, None)
      | Some aid \<Rightarrow> (st\<lparr>art_rows := update_where (\<lambda>r. a_id r = aid) (seen_at now) (art_rows st)\<rparr>, Some aid))"

record upsert_result =
  article_id :: int
  inserted :: bool
  updated :: bool

datatype upsert_error = ConflictWithoutRow

definition upsert_article :: "int \<Rightarrow> int \<Rightarrow> normalized_entry \<Rightarrow> art_store \<Rightarrow> art_store \<times> (upsert_error + upsert_result)" where
  "upsert_article now feed_id e st =
     (case insert_article now feed_id e st of
        (st1, Some aid) \<Rightarrow> (st1, Inr \<lparr>article_id = aid, inserted = True, updated = False\<rparr>)
      | (st1, None) \<Rightarrow>
          (case update_edited now feed_id e st1 of
             (st2, Inr (Some aid)) \<Rightarrow> (st2, Inr \<lparr>article_id = aid, inserted = False, updated = True\<rparr>)
           | (st2, _) \<Rightarrow>
               (case touch_existing now feed_id e st2 of
                  (st3, None) \<Rightarrow> (st3, Inl ConflictWithoutRow)
                | (st3, Some aid) \<Rightarrow> (st3, Inr \<lparr>article_id = aid, inserted = False, updated = False\<rparr>))))"

definition mark_processed :: "int \<Rightarrow> article \<Rightarrow> article" where
  "mark_processed now r = r\<lparr>a_processed_at := Some now\<rparr>"

definition mark_unprocessed :: "article \<Rightarrow> article" where
  "mark_unprocessed r = r\<lparr>a_processed_at := None\<rparr>"

definition unclaimed :: "int \<Rightarrow> article \<Rightarrow> bool" where
  "unclaimed aid r \<longleftrightarrow> a_id r = aid \<and> a_processed_at r = None"

definition claim_processing :: "int \<Rightarrow> int \<Rightarrow> art_store \<Rightarrow> art_store \<times> bool" where
  "claim_processing now aid st =
     (st\<lparr>art_rows := update_where (unclaimed aid) (mark_processed now) (art_rows st)\<rparr>,
      list_ex (unclaimed aid) (art_rows st))"

definition release_processing :: "int \<Rightarrow> art_store \<Rightarrow> art_store" where
  "release_processing aid st = st\<lparr>art_rows := update_where (\<lambda>r. a_id r = aid) mark_unprocessed (art_rows st)\<rparr>"

section \<open>The task\<close>

datatype process_outcome =
    Skipped string
  | Processed int bool
  | RaisedConflict
  | RaisedEntryValue
  | RaisedIsoFormat
  | RaisedQueueing

text \<open>The tasks that \<^verbatim>\<open>on_article_created\<close> chains: tags first, then the fan-out.\<close>

datatype queued_task = ApplyTagRules int | FanoutInstant int

definition on_article_created :: "int \<Rightarrow> queued_task list" where
  "on_article_created aid = [ApplyTagRules aid, FanoutInstant aid]"

definition claim_and_send :: "int \<Rightarrow> bool \<Rightarrow> upsert_result \<Rightarrow> art_store
    \<Rightarrow> art_store \<times> queued_task list \<times> process_outcome" where
  "claim_and_send now broker_up res st =
     (case claim_processing now (article_id res) st of
        (st1, False) \<Rightarrow> (st1, [], Processed (article_id res) (inserted res))
      | (st1, True) \<Rightarrow>
          if broker_up then (st1, on_article_created (article_id res), Processed (article_id res) (inserted res))
          else (release_processing (article_id res) st1, [], RaisedQueueing))"

text \<open>
  The task as a whole: the store, the tasks put on the queue and the outcome.  \<open>broker_up\<close>
  tells whether queueing succeeds; \<open>fromisoformat\<close> reads the time stamp of the message
  (\<open>None\<close>: it raises).
\<close>

definition process_article :: "text_env \<Rightarrow> html_env \<Rightarrow> (ustr \<Rightarrow> py_datetime option) \<Rightarrow> int \<Rightarrow> bool \<Rightarrow> int
    \<Rightarrow> raw_entry \<Rightarrow> ustr option \<Rightarrow> ustr \<Rightarrow> art_store \<Rightarrow> art_store \<times> queued_task list \<times> process_outcome" where
  "process_article te he fromisoformat now broker_up feed_id re published_at feed_language st =
     (case (case published_at of None \<Rightarrow> Some None
            | Some s \<Rightarrow> if s = [] then Some None else map_option Some (fromisoformat s)) of
        None \<Rightarrow> (st, [], RaisedIsoFormat)
      | Some pub \<Rightarrow>
          (case normalize_entry te he now (re\<lparr>re_published_at := pub\<rparr>) feed_language of
             Inl (InvalidEntryError why) \<Rightarrow> (st, [], Skipped why)
           | Inl EntryValueError \<Rightarrow> (st, [], RaisedEntryValue)
           | Inr entry \<Rightarrow>
               (case upsert_article now feed_id entry st of
                  (st1, Inl ConflictWithoutRow) \<Rightarrow> (st1, [], RaisedConflict)
                | (st1, Inr res) \<Rightarrow> claim_and_send now broker_up res st1)))"

section \<open>The indexes hold\<close>

definition store_ok :: "art_store \<Rightarrow> bool" where
  "store_ok st \<longleftrightarrow>
     uniq id_key (art_rows st) \<and> uniq guid_key (art_rows st) \<and> uniq hash_key (art_rows st)
     \<and> list_all (\<lambda>r. a_id r < art_next st) (art_rows st)"

text \<open>Touching, claiming and releasing leave every indexed column alone.\<close>

interpretation seen_id: key_preserving id_key "seen_at now" for now
  by unfold_locales (simp add: id_key_def seen_at_def)

interpretation seen_guid: key_preserving guid_key "seen_at now" for now
  by unfold_locales (simp add: guid_key_def seen_at_def)

interpretation seen_hash: key_preserving hash_key "seen_at now" for now
  by unfold_locales (simp add: hash_key_def seen_at_def)

interpretation claim_id: key_preserving id_key "mark_processed now" for now
  by unfold_locales (simp add: id_key_def mark_processed_def)

interpretation claim_guid: key_preserving guid_key "mark_processed now" for now
  by unfold_locales (simp add: guid_key_def mark_processed_def)

interpretation claim_hash: key_preserving hash_key "mark_processed now" for now
  by unfold_locales (simp add: hash_key_def mark_processed_def)

interpretation release_id: key_preserving id_key mark_unprocessed
  by unfold_locales (simp add: id_key_def mark_unprocessed_def)

interpretation release_guid: key_preserving guid_key mark_unprocessed
  by unfold_locales (simp add: guid_key_def mark_unprocessed_def)

interpretation release_hash: key_preserving hash_key mark_unprocessed
  by unfold_locales (simp add: hash_key_def mark_unprocessed_def)

interpretation edit_id: key_preserving id_key "edit_row now e" for now e
  by unfold_locales (simp add: id_key_def edit_row_def)

interpretation edit_guid: key_preserving guid_key "edit_row now e" for now e
  by unfold_locales (simp add: guid_key_def edit_row_def)

lemmas index_kept =
  seen_id.uniq_kept seen_guid.uniq_kept seen_hash.uniq_kept claim_id.uniq_kept claim_guid.uniq_kept
  claim_hash.uniq_kept release_id.uniq_kept release_guid.uniq_kept release_hash.uniq_kept
  edit_id.uniq_kept edit_guid.uniq_kept

lemma below_kept: "(\<And>r. a_id (f r) = a_id r) \<Longrightarrow> list_all (\<lambda>r. a_id r < n) (update_where p f rows) = list_all (\<lambda>r. a_id r < n) rows"
  by (induction rows) auto

lemma a_id_simps [simp]:
  "a_id (seen_at now r) = a_id r" "a_id (mark_processed now r) = a_id r" "a_id (mark_unprocessed r) = a_id r"
  "a_id (edit_row now e r) = a_id r"
  by (simp_all add: seen_at_def mark_processed_def mark_unprocessed_def edit_row_def)

lemma uniq_idD: "uniq id_key rows \<Longrightarrow> r \<in> set rows \<Longrightarrow> s \<in> set rows \<Longrightarrow> a_id r = a_id s \<Longrightarrow> r = s"
  by (rule uniq_same_row [of id_key rows r s "a_id s"]) (simp_all add: id_key_def)

lemma uniq_id_distinct: "uniq id_key rows \<Longrightarrow> distinct rows"
  by (induction rows) (auto simp: uniq_Cons conflicts_def has_key_iff id_key_def)

lemma same_guid_unique:
  assumes "uniq guid_key rows" and "r \<in> set rows" and "s \<in> set rows" and "same_guid f e r" and "same_guid f e s"
  shows "r = s"
  using assms(4,5) by (intro uniq_same_row [OF assms(1-3), of "(f, ne_guid e)"]) (auto simp: same_guid_def guid_key_def)

lemma same_content_unique:
  assumes "uniq hash_key rows" and "r \<in> set rows" and "s \<in> set rows" and "same_content f e r" and "same_content f e s"
  shows "r = s"
  using assms(4,5)
  by (intro uniq_same_row [OF assms(1-3), of "(f, ne_content_hash e)"]) (auto simp: same_content_def hash_key_def)

lemma insert_ok:
  assumes "store_ok st"
  shows "store_ok (fst (insert_article now f e st))"
proof -
  have "\<not> conflicts id_key (new_article now (art_next st) f e) (art_rows st)"
    using assms by (auto simp: store_ok_def conflicts_def id_key_def has_key_iff new_article_def list_all_iff)
  then show ?thesis
    using assms by (auto simp: store_ok_def insert_article_def Let_def uniq_snoc list_all_iff new_article_def)
qed

lemma insert_None_iff:
  "snd (insert_article now f e st) = None \<longleftrightarrow> (\<exists>r \<in> set (art_rows st). same_guid f e r \<or> same_content f e r)"
  by (auto simp: insert_article_def Let_def conflicts_def has_key_iff guid_key_def hash_key_def new_article_def
      same_guid_def same_content_def split: if_splits)

lemma insert_None_rows: "snd (insert_article now f e st) = None \<Longrightarrow> art_rows (fst (insert_article now f e st)) = art_rows st"
  by (auto simp: insert_article_def Let_def split: if_splits)

lemma edited_hash_uniq:
  assumes "store_ok st"
  shows "uniq hash_key (update_where (edited f e (art_rows st)) (edit_row now e) (art_rows st))"
proof (cases "list_ex (same_content f e) (art_rows st)")
  case True
  then have "update_where (edited f e (art_rows st)) (edit_row now e) (art_rows st) = art_rows st"
    by (intro update_where_none) (simp add: edited_def)
  with assms show ?thesis by (simp add: store_ok_def)
next
  case False
  have fresh: "\<not> has_key hash_key (f, ne_content_hash e) (art_rows st)"
    using False by (auto simp: has_key_iff hash_key_def list_ex_iff same_content_def)
  show ?thesis
  proof (rule uniq_update_fresh [OF _ fresh])
    show "distinct (art_rows st)" "uniq hash_key (art_rows st)"
      using assms uniq_id_distinct by (auto simp: store_ok_def)
    show "hash_key (edit_row now e r) = Some (f, ne_content_hash e)" if "edited f e (art_rows st) r" for r
      using that by (simp add: hash_key_def edit_row_def edited_def same_guid_def)
    show "r = s" if "r \<in> set (art_rows st)" "s \<in> set (art_rows st)" "edited f e (art_rows st) r" "edited f e (art_rows st) s"
      for r s using that assms same_guid_unique by (auto simp: edited_def store_ok_def)
  qed
qed

text \<open>With atomic statements the \<^verbatim>\<open>NOT EXISTS\<close> test makes the index violation impossible.\<close>

lemma update_edited_eq:
  assumes "store_ok st"
  shows "update_edited now f e st =
    (st\<lparr>art_rows := update_where (edited f e (art_rows st)) (edit_row now e) (art_rows st)\<rparr>,
     Inr (map_option a_id (find (edited f e (art_rows st)) (art_rows st))))"
  using edited_hash_uniq [OF assms, of f e now] assms
  by (simp add: update_edited_def Let_def index_kept store_ok_def)

lemma update_edited_ok: "store_ok st \<Longrightarrow> store_ok (fst (update_edited now f e st))"
  using edited_hash_uniq [of st f e now] by (simp add: update_edited_eq) (simp add: store_ok_def index_kept below_kept)

lemma touch_ok: "store_ok st \<Longrightarrow> store_ok (fst (touch_existing now f e st))"
  by (auto simp: store_ok_def touch_existing_def index_kept below_kept split: option.splits)

lemma claim_ok: "store_ok st \<Longrightarrow> store_ok (fst (claim_processing now aid st))"
  by (simp add: store_ok_def claim_processing_def index_kept below_kept)

lemma release_ok: "store_ok st \<Longrightarrow> store_ok (release_processing aid st)"
  by (simp add: store_ok_def release_processing_def index_kept below_kept)

lemmas statements_ok = insert_ok update_edited_ok touch_ok claim_ok release_ok

lemma upsert_ok:
  assumes "store_ok st"
  shows "store_ok (fst (upsert_article now f e st))"
proof -
  obtain st1 r1 where ins: "insert_article now f e st = (st1, r1)" by (cases "insert_article now f e st")
  obtain st2 r2 where upd: "update_edited now f e st1 = (st2, r2)" by (cases "update_edited now f e st1")
  obtain st3 r3 where touch: "touch_existing now f e st2 = (st3, r3)" by (cases "touch_existing now f e st2")
  have "store_ok st1" using insert_ok [OF assms, of now f e] ins by simp
  moreover from this have "store_ok st2" using update_edited_ok [of st1 now f e] upd by simp
  moreover from this have "store_ok st3" using touch_ok [of st2 now f e] touch by simp
  ultimately show ?thesis
    by (auto simp: upsert_article_def ins upd touch split: option.splits sum.splits)
qed

definition empty_store :: art_store where
  "empty_store = \<lparr>art_rows = [], art_next = 1\<rparr>"

lemma empty_store_ok: "store_ok empty_store"
  by (simp add: store_ok_def empty_store_def)

section \<open>What an upsert does\<close>

lemma upsert_insert:
  assumes "\<not> (\<exists>r \<in> set (art_rows st). same_guid f e r \<or> same_content f e r)"
  shows "upsert_article now f e st =
    (\<lparr>art_rows = art_rows st @ [new_article now (art_next st) f e], art_next = art_next st + 1\<rparr>,
     Inr \<lparr>article_id = art_next st, inserted = True, updated = False\<rparr>)"
  using assms insert_None_iff [of now f e st]
  by (auto simp: upsert_article_def insert_article_def Let_def new_article_def split: if_splits)

lemma upsert_known:
  assumes "store_ok st" and "\<exists>r \<in> set (art_rows st). same_guid f e r \<or> same_content f e r"
  shows "upsert_article now f e st =
    (let st1 = st\<lparr>art_next := art_next st + 1\<rparr>; hit = edited f e (art_rows st)
     in case find hit (art_rows st) of
          Some r \<Rightarrow> (st1\<lparr>art_rows := update_where hit (edit_row now e) (art_rows st)\<rparr>,
                     Inr \<lparr>article_id = a_id r, inserted = False, updated = True\<rparr>)
        | None \<Rightarrow>
            (case find_existing f e (art_rows st) of
               None \<Rightarrow> (st1, Inl ConflictWithoutRow)
             | Some aid \<Rightarrow> (st1\<lparr>art_rows := update_where (\<lambda>r. a_id r = aid) (seen_at now) (art_rows st)\<rparr>,
                            Inr \<lparr>article_id = aid, inserted = False, updated = False\<rparr>)))"
proof -
  have none: "snd (insert_article now f e st) = None" using assms(2) insert_None_iff by blast
  then have ins: "insert_article now f e st = (st\<lparr>art_next := art_next st + 1\<rparr>, None)"
    by (auto simp: insert_article_def Let_def split: if_splits)
  have ok: "store_ok (st\<lparr>art_next := art_next st + 1\<rparr>)" using insert_ok [OF assms(1), of now f e] ins by simp
  have same: "update_where (edited f e (art_rows st)) g (art_rows st) = art_rows st"
    if "find (edited f e (art_rows st)) (art_rows st) = None" for g
    using that by (intro update_where_none) (auto simp: find_None_iff)
  show ?thesis
    by (auto simp: upsert_article_def ins update_edited_eq [OF ok] touch_existing_def Let_def same split: option.splits)
qed

lemma find_existing_Some:
  assumes "\<exists>r \<in> set rows. same_guid f e r \<or> same_content f e r"
  obtains r where "r \<in> set rows" and "same_guid f e r \<or> same_content f e r" and "find_existing f e rows = Some (a_id r)"
    and "same_guid f e r \<or> \<not> (\<exists>s \<in> set rows. same_guid f e s)"
proof (cases "find (same_guid f e) rows")
  case (Some r)
  with find_SomeD [OF Some] that [of r] show ?thesis by (simp add: find_existing_def)
next
  case None
  then have no: "\<not> (\<exists>s \<in> set rows. same_guid f e s)" by (auto simp: find_None_iff)
  then obtain r where r: "find (same_content f e) rows = Some r"
    using assms by (metis find_None_iff2 not_None_eq option.exhaust)
  with None no find_SomeD [OF r] that [of r] show ?thesis by (simp add: find_existing_def)
qed

text \<open>
  What an upsert promises, column by column and independently of the statements that do it: the row
  it adds, the row it rewrites, the row it merely touches.
\<close>

definition row_of_entry :: "int \<Rightarrow> int \<Rightarrow> int \<Rightarrow> normalized_entry \<Rightarrow> article \<Rightarrow> bool" where
  "row_of_entry now aid f e r \<longleftrightarrow>
     a_id r = aid \<and> a_feed r = f \<and> a_guid r = ne_guid e
     \<and> a_canonical_url r = ne_canonical_url e \<and> a_url r = ne_url e \<and> a_title r = ne_title e
     \<and> a_summary r = ne_summary e \<and> a_body r = ne_body e \<and> a_author r = ne_author e
     \<and> a_language r = ne_language e \<and> a_content_hash r = ne_content_hash e
     \<and> a_published_at r = ne_published_at e
     \<and> a_fetched_at r = now \<and> a_last_seen_at r = now \<and> a_created_at r = now
     \<and> \<not> a_is_deleted r \<and> a_processed_at r = None"

definition columns_kept :: "article \<Rightarrow> article \<Rightarrow> bool" where
  "columns_kept r r' \<longleftrightarrow>
     a_id r' = a_id r \<and> a_feed r' = a_feed r \<and> a_guid r' = a_guid r \<and> a_fetched_at r' = a_fetched_at r
     \<and> a_created_at r' = a_created_at r \<and> a_is_deleted r' = a_is_deleted r \<and> a_processed_at r' = a_processed_at r"

definition rewritten_from :: "int \<Rightarrow> normalized_entry \<Rightarrow> article \<Rightarrow> article \<Rightarrow> bool" where
  "rewritten_from now e r r' \<longleftrightarrow>
     columns_kept r r'
     \<and> a_canonical_url r' = ne_canonical_url e \<and> a_url r' = ne_url e \<and> a_title r' = ne_title e
     \<and> a_summary r' = ne_summary e \<and> a_body r' = ne_body e \<and> a_author r' = ne_author e
     \<and> a_language r' = ne_language e \<and> a_content_hash r' = ne_content_hash e
     \<and> a_published_at r' = (if ne_published_at e = None then a_published_at r else ne_published_at e)
     \<and> a_last_seen_at r' = now"

definition only_touched :: "int \<Rightarrow> article \<Rightarrow> article \<Rightarrow> bool" where
  "only_touched now r r' \<longleftrightarrow>
     columns_kept r r'
     \<and> a_canonical_url r' = a_canonical_url r \<and> a_url r' = a_url r \<and> a_title r' = a_title r
     \<and> a_summary r' = a_summary r \<and> a_body r' = a_body r \<and> a_author r' = a_author r
     \<and> a_language r' = a_language r \<and> a_content_hash r' = a_content_hash r
     \<and> a_published_at r' = a_published_at r \<and> a_last_seen_at r' = now"

definition upsert_spec :: "int \<Rightarrow> int \<Rightarrow> normalized_entry \<Rightarrow> art_store \<Rightarrow> art_store \<Rightarrow> upsert_result \<Rightarrow> bool" where
  "upsert_spec now f e st st' res \<longleftrightarrow>
     (let guid_hit = (\<lambda>r. a_feed r = f \<and> ne_guid e \<noteq> [] \<and> a_guid r = ne_guid e);
          content_hit = (\<lambda>r. a_feed r = f \<and> a_content_hash r = ne_content_hash e);
          rows = art_rows st; rows' = art_rows st'
      in if \<not> list_ex guid_hit rows \<and> \<not> list_ex content_hit rows
         then inserted res \<and> \<not> updated res
           \<and> (\<exists>r. rows' = rows @ [r] \<and> row_of_entry now (article_id res) f e r)
           \<and> \<not> list_ex (\<lambda>r. a_id r = article_id res) rows
         else \<not> inserted res \<and> (updated res \<longleftrightarrow> \<not> list_ex content_hit rows)
           \<and> list_ex (\<lambda>r. a_id r = article_id res
                \<and> (if list_ex guid_hit rows then guid_hit r else content_hit r)) rows
           \<and> list_all2 (\<lambda>r r'. if a_id r \<noteq> article_id res then r' = r
                else if updated res then rewritten_from now e r r' else only_touched now r r') rows rows')"

lemma rewritten_edit_row: "rewritten_from now e r (edit_row now e r)"
  by (simp add: rewritten_from_def columns_kept_def edit_row_def split: option.split)

lemma touched_seen_at: "only_touched now r (seen_at now r)"
  by (simp add: only_touched_def columns_kept_def seen_at_def)

lemma row_of_new_article: "row_of_entry now aid f e (new_article now aid f e)"
  by (simp add: row_of_entry_def new_article_def)

lemma list_all2_update_where:
  assumes "\<And>r. r \<in> set rows \<Longrightarrow> R r (if p r then g r else r)"
  shows "list_all2 R rows (update_where p g rows)"
  using assms by (induction rows) auto

text \<open>The rows with the guid or the content of an entry, as the statements select them.\<close>

lemma hits_eq:
  "(\<lambda>r. a_feed r = f \<and> ne_guid e \<noteq> [] \<and> a_guid r = ne_guid e) = same_guid f e"
  "(\<lambda>r. a_feed r = f \<and> a_content_hash r = ne_content_hash e) = same_content f e"
  by (simp_all add: fun_eq_iff same_guid_def same_content_def)

lemmas upsert_spec_eq = upsert_spec_def [unfolded hits_eq Let_def]

lemma edited_iff_guid_only:
  assumes "\<exists>r \<in> set rows. same_guid f e r \<or> same_content f e r"
  shows "find (edited f e rows) rows = None \<longleftrightarrow> list_ex (same_content f e) rows"
  using assms by (auto simp: find_None_iff edited_def list_ex_iff same_guid_def same_content_def)

text \<open>C7: On a consistent table an upsert always succeeds, its guarded update never runs into a
  unique index, and it does exactly this.  With no article of the feed under the entry's guid or
  content it adds one row, under an unused id, that holds the entry's columns, unprocessed and not
  deleted, and leaves the other rows alone.  Otherwise the id it returns is that of the article with
  the guid, or, there being none, of the one with the content, and only that row changes: if no
  article of the feed has the content, every text column, the hash and the time of last sighting are
  rewritten from the entry, the time of publication too when the entry has one, while id, feed, guid,
  first fetch, creation, deletion flag and processing claim stay; if one has it, only the time of last
  sighting changes.\<close>

theorem upsert_article_behaviour:
  assumes ok: "store_ok st"
  shows "(\<exists>hit. snd (update_edited now f e st) = Inr hit)
    \<and> (\<exists>st' res. upsert_article now f e st = (st', Inr res) \<and> upsert_spec now f e st st' res)"
proof (cases "\<exists>r \<in> set (art_rows st). same_guid f e r \<or> same_content f e r")
  case False
  have "\<not> list_ex (\<lambda>r. a_id r = art_next st) (art_rows st)"
    using ok by (auto simp: store_ok_def list_all_iff list_ex_iff)
  moreover have "\<not> list_ex (same_guid f e) (art_rows st)" "\<not> list_ex (same_content f e) (art_rows st)"
    using False by (auto simp: list_ex_iff)
  ultimately show ?thesis
    by (simp add: upsert_insert [OF False] upsert_spec_eq Let_def row_of_new_article update_edited_eq [OF ok])
next
  case True
  have ids: "uniq id_key (art_rows st)" and guids: "uniq guid_key (art_rows st)" using ok by (simp_all add: store_ok_def)
  show ?thesis
  proof (cases "find (edited f e (art_rows st)) (art_rows st)")
    case None
    obtain r where r: "r \<in> set (art_rows st)" "same_guid f e r \<or> same_content f e r"
        "find_existing f e (art_rows st) = Some (a_id r)" "same_guid f e r \<or> \<not> (\<exists>s \<in> set (art_rows st). same_guid f e s)"
      using find_existing_Some [OF True] by blast
    have "list_ex (same_content f e) (art_rows st)" using None edited_iff_guid_only [OF True] by simp
    moreover have "list_ex (same_guid f e) (art_rows st) \<Longrightarrow> list_ex (\<lambda>s. a_id s = a_id r \<and> same_guid f e s) (art_rows st)"
      "\<not> list_ex (same_guid f e) (art_rows st) \<Longrightarrow> list_ex (\<lambda>s. a_id s = a_id r \<and> same_content f e s) (art_rows st)"
      using r(1,2,4) by (auto simp: list_ex_iff)
    moreover have "list_all2 (\<lambda>s s'. (a_id s \<noteq> a_id r \<longrightarrow> s' = s) \<and> (a_id s = a_id r \<longrightarrow> only_touched now s s'))
        (art_rows st) (update_where (\<lambda>s. a_id s = a_id r) (seen_at now) (art_rows st))"
      by (rule list_all2_update_where) (simp add: touched_seen_at)
    ultimately show ?thesis
      using None r(3) by (cases "list_ex (same_guid f e) (art_rows st)")
        (simp_all add: upsert_known [OF ok True] upsert_spec_eq Let_def update_edited_eq [OF ok])
  next
    case (Some s)
    then have s: "s \<in> set (art_rows st)" "edited f e (art_rows st) s" by (auto dest: find_SomeD)
    have only: "edited f e (art_rows st) t \<longleftrightarrow> a_id t = a_id s" if "t \<in> set (art_rows st)" for t
      using that s same_guid_unique [OF guids that s(1)] uniq_idD [OF ids that s(1)] by (auto simp: edited_def)
    have "\<not> list_ex (same_content f e) (art_rows st)" using s(2) by (simp add: edited_def)
    moreover have "list_ex (same_guid f e) (art_rows st)"
      "list_ex (\<lambda>t. a_id t = a_id s \<and> same_guid f e t) (art_rows st)"
      using s by (auto simp: edited_def list_ex_iff)
    moreover have "list_all2 (\<lambda>t t'. (a_id t \<noteq> a_id s \<longrightarrow> t' = t) \<and> (a_id t = a_id s \<longrightarrow> rewritten_from now e t t'))
        (art_rows st) (update_where (edited f e (art_rows st)) (edit_row now e) (art_rows st))"
      by (rule list_all2_update_where) (simp add: only rewritten_edit_row)
    ultimately show ?thesis
      using Some by (simp add: upsert_known [OF ok True] upsert_spec_eq Let_def update_edited_eq [OF ok])
  qed
qed

definition entry_example :: normalized_entry where
  "entry_example = \<lparr>ne_canonical_url = [], ne_url = [], ne_title = [], ne_summary = [], ne_body = [], ne_author = None,
     ne_language = [], ne_content_hash = [1], ne_guid = [9], ne_published_at = None\<rparr>"

definition edited_example :: normalized_entry where
  "edited_example = entry_example\<lparr>ne_title := [65], ne_content_hash := [2]\<rparr>"

definition one_article :: art_store where
  "one_article = \<lparr>art_rows = [new_article 5 1 7 entry_example], art_next = 2\<rparr>"

lemma one_article_ok: "store_ok one_article"
  by (simp add: store_ok_def one_article_def uniq_Cons conflicts_def has_key_iff new_article_def
      id_key_def guid_key_def hash_key_def)

text \<open>An edit at the source: the stored row takes the new title and keeps its id.\<close>

theorem upsert_article_behaviour_witness:
  "store_ok one_article \<and> (\<exists>st' res r'. upsert_article 9 7 edited_example one_article = (st', Inr res)
     \<and> updated res \<and> art_rows st' = [r'] \<and> a_id r' = 1 \<and> a_title r' = [65] \<and> a_last_seen_at r' = 9)"
  using upsert_article_behaviour [OF one_article_ok, of 9 7 edited_example] one_article_ok
  by (auto simp: upsert_spec_def Let_def one_article_def new_article_def edited_example_def entry_example_def
      rewritten_from_def columns_kept_def list_all2_Cons1)

text \<open>What the same row looks like when only its time of last sighting may differ.\<close>

definition unseen :: "article \<Rightarrow> article" where
  "unseen r = r\<lparr>a_last_seen_at := 0\<rparr>"

lemma unseen_seen_at [simp]: "unseen (seen_at now r) = unseen r"
  by (simp add: unseen_def seen_at_def)

lemma unseen_same [simp]: "same_guid f e (unseen r) = same_guid f e r" "same_content f e (unseen r) = same_content f e r"
  by (simp_all add: unseen_def same_guid_def same_content_def)

lemma repeat_touches:
  assumes ok: "store_ok st" and known: "\<exists>r \<in> set (art_rows st). same_guid f e r \<or> same_content f e r"
    and settled: "\<not> list_ex (edited f e (art_rows st)) (art_rows st)"
  shows "\<exists>st' aid. find_existing f e (art_rows st) = Some aid
    \<and> upsert_article now f e st = (st', Inr \<lparr>article_id = aid, inserted = False, updated = False\<rparr>)
    \<and> map unseen (art_rows st') = map unseen (art_rows st)"
proof -
  obtain aid where aid: "find_existing f e (art_rows st) = Some aid"
    using find_existing_Some [OF known] by blast
  have "find (edited f e (art_rows st)) (art_rows st) = None" using settled by (auto simp: find_None_iff list_ex_iff)
  then show ?thesis
    using aid by (simp add: upsert_known [OF ok known] map_update_where)
qed

lemma find_existing_guid:
  assumes "uniq guid_key rows" and "r \<in> set rows" and "same_guid f e r"
  shows "find_existing f e rows = Some (a_id r)"
proof -
  obtain s where s: "find (same_guid f e) rows = Some s"
    using assms(2,3) by (metis find_None_iff2 option.exhaust)
  then have "s = r" using find_SomeD [OF s] same_guid_unique [OF assms(1)] assms(2,3) by blast
  with s show ?thesis by (simp add: find_existing_def)
qed

lemma find_existing_content:
  assumes "uniq hash_key rows" and "r \<in> set rows" and "same_content f e r" and "\<not> (\<exists>s \<in> set rows. same_guid f e s)"
  shows "find_existing f e rows = Some (a_id r)"
proof -
  obtain s where s: "find (same_content f e) rows = Some s"
    using assms(2,3) by (metis find_None_iff2 option.exhaust)
  then have "s = r" using find_SomeD [OF s] same_content_unique [OF assms(1)] assms(2,3) by blast
  moreover have "find (same_guid f e) rows = None" using assms(4) by (auto simp: find_None_iff)
  ultimately show ?thesis using s by (simp add: find_existing_def)
qed

text \<open>After an upsert the entry is known, under the id that was returned, and nothing is left to edit.\<close>

definition settled :: "int \<Rightarrow> normalized_entry \<Rightarrow> int \<Rightarrow> article list \<Rightarrow> bool" where
  "settled f e aid rows \<longleftrightarrow>
     find_existing f e rows = Some aid \<and> (\<exists>r \<in> set rows. same_guid f e r \<or> same_content f e r)
     \<and> \<not> list_ex (edited f e rows) rows"

lemma settledI:
  assumes "store_ok st" and "r \<in> set (art_rows st)" and "same_content f e r"
    and "same_guid f e r \<or> ne_guid e = []"
  shows "settled f e (a_id r) (art_rows st)"
proof -
  have "find_existing f e (art_rows st) = Some (a_id r)"
  proof (cases "same_guid f e r")
    case True
    with assms(1,2) show ?thesis by (intro find_existing_guid) (simp_all add: store_ok_def)
  next
    case False
    with assms show ?thesis by (intro find_existing_content) (auto simp: store_ok_def same_guid_def)
  qed
  with assms(2,3) show ?thesis by (auto simp: settled_def edited_def list_ex_iff)
qed

text \<open>An update that leaves id, feed, guid and content alone.\<close>

definition same_keys :: "(article \<Rightarrow> article) \<Rightarrow> bool" where
  "same_keys g \<longleftrightarrow> (\<forall>r. a_id (g r) = a_id r \<and> a_feed (g r) = a_feed r \<and> a_guid (g r) = a_guid r
     \<and> a_content_hash (g r) = a_content_hash r)"

lemma same_keys_simps [simp]: "same_keys (seen_at now)" "same_keys (mark_processed now)" "same_keys mark_unprocessed"
  by (simp_all add: same_keys_def seen_at_def mark_processed_def mark_unprocessed_def)

lemma find_kept:
  assumes "\<And>r. P (g r) = P r" and "\<And>r. a_id (g r) = a_id r"
  shows "map_option a_id (find P (update_where q g rows)) = map_option a_id (find P rows)"
    and "list_ex P (update_where q g rows) = list_ex P rows"
  using assms by (induction rows) auto

lemma settled_kept:
  assumes "same_keys g"
  shows "settled f e aid (update_where q g rows) = settled f e aid rows"
proof -
  have same: "same_guid f e (g r) = same_guid f e r" "same_content f e (g r) = same_content f e r"
    "a_content_hash (g r) = a_content_hash r" "a_id (g r) = a_id r" for r
    using assms by (simp_all add: same_guid_def same_content_def same_keys_def)
  have ex: "find_existing f e rows' = (case map_option a_id (find (same_guid f e) rows') of Some i \<Rightarrow> Some i
      | None \<Rightarrow> map_option a_id (find (same_content f e) rows'))" for rows'
    by (simp add: find_existing_def split: option.splits)
  have "find_existing f e (update_where q g rows) = find_existing f e rows"
    unfolding ex by (simp only: find_kept(1) same)
  then show ?thesis
    by (simp add: settled_def list_ex_iff [symmetric] find_kept(2) edited_def [abs_def] same)
qed

lemma upsert_settles:
  assumes ok: "store_ok st" and run: "upsert_article now f e st = (st1, Inr res)"
  shows "settled f e (article_id res) (art_rows st1)"
proof (cases "\<exists>r \<in> set (art_rows st). same_guid f e r \<or> same_content f e r")
  case False
  let ?r = "new_article now (art_next st) f e"
  have "art_rows st1 = art_rows st @ [?r]" and "article_id res = a_id ?r"
    using upsert_insert [OF False] run by (auto simp: new_article_def)
  moreover have "same_content f e ?r" "same_guid f e ?r \<or> ne_guid e = []"
    by (auto simp: same_content_def same_guid_def new_article_def)
  moreover have "store_ok st1" using upsert_ok [OF ok, of now f e] run by simp
  ultimately show ?thesis using settledI [of st1 ?r f e] by simp
next
  case True
  show ?thesis
  proof (cases "find (edited f e (art_rows st)) (art_rows st)")
    case (Some r)
    then have rows: "art_rows st1 = update_where (edited f e (art_rows st)) (edit_row now e) (art_rows st)"
      and "article_id res = a_id (edit_row now e r)"
      using run upsert_known [OF ok True, of now] by (auto simp: Let_def)
    moreover have "edit_row now e r \<in> set (art_rows st1)" "same_guid f e (edit_row now e r)" "same_content f e (edit_row now e r)"
      using find_SomeD [OF Some] by (auto simp: rows set_update_where edited_def same_guid_def same_content_def edit_row_def)
    moreover have "store_ok st1" using upsert_ok [OF ok, of now f e] run by simp
    ultimately show ?thesis using settledI [of st1 "edit_row now e r" f e] by metis
  next
    case None
    obtain aid where ex: "find_existing f e (art_rows st) = Some aid" using find_existing_Some [OF True] by blast
    then have "art_rows st1 = update_where (\<lambda>r. a_id r = aid) (seen_at now) (art_rows st)" and "article_id res = aid"
      using run None upsert_known [OF ok True, of now] by (auto simp: Let_def)
    moreover have "settled f e aid (art_rows st)"
      using ex True None by (simp add: settled_def list_ex_find)
    ultimately show ?thesis by (simp add: settled_kept)
  qed
qed

text \<open>Storing the same entry again changes nothing but times of last sighting: the second upsert
  returns the id of the first, reports neither an insert nor an update, and every row is as before
  apart from \<^verbatim>\<open>last_seen_at\<close>; so a redelivered task does no harm.\<close>

theorem upsert_idempotent:
  assumes "store_ok st" and "upsert_article now f e st = (st1, Inr res)"
  shows "\<exists>st2. upsert_article later f e st1 =
      (st2, Inr \<lparr>article_id = article_id res, inserted = False, updated = False\<rparr>)
    \<and> map unseen (art_rows st2) = map unseen (art_rows st1)"
proof -
  have "store_ok st1" using upsert_ok [OF assms(1), of now f e] assms(2) by simp
  with upsert_settles [OF assms] repeat_touches [of st1 f e later] show ?thesis
    by (auto simp: settled_def)
qed

theorem upsert_idempotent_witness:
  "\<exists>st1 res st2. upsert_article 5 7 entry_example empty_store = (st1, Inr res) \<and> inserted res \<and>
     upsert_article 6 7 entry_example st1 = (st2, Inr \<lparr>article_id = article_id res, inserted = False, updated = False\<rparr>)"
proof -
  obtain st1 res where run: "upsert_article 5 7 entry_example empty_store = (st1, Inr res)" and "inserted res"
    using upsert_insert [of empty_store 7 entry_example 5] by (auto simp: empty_store_def)
  with upsert_idempotent [OF empty_store_ok run, of 6] show ?thesis by blast
qed

end
