(* ===== verification/Fetch_Task.thy ===== *)
theory Fetch_Task
  imports Feeds Robots Article_Store Http_Guarantees
begin

text \<open>
  The crawl task: \<^verbatim>\<open>fetch_feed\<close> of \<^verbatim>\<open>src/tasks/fetcher.py\<close> with its helpers,
  composed of the robots policy, the rate limit, the HTTP fetch and the queueing of one
  \<^verbatim>\<open>process_article\<close> message per entry.

  What the task reads from outside is in \<open>crawl_env\<close>: networks, clocks, random numbers,
  \<^verbatim>\<open>feedparser.parse\<close> and \<^verbatim>\<open>isoformat\<close>.  What it writes is in \<open>crawl_state\<close>: the
  feed table, the robots cache, the rate-limit keys and the messages queued.  One reading of the
  wall clock serves the whole task.
\<close>

section \<open>Publication times\<close>

definition is_leap :: "int \<Rightarrow> bool" where
  "is_leap y \<longleftrightarrow> y mod 4 = 0 \<and> (y mod 100 \<noteq> 0 \<or> y mod 400 = 0)"

definition days_in_month :: "int \<Rightarrow> int \<Rightarrow> int" where
  "days_in_month y m =
     (if m = 2 then (if is_leap y then 29 else 28) else if m \<in> {4, 6, 9, 11} then 30 else 31)"

definition days_before_year :: "int \<Rightarrow> int" where
  "days_before_year y = (y - 1) * 365 + (y - 1) div 4 - (y - 1) div 100 + (y - 1) div 400"

definition days_before_month :: "int \<Rightarrow> int \<Rightarrow> int" where
  "days_before_month y m = sum_list (map (days_in_month y) [1..m - 1])"

text \<open>\<^verbatim>\<open>datetime(..., tzinfo=UTC)\<close> as microseconds since 1970; \<open>None\<close> is the \<^verbatim>\<open>ValueError\<close>.\<close>

definition utc_datetime :: "int \<Rightarrow> int \<Rightarrow> int \<Rightarrow> int \<Rightarrow> int \<Rightarrow> int \<Rightarrow> int option" where
  "utc_datetime y mo d h mi s =
     (if 1 \<le> y \<and> y \<le> 9999 \<and> 1 \<le> mo \<and> mo \<le> 12 \<and> 1 \<le> d \<and> d \<le> days_in_month y mo
         \<and> 0 \<le> h \<and> h \<le> 23 \<and> 0 \<le> mi \<and> mi \<le> 59 \<and> 0 \<le> s \<and> s \<le> 59
      then Some (seconds ((days_before_year y + days_before_month y mo + d - 719163) * 86400 + h * 3600 + mi * 60 + s))
      else None)"

record feed_entry =
  fe_published_parsed :: "int list option"
  fe_updated_parsed :: "int list option"
  fe_content :: "ustr option list" \<comment> \<open>the \<open>value\<close> of each content element\<close>
  fe_link :: "ustr option"
  fe_title :: "ustr option"
  fe_summary :: "ustr option"
  fe_id :: "ustr option"
  fe_guid :: "ustr option"
  fe_author :: "ustr option"

text \<open>\<^verbatim>\<open>a or b\<close> on values that may be absent or empty.\<close>

definition or_list :: "'a list option \<Rightarrow> 'a list option \<Rightarrow> 'a list option" where
  "or_list a b = (case a of Some (x # xs) \<Rightarrow> a | _ \<Rightarrow> b)"

definition or_empty :: "'a list option \<Rightarrow> 'a list" where
  "or_empty a = (case a of None \<Rightarrow> [] | Some x \<Rightarrow> x)"

definition entry_published :: "feed_entry \<Rightarrow> int option" where
  "entry_published e =
     (case or_list (fe_published_parsed e) (fe_updated_parsed e) of
        None \<Rightarrow> None
      | Some parsed \<Rightarrow>
          (case take 6 parsed of
             [y, mo, d, h, mi, s] \<Rightarrow> utc_datetime y mo d h mi (min s 59)
           | _ \<Rightarrow> None))"

section \<open>Saving the outcome\<close>

definition failure_fields :: "feed_field list" where
  "failure_fields = [LastStatus, LastFetchedAt, ConsecutiveErrors, NextFetchAt, DisabledUntil]"

definition failed_feed :: "int \<Rightarrow> rat \<Rightarrow> feed_status \<Rightarrow> feed \<Rightarrow> feed" where
  "failed_feed now jitter status f =
     (let errors = f_consecutive_errors f + 1
      in f\<lparr>f_last_status := status, f_consecutive_errors := errors,
           f_next_fetch_at := next_attempt_at now (f_interval_seconds f) errors jitter,
           f_disabled_until := (if should_disable errors then Some (disabled_until now) else f_disabled_until f)\<rparr>)"

definition record_failure :: "int \<Rightarrow> rat \<Rightarrow> feed_status \<Rightarrow> feed \<Rightarrow> feed list \<Rightarrow> feed list" where
  "record_failure now jitter status f rows = save_fields now (failed_feed now jitter status f) failure_fields rows"

definition follow_permanent_redirect :: "text_env \<Rightarrow> fetch_result \<Rightarrow> feed \<Rightarrow> feed list \<Rightarrow> feed \<times> feed_field list" where
  "follow_permanent_redirect te result f rows =
     (case fr_permanent_url result of
        None \<Rightarrow> (f, [])
      | Some target \<Rightarrow>
          if target = [] then (f, [])
          else (case canonical_url te target of
             Inl _ \<Rightarrow> (f, []) \<comment> \<open>\<open>canonical_url\<close> raises nothing but \<open>UnsafeURLError\<close>\<close>
           | Inr new_url \<Rightarrow>
               if new_url = f_url f \<or> int (length new_url) > FEED_MAX_URL_CHARS \<or> has_key feed_url_key new_url rows
               then (f, []) else (f\<lparr>f_url := new_url\<rparr>, [Url])))"

datatype crawl_exn = CrawlHttp http_exn | CrawlIntegrityError

definition save_feed :: "int \<Rightarrow> feed \<Rightarrow> feed_field list \<Rightarrow> feed list \<Rightarrow> crawl_exn + feed list" where
  "save_feed now f names rows =
     (if uniq feed_url_key (save_fields now f names rows) then Inr (save_fields now f names rows)
      else if Url \<notin> set names then Inl CrawlIntegrityError
      else Inr (save_fields now f (filter (\<lambda>n. n \<noteq> Url) names) rows))"

section \<open>The task\<close>

record parsed_feed =
  pf_bozo :: bool
  pf_entries :: "feed_entry list"
  pf_title :: "ustr option"
  pf_link :: "ustr option"

record article_msg =
  am_feed_id :: int
  am_url :: ustr
  am_title :: ustr
  am_summary :: ustr
  am_body :: ustr
  am_guid :: ustr
  am_author :: "ustr option"
  am_published_at :: "ustr option"
  am_feed_language :: ustr

record ('z, 'c, 'd) crawl_env =
  ce_te :: text_env
  ce_he :: html_env
  ce_z :: "'z zlib"
  ce_cfg :: settings
  ce_now :: int \<comment> \<open>wall clock\<close>
  ce_mono :: int \<comment> \<open>monotonic clock\<close>
  ce_robots_net :: net_env
  ce_feed_net :: net_env
  ce_cache :: "('c, ustr) cache_ops"
  ce_redis :: "('d, unit) cache_ops"
  ce_jitter :: rat
  ce_spread :: rat \<comment> \<open>\<open>random.uniform(1, 2)\<close>\<close>
  ce_parse :: "bytes \<Rightarrow> ustr option \<Rightarrow> parsed_feed"
  ce_isoformat :: "int \<Rightarrow> ustr"

record ('c, 'd) crawl_state =
  cs_feeds :: "feed list"
  cs_cache :: 'c
  cs_redis :: 'd
  cs_messages :: "article_msg list"

datatype crawl_outcome = Gone | RateLimited | Status feed_status | Fetched int

definition entry_msg :: "('z, 'c, 'd) crawl_env \<Rightarrow> feed \<Rightarrow> ustr \<Rightarrow> feed_entry \<Rightarrow> article_msg option" where
  "entry_msg env f base_url e =
     (let link = or_empty (fe_link e) in
      case (if link = [] then Some [] else urljoin (ce_te env) base_url link) of
        None \<Rightarrow> None
      | Some url \<Rightarrow>
          Some \<lparr>am_feed_id = f_id f, am_url = url, am_title = or_empty (fe_title e), am_summary = or_empty (fe_summary e),
                am_body = (case fe_content e of [] \<Rightarrow> [] | c # _ \<Rightarrow> or_empty c),
                am_guid = or_empty (or_list (fe_id e) (fe_guid e)), am_author = fe_author e,
                am_published_at = map_option (ce_isoformat env) (entry_published e), am_feed_language = f_language f\<rparr>)"

text \<open>The loop over the entries: the messages queued before it ends or raises, and whether it ends.\<close>

fun queue_entries :: "('z, 'c, 'd) crawl_env \<Rightarrow> feed \<Rightarrow> ustr \<Rightarrow> feed_entry list \<Rightarrow> article_msg list \<times> bool" where
  "queue_entries env f base_url [] = ([], True)"
| "queue_entries env f base_url (e # es) =
     (case entry_msg env f base_url e of
        None \<Rightarrow> ([], False)
      | Some m \<Rightarrow> (case queue_entries env f base_url es of (ms, done) \<Rightarrow> (m # ms, done)))"

definition remove_bom :: "bytes \<Rightarrow> bytes" where
  "remove_bom body = (if take 3 body = [0xEF, 0xBB, 0xBF] then drop 3 body else body)"

definition fetched_feed :: "('z, 'c, 'd) crawl_env \<Rightarrow> fetch_result \<Rightarrow> parsed_feed \<Rightarrow> feed \<Rightarrow> feed" where
  "fetched_feed env result parsed f =
     (let title = plain_text (ce_he env) (or_empty (pf_title parsed)) 500; site_url = or_empty (pf_link parsed)
      in f\<lparr>f_title := (if title \<noteq> [] then title else f_title f),
           f_site_url := (if prefix (lit ''https://'') site_url \<or> prefix (lit ''http://'') site_url
                          then slice_to FEED_MAX_URL_CHARS site_url else f_site_url f),
           f_etag := or_list (fr_etag result) (f_etag f),
           f_last_modified := or_list (fr_last_modified result) (f_last_modified f),
           f_last_status := OK, f_consecutive_errors := 0, f_disabled_until := None\<rparr>)"

definition not_modified_feed :: "feed \<Rightarrow> feed" where
  "not_modified_feed f = f\<lparr>f_last_status := NOT_MODIFIED, f_consecutive_errors := 0, f_disabled_until := None\<rparr>"

text \<open>From the fetch result to the end of the task; \<open>f\<close> is the instance with its fetch time set.\<close>

definition on_not_modified :: "('z, 'c, 'd) crawl_env \<Rightarrow> fetch_result \<Rightarrow> feed \<Rightarrow> ('c, 'd) crawl_state
    \<Rightarrow> ('c, 'd) crawl_state \<times> (crawl_exn + crawl_outcome)" where
  "on_not_modified env result f st =
     (case follow_permanent_redirect (ce_te env) result f (cs_feeds st) of (f', moved) \<Rightarrow>
        (case save_feed (ce_now env) (not_modified_feed f')
                (moved @ [LastStatus, LastFetchedAt, ConsecutiveErrors, DisabledUntil]) (cs_feeds st) of
           Inl e \<Rightarrow> (st, Inl e)
         | Inr rows \<Rightarrow> (st\<lparr>cs_feeds := rows\<rparr>, Inr (Status NOT_MODIFIED))))"

definition on_failure :: "('z, 'c, 'd) crawl_env \<Rightarrow> feed_status \<Rightarrow> feed \<Rightarrow> ('c, 'd) crawl_state
    \<Rightarrow> ('c, 'd) crawl_state \<times> (crawl_exn + crawl_outcome)" where
  "on_failure env status f st =
     (st\<lparr>cs_feeds := record_failure (ce_now env) (ce_jitter env) status f (cs_feeds st)\<rparr>, Inr (Status status))"

definition ok_fields :: "feed_field list" where
  "ok_fields = [Title, SiteUrl, Etag, LastModified, LastStatus, LastFetchedAt, ConsecutiveErrors, DisabledUntil]"

definition on_ok :: "('z, 'c, 'd) crawl_env \<Rightarrow> fetch_result \<Rightarrow> bytes \<Rightarrow> feed \<Rightarrow> ('c, 'd) crawl_state
    \<Rightarrow> ('c, 'd) crawl_state \<times> (crawl_exn + crawl_outcome)" where
  "on_ok env result body f st =
     (let parsed = ce_parse env (remove_bom body) (if truthy (fr_content_type result) then fr_content_type result else None);
          base_url = (if truthy (fr_url result) then or_empty (fr_url result) else f_url f);
          limit = MAX_ENTRIES_PER_FETCH (ce_cfg env)
      in if pf_bozo parsed \<and> pf_entries parsed = [] then on_failure env PARSE_ERROR f st
         else (case queue_entries env f base_url (slice_to limit (pf_entries parsed)) of
             (ms, False) \<Rightarrow> (st\<lparr>cs_messages := cs_messages st @ ms\<rparr>, Inl (CrawlHttp PlainValueError))
           | (ms, True) \<Rightarrow>
               let st1 = st\<lparr>cs_messages := cs_messages st @ ms\<rparr>
               in (case follow_permanent_redirect (ce_te env) result f (cs_feeds st) of (f', moved) \<Rightarrow>
                     (case save_feed (ce_now env) (fetched_feed env result parsed f') (moved @ ok_fields) (cs_feeds st) of
                        Inl e \<Rightarrow> (st1, Inl e)
                      | Inr rows \<Rightarrow> (st1\<lparr>cs_feeds := rows\<rparr>, Inr (Fetched (min (int (length (pf_entries parsed))) limit)))))))"

definition after_fetch :: "('z, 'c, 'd) crawl_env \<Rightarrow> fetch_result \<Rightarrow> feed \<Rightarrow> ('c, 'd) crawl_state
    \<Rightarrow> ('c, 'd) crawl_state \<times> (crawl_exn + crawl_outcome)" where
  "after_fetch env result f st =
     (if fr_status result = NOT_MODIFIED then on_not_modified env result f st
      else (case (fr_status result, fr_body result) of
          (OK, Some body) \<Rightarrow> on_ok env result body f st
        | (status, _) \<Rightarrow> on_failure env status f st))"

definition fetch_feed :: "('z, 'c, 'd) crawl_env \<Rightarrow> int \<Rightarrow> ('c, 'd) crawl_state
    \<Rightarrow> ('c, 'd) crawl_state \<times> (crawl_exn + crawl_outcome)" where
  "fetch_feed env feed_id st =
     (let now = ce_now env; cfg = ce_cfg env in
      case find (\<lambda>r. f_id r = feed_id \<and> \<not> f_is_deleted r \<and> f_is_active r) (cs_feeds st) of
        None \<Rightarrow> (st, Inr Gone)
      | Some f \<Rightarrow>
          (case is_allowed (ce_te env) (ce_z env) (ce_robots_net env) (ce_cache env) now (USER_AGENT cfg)
                  (ALLOW_PLAIN_HTTP cfg) (cs_cache st) (f_url f) None of
             (c, Inl e) \<Rightarrow> (st\<lparr>cs_cache := c\<rparr>, Inl (CrawlHttp e))
           | (c, Inr False) \<Rightarrow>
               (st\<lparr>cs_cache := c,
                   cs_feeds := save_fields now (f\<lparr>f_last_status := ROBOTS_BLOCKED, f_last_fetched_at := Some now\<rparr>)
                                 [LastStatus, LastFetchedAt] (cs_feeds st)\<rparr>, Inr (Status ROBOTS_BLOCKED))
           | (c, Inr True) \<Rightarrow>
               let st1 = st\<lparr>cs_cache := c\<rparr> in
               (case try_acquire (ce_te env) (ce_redis env) now (PER_DOMAIN_MIN_INTERVAL cfg) (cs_redis st) (f_url f) None of
                  None \<Rightarrow> (st1, Inl (CrawlHttp PlainValueError))
                | Some (d, False) \<Rightarrow>
                    (let later = now + timedelta_seconds (of_int (PER_DOMAIN_MIN_INTERVAL cfg) * ce_spread env)
                     in (st1\<lparr>cs_redis := d,
                             cs_feeds := save_fields now (f\<lparr>f_next_fetch_at := later\<rparr>) [NextFetchAt] (cs_feeds st)\<rparr>,
                         Inr RateLimited))
                | Some (d, True) \<Rightarrow>
                    let st2 = st1\<lparr>cs_redis := d\<rparr> in
                    (case fetch (ce_te env) (ce_z env) (ce_feed_net env) cfg (ce_mono env) (f_url f) (f_etag f) (f_last_modified f) of
                       Inl e \<Rightarrow> (st2, Inl (CrawlHttp e))
                     | Inr result \<Rightarrow> after_fetch env result (f\<lparr>f_last_fetched_at := Some now\<rparr>) st2))))"

section \<open>What a crawl may change\<close>

text \<open>
  The table after a crawl of feed \<open>i\<close>: consistent, \<open>settings_of\<close> untouched in every row, every other
  row untouched as a whole, and the URL of the row either kept or one that \<open>may_move\<close> allows for it.
\<close>

definition crawl_safe :: "(feed \<Rightarrow> ustr \<Rightarrow> bool) \<Rightarrow> int \<Rightarrow> feed list \<Rightarrow> feed list \<Rightarrow> bool" where
  "crawl_safe may_move i rows rows' \<longleftrightarrow>
     feeds_ok rows' \<and> map settings_of rows' = map settings_of rows
     \<and> list_all2 (\<lambda>r r'. r' = r \<or> f_id r = i \<and> (f_url r' = f_url r \<or> may_move r (f_url r'))) rows rows'"

text \<open>Where a fetch result lets the feed move: the canonical form of the reported target, short enough
  for the column and not the URL of any row.\<close>

definition result_target :: "text_env \<Rightarrow> fetch_result \<Rightarrow> feed list \<Rightarrow> ustr \<Rightarrow> bool" where
  "result_target te result rows u \<longleftrightarrow>
     (\<exists>target. fr_permanent_url result = Some target \<and> canonical_url te target = Inr u)
     \<and> int (length u) \<le> FEED_MAX_URL_CHARS \<and> u \<notin> f_url ` set rows"

definition crawl_names :: "feed_field list \<Rightarrow> bool" where
  "crawl_names names \<longleftrightarrow> IsActive \<notin> set names \<and> IsDeleted \<notin> set names"

lemma crawl_safe_refl: "feeds_ok rows \<Longrightarrow> crawl_safe may_move i rows rows"
  by (simp add: crawl_safe_def list.rel_refl)

lemma crawl_safe_mono:
  assumes "crawl_safe p i rows rows'" and "\<And>r u. r \<in> set rows \<Longrightarrow> f_id r = i \<Longrightarrow> p r u \<Longrightarrow> q r u"
  shows "crawl_safe q i rows rows'"
proof -
  have "list_all2 (\<lambda>r r'. r' = r \<or> f_id r = i \<and> (f_url r' = f_url r \<or> q r (f_url r'))) rows rows'"
    by (rule list.rel_mono_strong [of "\<lambda>r r'. r' = r \<or> f_id r = i \<and> (f_url r' = f_url r \<or> p r (f_url r'))"])
      (use assms in \<open>auto simp: crawl_safe_def\<close>)
  with assms(1) show ?thesis by (simp add: crawl_safe_def)
qed

lemma save_fields_safe:
  assumes "feeds_ok rows" and "crawl_names names"
    and "Url \<notin> set names \<or> uniq feed_url_key (save_fields now f names rows) \<and> (\<forall>r. may_move r (f_url f))"
  shows "crawl_safe may_move (f_id f) rows (save_fields now f names rows)"
proof -
  have "uniq feed_id_key (save_fields now f names rows)"
    using assms(1) by (simp add: feeds_ok_def save_fields_def save_id.uniq_kept)
  then have "feeds_ok (save_fields now f names rows)"
    using assms(1,3) save_fields_ok by (auto simp: feeds_ok_def)
  moreover have "map settings_of (save_fields now f names rows) = map settings_of rows"
    using assms(2) by (simp add: save_fields_def map_update_where crawl_names_def)
  moreover have "f_url (copy_fields now f names r) = f_url r \<or> may_move r (f_url (copy_fields now f names r))" for r
    using assms(3) copy_fields_url_cases [of now f names r] by auto
  then have "list_all2 (\<lambda>r r'. r' = r \<or> f_id r = f_id f \<and> (f_url r' = f_url r \<or> may_move r (f_url r')))
      rows (save_fields now f names rows)"
    unfolding save_fields_def by (intro list_all2_update_where) simp
  ultimately show ?thesis by (simp add: crawl_safe_def)
qed

lemma save_feed_safe:
  assumes "feeds_ok rows" and "crawl_names names" and "save_feed now f names rows = Inr rows'"
    and "Url \<in> set names \<Longrightarrow> \<forall>r. may_move r (f_url f)"
  shows "crawl_safe may_move (f_id f) rows rows'"
  using assms save_fields_safe [OF assms(1), of "filter (\<lambda>n. n \<noteq> Url) names"] save_fields_safe [OF assms(1,2)]
  by (auto simp: save_feed_def crawl_names_def split: if_splits)

text \<open>\<^verbatim>\<open>_save\<close> never lets an \<^verbatim>\<open>IntegrityError\<close> out.\<close>

lemma save_feed_total: "feeds_ok rows \<Longrightarrow> \<exists>rows'. save_feed now f names rows = Inr rows'"
  using save_fields_ok [of rows names now f] by (auto simp: save_feed_def feeds_ok_def)

lemma follow_keeps:
  assumes "follow_permanent_redirect te result f rows = (f', moved)"
  shows "f_id f' = f_id f" and "set moved \<subseteq> {Url}" and "Url \<in> set moved \<Longrightarrow> result_target te result rows (f_url f')"
  using assms by (auto simp: follow_permanent_redirect_def result_target_def has_key_iff feed_url_key_def
      split: option.splits sum.splits if_splits)

lemma queue_entries_bound:
  assumes "queue_entries env f base es = (ms, fin)"
  shows "length ms \<le> length es" and "\<forall>m \<in> set ms. am_feed_id m = f_id f"
  using assms
proof (induction es arbitrary: ms fin)
  case (Cons e es)
  { case 1 with Cons show ?case by (fastforce split: option.splits prod.splits) }
  { case 2
    have "\<And>m. entry_msg env f base e = Some m \<Longrightarrow> am_feed_id m = f_id f"
      by (auto simp: entry_msg_def Let_def split: option.splits)
    with 2 Cons show ?case by (fastforce split: option.splits prod.splits) }
qed auto

text \<open>Feeds, messages and result of a run, relative to the start.\<close>

definition run_safe :: "(feed \<Rightarrow> ustr \<Rightarrow> bool) \<Rightarrow> int \<Rightarrow> int \<Rightarrow> ('c, 'd) crawl_state \<Rightarrow> ('c, 'd) crawl_state \<Rightarrow> bool" where
  "run_safe may_move limit i st st' \<longleftrightarrow>
     crawl_safe may_move i (cs_feeds st) (cs_feeds st')
     \<and> (\<exists>ms. cs_messages st' = cs_messages st @ ms \<and> int (length ms) \<le> max 0 limit \<and> list_all (\<lambda>m. am_feed_id m = i) ms)"

lemma run_safeI:
  "crawl_safe may_move i (cs_feeds st) (cs_feeds st') \<Longrightarrow> cs_messages st' = cs_messages st \<Longrightarrow> run_safe may_move limit i st st'"
  by (auto simp: run_safe_def)

lemma f_url_simps [simp]:
  "f_url (not_modified_feed f) = f_url f" "f_url (fetched_feed env result parsed f) = f_url f"
  by (simp_all add: not_modified_feed_def fetched_feed_def Let_def)

lemma f_id_simps [simp]:
  "f_id (failed_feed now jitter status f) = f_id f" "f_id (not_modified_feed f) = f_id f"
  "f_id (fetched_feed env result parsed f) = f_id f"
  by (simp_all add: failed_feed_def not_modified_feed_def fetched_feed_def Let_def)

lemma on_failure_safe:
  assumes "feeds_ok (cs_feeds st)"
  shows "run_safe may_move limit (f_id f) st (fst (on_failure env status f st))"
  using save_fields_safe [OF assms, of failure_fields "ce_now env" "failed_feed (ce_now env) (ce_jitter env) status f"]
  by (intro run_safeI) (simp_all add: on_failure_def record_failure_def crawl_names_def failure_fields_def)

lemma on_not_modified_safe:
  assumes "feeds_ok (cs_feeds st)"
  shows "run_safe (\<lambda>_. result_target (ce_te env) result (cs_feeds st)) limit (f_id f) st (fst (on_not_modified env result f st))"
proof -
  obtain f' moved where fo: "follow_permanent_redirect (ce_te env) result f (cs_feeds st) = (f', moved)"
    by (cases "follow_permanent_redirect (ce_te env) result f (cs_feeds st)")
  let ?names = "moved @ [LastStatus, LastFetchedAt, ConsecutiveErrors, DisabledUntil]"
  obtain rows where rows: "save_feed (ce_now env) (not_modified_feed f') ?names (cs_feeds st) = Inr rows"
    using save_feed_total [OF assms] by blast
  have "crawl_names ?names" using follow_keeps(2) [OF fo] by (auto simp: crawl_names_def)
  from save_feed_safe [OF assms this rows, of "\<lambda>_. result_target (ce_te env) result (cs_feeds st)"] follow_keeps(1,3) [OF fo]
  show ?thesis by (intro run_safeI) (simp_all add: on_not_modified_def fo rows)
qed

lemma on_ok_safe:
  assumes "feeds_ok (cs_feeds st)"
  shows "run_safe (\<lambda>_. result_target (ce_te env) result (cs_feeds st)) (MAX_ENTRIES_PER_FETCH (ce_cfg env)) (f_id f) st
    (fst (on_ok env result body f st))"
proof -
  let ?limit = "MAX_ENTRIES_PER_FETCH (ce_cfg env)"
  let ?parsed = "ce_parse env (remove_bom body) (if truthy (fr_content_type result) then fr_content_type result else None)"
  let ?base = "if truthy (fr_url result) then or_empty (fr_url result) else f_url f"
  obtain ms fin where q: "queue_entries env f ?base (slice_to ?limit (pf_entries ?parsed)) = (ms, fin)"
    by (cases "queue_entries env f ?base (slice_to ?limit (pf_entries ?parsed))")
  have ms: "int (length ms) \<le> max 0 ?limit" "list_all (\<lambda>m. am_feed_id m = f_id f) ms"
    using queue_entries_bound [OF q] by (auto simp: slice_to_take list_all_iff)
  obtain f' moved where fo: "follow_permanent_redirect (ce_te env) result f (cs_feeds st) = (f', moved)"
    by (cases "follow_permanent_redirect (ce_te env) result f (cs_feeds st)")
  obtain rows where rows: "save_feed (ce_now env) (fetched_feed env result ?parsed f') (moved @ ok_fields) (cs_feeds st) = Inr rows"
    using save_feed_total [OF assms] by blast
  have "crawl_names (moved @ ok_fields)" using follow_keeps(2) [OF fo] by (auto simp: crawl_names_def ok_fields_def)
  from save_feed_safe [OF assms this rows, of "\<lambda>_. result_target (ce_te env) result (cs_feeds st)"] follow_keeps(1,3) [OF fo]
  have "crawl_safe (\<lambda>_. result_target (ce_te env) result (cs_feeds st)) (f_id f) (cs_feeds st) rows"
    by (simp add: ok_fields_def)
  with ms q on_failure_safe [OF assms, of _ ?limit f env PARSE_ERROR] crawl_safe_refl [OF assms] show ?thesis
    by (auto simp: on_ok_def Let_def fo rows run_safe_def split: bool.splits)
qed

lemma after_fetch_safe:
  assumes "feeds_ok (cs_feeds st)"
  shows "run_safe (\<lambda>_. result_target (ce_te env) result (cs_feeds st)) (MAX_ENTRIES_PER_FETCH (ce_cfg env)) (f_id f) st
    (fst (after_fetch env result f st))"
  using assms
  by (auto simp: after_fetch_def on_not_modified_safe on_ok_safe on_failure_safe split: feed_status.splits option.splits)

text \<open>
  A permanent move, told from the wire: the feed was requested under its URL, every answer on the
  way was a 301 or 308, at least one, and the new URL is the canonical form of the address that
  answered in the end.
\<close>

definition permanent_move :: "('z, 'c, 'd) crawl_env \<Rightarrow> feed list \<Rightarrow> feed \<Rightarrow> ustr \<Rightarrow> bool" where
  "permanent_move env rows r u \<longleftrightarrow>
     (\<exists>log resp. request (ce_te env) (ce_z env) (ce_feed_net env) (fetch_config (ce_cfg env) (f_etag r) (f_last_modified r))
          (ce_mono env) (seconds (HTTP_TIMEOUT (ce_cfg env))) 5 (lit ''GET'') (f_url r) None = (log, Inr resp)
        \<and> 1 < length log
        \<and> (\<forall>k < length log - 1. \<exists>answer. exchange (ce_feed_net env) k (log ! k) = Inr answer \<and> rs_status answer \<in> {301, 308})
        \<and> canonical_url (ce_te env) (resp_url resp) = Inr u)
     \<and> int (length u) \<le> FEED_MAX_URL_CHARS \<and> u \<notin> f_url ` set rows"

lemma fetch_permanent_move:
  assumes "fetch (ce_te env) (ce_z env) (ce_feed_net env) (ce_cfg env) (ce_mono env) (f_url r) (f_etag r) (f_last_modified r) = Inr result"
    and "result_target (ce_te env) result rows u"
  shows "permanent_move env rows r u"
proof -
  let ?run = "request (ce_te env) (ce_z env) (ce_feed_net env) (fetch_config (ce_cfg env) (f_etag r) (f_last_modified r))
     (ce_mono env) (seconds (HTTP_TIMEOUT (ce_cfg env))) 5 (lit ''GET'') (f_url r) None"
  obtain target where t: "fr_permanent_url result = Some target" "canonical_url (ce_te env) target = Inr u"
    using assms(2) by (auto simp: result_target_def)
  obtain resp where resp: "snd ?run = Inr resp" "permanent_url resp = Some target"
    using assms(1) t(1) by (auto simp: fetch_def fetch_outcome_def bare_result_def split: sum.splits http_exn.splits if_splits)
  then have run: "?run = (fst ?run, Inr resp)" by (metis prod.collapse)
  show ?thesis
    using request_permanent_url [OF run, of target] resp(2) t(2) assms(2) run
    unfolding permanent_move_def result_target_def by blast
qed

text \<open>C19: Crawling a feed, whatever the servers answer and whether or not the task raises, leaves
  every other feed as it is.  Of the crawled row it keeps id, language, interval, active and deleted
  flag and creation time; its URL, which users set too, changes only on a permanent move: the server
  of the stored URL answered with nothing but 301 and 308 redirects, the new URL is the canonical form
  of the address they led to, fits the column and is not the URL of any feed, deleted ones included.
  Ids and URLs stay unique, and at most \<^verbatim>\<open>MAX_ENTRIES_PER_FETCH\<close> articles are queued, all for that feed.\<close>

theorem fetch_feed_confined:
  assumes "feeds_ok (cs_feeds st)"
  shows "run_safe (permanent_move env (cs_feeds st)) (MAX_ENTRIES_PER_FETCH (ce_cfg env)) i st (fst (fetch_feed env i st))"
proof (cases "find (\<lambda>r. f_id r = i \<and> \<not> f_is_deleted r \<and> f_is_active r) (cs_feeds st)")
  case None
  then show ?thesis
    using crawl_safe_refl [OF assms] by (intro run_safeI) (simp_all add: fetch_feed_def Let_def)
next
  case (Some f)
  then have i: "f_id f = i" and f: "f \<in> set (cs_feeds st)" using find_SomeD by fastforce+
  let ?limit = "MAX_ENTRIES_PER_FETCH (ce_cfg env)" and ?move = "permanent_move env (cs_feeds st)"
  have none: "run_safe ?move ?limit i st st'" if "cs_feeds st' = cs_feeds st" "cs_messages st' = cs_messages st" for st'
    using crawl_safe_refl [OF assms] that by (intro run_safeI) simp_all
  have save: "run_safe ?move ?limit i st st'"
    if "cs_feeds st' = save_fields now g names (cs_feeds st)" "cs_messages st' = cs_messages st"
      "f_id g = i" "crawl_names names" "Url \<notin> set names" for st' now g names
    using save_fields_safe [OF assms that(4), of now g] that by (intro run_safeI) simp_all
  have same: "r = f" if "r \<in> set (cs_feeds st)" "f_id r = i" for r
    using that f i assms uniq_same_row [of feed_id_key "cs_feeds st" r f i] by (simp add: feeds_ok_def feed_id_key_def)
  have after: "run_safe ?move ?limit i st (fst (after_fetch env result g st'))"
    if "cs_feeds st' = cs_feeds st" "cs_messages st' = cs_messages st" "f_id g = i"
      "fetch (ce_te env) (ce_z env) (ce_feed_net env) (ce_cfg env) (ce_mono env) (f_url f) (f_etag f) (f_last_modified f) = Inr result"
    for result g st'
    using after_fetch_safe [of st' env result g] assms that(1-3) same fetch_permanent_move [OF that(4)]
    by (auto simp: run_safe_def elim!: crawl_safe_mono)
  obtain c a where al: "is_allowed (ce_te env) (ce_z env) (ce_robots_net env) (ce_cache env) (ce_now env) (USER_AGENT (ce_cfg env))
      (ALLOW_PLAIN_HTTP (ce_cfg env)) (cs_cache st) (f_url f) None = (c, a)" by fastforce
  have names: "crawl_names [LastStatus, LastFetchedAt]" "crawl_names [NextFetchAt]" by (simp_all add: crawl_names_def)
  show ?thesis
    unfolding fetch_feed_def Let_def Some option.case al prod.case
    by (auto simp: i names intro: none after save [where names = "[LastStatus, LastFetchedAt]"] save [where names = "[NextFetchAt]"]
        split: sum.split bool.split option.split)
qed

definition feed_example :: feed where
  "feed_example = \<lparr>f_id = 7, f_url = lit ''https://a.b/rss'', f_site_url = [], f_title = [], f_language = lit ''simple'', f_etag = None,
     f_last_modified = None, f_interval_seconds = 1800, f_last_fetched_at = None, f_next_fetch_at = 0, f_last_status = NEVER,
     f_consecutive_errors = 5, f_disabled_until = None, f_is_active = True, f_is_deleted = False, f_created_at = 0, f_updated_at = 0\<rparr>"

definition entry_plain :: feed_entry where
  "entry_plain = \<lparr>fe_published_parsed = Some [2024, 2, 29, 12, 0, 60, 0, 0, 0], fe_updated_parsed = None, fe_content = [],
     fe_link = Some (lit ''/x''), fe_title = None, fe_summary = None, fe_id = None, fe_guid = None, fe_author = None\<rparr>"

definition env_example :: "(unit, ustr \<rightharpoonup> ustr \<times> int, ustr \<rightharpoonup> unit \<times> int) crawl_env" where
  "env_example = \<lparr>ce_te = te_ascii, ce_he = he_example, ce_z = zlib_copy, ce_cfg = cfg_example, ce_now = 0, ce_mono = 0,
     ce_robots_net = net_silent, ce_feed_net = net_silent, ce_cache = map_cache, ce_redis = map_cache, ce_jitter = 1, ce_spread = 1,
     ce_parse = (\<lambda>_ _. \<lparr>pf_bozo = False, pf_entries = [entry_plain, entry_plain\<lparr>fe_link := Some (lit ''http://['')\<rparr>, entry_plain],
                          pf_title = None, pf_link = None\<rparr>),
     ce_isoformat = (\<lambda>_. lit ''t'')\<rparr>"

definition crawl_start :: "(ustr \<rightharpoonup> ustr \<times> int, ustr \<rightharpoonup> unit \<times> int) crawl_state" where
  "crawl_start = \<lparr>cs_feeds = [feed_example], cs_cache = Map.empty, cs_redis = Map.empty, cs_messages = []\<rparr>"

lemma crawl_start_ok: "feeds_ok (cs_feeds crawl_start)"
  by (simp add: feeds_ok_def crawl_start_def uniq_def feed_id_key_def feed_url_key_def)

theorem fetch_feed_confined_witness:
  "feeds_ok (cs_feeds crawl_start)
   \<and> run_safe (permanent_move env_example (cs_feeds crawl_start)) (MAX_ENTRIES_PER_FETCH (ce_cfg env_example)) 7 crawl_start
       (fst (fetch_feed env_example 7 crawl_start))"
  using fetch_feed_confined [OF crawl_start_ok] crawl_start_ok by blast

section \<open>Error counting\<close>

lemma save_fields_row:
  assumes "feeds_ok rows" and "r \<in> set rows" and "f_id r = f_id f"
  shows "copy_fields now f names r \<in> set (save_fields now f names rows)"
  using assms by (force simp: save_fields_def set_update_where)

text \<open>C21: A failed fetch adds one to the feed's error count, records the status and postpones the
  next attempt with backoff; from the sixth error in a row on, it also pauses the feed for 24 hours.
  A status of not-modified resets the count and ends the pause.\<close>

theorem after_fetch_error_count:
  assumes "feeds_ok (cs_feeds st)" and "r \<in> set (cs_feeds st)" and "f = r\<lparr>f_last_fetched_at := Some (ce_now env)\<rparr>"
    and "fr_status result \<noteq> OK"
  shows "\<exists>r' \<in> set (cs_feeds (fst (after_fetch env result f st))). f_id r' = f_id r \<and> f_last_status r' = fr_status result
    \<and> (if fr_status result = NOT_MODIFIED then f_consecutive_errors r' = 0 \<and> f_disabled_until r' = None
       else f_consecutive_errors r' = f_consecutive_errors r + 1
         \<and> f_next_fetch_at r' = next_attempt_at (ce_now env) (f_interval_seconds r) (f_consecutive_errors r + 1) (ce_jitter env)
         \<and> f_disabled_until r' = (if f_consecutive_errors r + 1 \<ge> 6 then Some (ce_now env + seconds 86400) else f_disabled_until r))"
proof (cases "fr_status result = NOT_MODIFIED")
  case False
  let ?g = "failed_feed (ce_now env) (ce_jitter env) (fr_status result) f"
  have run: "after_fetch env result f st = on_failure env (fr_status result) f st"
    using False assms(4) by (auto simp: after_fetch_def split: feed_status.splits)
  have "copy_fields (ce_now env) ?g failure_fields r \<in> set (cs_feeds (fst (after_fetch env result f st)))"
    unfolding run on_failure_def record_failure_def
    using save_fields_row [OF assms(1,2), of ?g "ce_now env" failure_fields] by (simp add: assms(3))
  then show ?thesis
    using False assms(3)
    by (intro bexI) (auto simp: copy_fields_def failure_fields_def failed_feed_def Let_def should_disable_def
        MAX_ERROR_EXPONENT_def disabled_until_def DISABLE_HOURS_def)
next
  case True
  obtain f' moved where fo: "follow_permanent_redirect (ce_te env) result f (cs_feeds st) = (f', moved)"
    by (cases "follow_permanent_redirect (ce_te env) result f (cs_feeds st)")
  let ?fs = "[LastStatus, LastFetchedAt, ConsecutiveErrors, DisabledUntil]"
  let ?g = "not_modified_feed f'"
  have id: "f_id r = f_id ?g" using follow_keeps(1) [OF fo] assms(3) by simp
  have moved: "moved = [] \<or> moved = [Url]"
    using fo by (auto simp: follow_permanent_redirect_def split: option.splits sum.splits if_splits)
  define names where "names = (if uniq feed_url_key (save_fields (ce_now env) ?g (moved @ ?fs) (cs_feeds st)) then moved @ ?fs else ?fs)"
  have "save_feed (ce_now env) ?g (moved @ ?fs) (cs_feeds st) = Inr (save_fields (ce_now env) ?g names (cs_feeds st))"
    using save_feed_total [OF assms(1), of "ce_now env" ?g "moved @ ?fs"] moved by (auto simp: save_feed_def names_def split: if_splits)
  then have "cs_feeds (fst (after_fetch env result f st)) = save_fields (ce_now env) ?g names (cs_feeds st)"
    using True by (simp add: after_fetch_def on_not_modified_def fo)
  moreover have "copy_fields (ce_now env) ?g names r \<in> set (save_fields (ce_now env) ?g names (cs_feeds st))"
    by (rule save_fields_row [OF assms(1,2) id])
  ultimately show ?thesis
    using True moved by (intro bexI) (auto simp: names_def copy_fields_def not_modified_feed_def)
qed

theorem after_fetch_error_count_witness:
  "\<exists>r' \<in> set (cs_feeds (fst (after_fetch env_example (bare_result NETWORK_ERROR None)
      (feed_example\<lparr>f_last_fetched_at := Some (ce_now env_example)\<rparr>) crawl_start))).
     f_consecutive_errors r' = 6 \<and> f_disabled_until r' = Some (ce_now env_example + seconds 86400)"
proof -
  have "feed_example \<in> set (cs_feeds crawl_start)" by (simp add: crawl_start_def)
  from after_fetch_error_count [OF crawl_start_ok this refl, of "bare_result NETWORK_ERROR None" env_example] show ?thesis
    by (auto simp: bare_result_def feed_example_def)
qed

section \<open>Entries with a malformed link\<close>

lemma queue_entries_split:
  "queue_entries env f base (xs @ ys) =
     (case queue_entries env f base xs of (ms, False) \<Rightarrow> (ms, False)
      | (ms, True) \<Rightarrow> (case queue_entries env f base ys of (ns, done) \<Rightarrow> (ms @ ns, done)))"
  by (induction xs) (auto split: option.splits prod.splits bool.splits)

text \<open>C39: One entry whose link the standard library cannot parse stops the crawl of the whole feed:
  the task raises a plain \<^verbatim>\<open>ValueError\<close>, no later entry is queued, and neither success nor
  failure is recorded in the feed's row.\<close>

theorem malformed_entry_link_aborts:
  assumes "fr_status result = OK" and "fr_body result = Some body" and "fr_url result = Some base" and "base \<noteq> []"
    and "pf_entries (ce_parse env (remove_bom body) (if truthy (fr_content_type result) then fr_content_type result else None)) =
         good @ bad # rest"
    and "int (length good) < MAX_ENTRIES_PER_FETCH (ce_cfg env)"
    and "entry_msg env f base bad = None"
  shows "\<exists>ms. after_fetch env result f st = (st\<lparr>cs_messages := cs_messages st @ ms\<rparr>, Inl (CrawlHttp PlainValueError))
    \<and> length ms \<le> length good"
proof -
  let ?limit = "MAX_ENTRIES_PER_FETCH (ce_cfg env)"
  obtain n where "nat ?limit - length good = Suc n" using assms(6) by (cases "nat ?limit - length good") auto
  then have cut: "slice_to ?limit (good @ bad # rest) = good @ bad # take n rest"
    using assms(6) by (simp add: slice_to_take)
  obtain ms fin where q: "queue_entries env f base good = (ms, fin)" by (cases "queue_entries env f base good")
  then have "queue_entries env f base (good @ bad # take n rest) = (ms, False)"
    using assms(7) by (simp add: queue_entries_split split: bool.splits)
  then show ?thesis
    using assms(1-5) queue_entries_bound(1) [OF q]
    by (auto simp: after_fetch_def on_ok_def Let_def truthy_def or_empty_def cut)
qed

theorem malformed_entry_link_aborts_witness:
  "\<exists>ms. after_fetch env_example ((bare_result OK (Some 200))\<lparr>fr_body := Some [], fr_url := Some (lit ''https://a.b/rss'')\<rparr>)
      feed_example crawl_start =
    (crawl_start\<lparr>cs_messages := cs_messages crawl_start @ ms\<rparr>, Inl (CrawlHttp PlainValueError)) \<and> length ms \<le> 1"
proof -
  have "urljoin te_ascii (lit ''https://a.b/rss'') (lit ''http://['') = None" by code_simp
  then have bad: "entry_msg env_example feed_example (lit ''https://a.b/rss'') (entry_plain\<lparr>fe_link := Some (lit ''http://['')\<rparr>) = None"
    by (simp add: entry_msg_def env_example_def or_empty_def)
  show ?thesis
    using malformed_entry_link_aborts [of "(bare_result OK (Some 200))\<lparr>fr_body := Some [], fr_url := Some (lit ''https://a.b/rss'')\<rparr>"
        "[]" "lit ''https://a.b/rss''" env_example "[entry_plain]" _ "[entry_plain]", OF _ _ _ _ _ _ bad, of crawl_start]
    by (simp add: bare_result_def env_example_def cfg_example_def truthy_def)
qed

end
