(* ===== verification/Article_Pipeline.thy ===== *)
theory Article_Pipeline
  imports Article_Store
begin

text \<open>
  Many workers run \<^verbatim>\<open>process_article\<close> at the same time.  A worker's state is the statement it
  runs next; \<open>advance\<close> runs one statement.  A step of the pipeline advances some worker, kills
  one, starts one, or deletes a feed with its articles.  The tasks that reached the queue are
  collected in \<open>pl_queued\<close>.
\<close>

datatype worker =
    AtInsert int normalized_entry
  | AtUpdate int normalized_entry
  | AtTouch int normalized_entry
  | AtClaim int
  | AtSend int
  | AtRelease int
  | Stopped

text \<open>One statement of \<^verbatim>\<open>upsert_article\<close>: where it succeeds, the worker goes on to claim the article; a row
  that is gone by the time it is touched is the \<^verbatim>\<open>RuntimeError\<close>.\<close>

fun upsert_statement :: "int \<Rightarrow> worker \<Rightarrow> art_store \<Rightarrow> art_store \<times> worker" where
  "upsert_statement now (AtInsert f e) st =
     (case insert_article now f e st of
        (st', Some aid) \<Rightarrow> (st', AtClaim aid)
      | (st', None) \<Rightarrow> (st', AtUpdate f e))"
| "upsert_statement now (AtUpdate f e) st =
     (case update_edited now f e st of
        (st', Inr (Some aid)) \<Rightarrow> (st', AtClaim aid)
      | (st', _) \<Rightarrow> (st', AtTouch f e))"
| "upsert_statement now (AtTouch f e) st =
     (case touch_existing now f e st of
        (st', Some aid) \<Rightarrow> (st', AtClaim aid)
      | (st', None) \<Rightarrow> (st', Stopped))"
| "upsert_statement now w st = (st, w)"

text \<open>One statement of the task: of its upsert, then the claim, the signal and, where the signal fails, the release.\<close>

fun advance :: "int \<Rightarrow> bool \<Rightarrow> worker \<Rightarrow> art_store \<Rightarrow> art_store \<times> worker \<times> queued_task list" where
  "advance now broker_up (AtClaim aid) st =
     (case claim_processing now aid st of
        (st', True) \<Rightarrow> (st', AtSend aid, [])
      | (st', False) \<Rightarrow> (st', Stopped, []))"
| "advance now broker_up (AtSend aid) st =
     (if broker_up then (st, Stopped, on_article_created aid) else (st, AtRelease aid, []))"
| "advance now broker_up (AtRelease aid) st = (release_processing aid st, Stopped, [])"
| "advance now broker_up w st = (case upsert_statement now w st of (st', w') \<Rightarrow> (st', w', []))"

text \<open>A worker alone, run until it stops: at most five statements.\<close>

fun run_worker :: "nat \<Rightarrow> int \<Rightarrow> bool \<Rightarrow> worker \<Rightarrow> art_store \<Rightarrow> art_store \<times> worker \<times> queued_task list" where
  "run_worker 0 now broker_up w st = (st, w, [])"
| "run_worker (Suc n) now broker_up w st =
     (case advance now broker_up w st of (st1, w1, q1) \<Rightarrow>
        (case run_worker n now broker_up w1 st1 of (st2, w2, q2) \<Rightarrow> (st2, w2, q1 @ q2)))"

record pipeline =
  pl_store :: art_store
  pl_workers :: "worker list"
  pl_queued :: "queued_task list"

definition drop_feed :: "int \<Rightarrow> art_store \<Rightarrow> art_store" where
  "drop_feed f st = st\<lparr>art_rows := filter (\<lambda>r. a_feed r \<noteq> f) (art_rows st)\<rparr>"

inductive pl_step :: "pipeline \<Rightarrow> pipeline \<Rightarrow> bool" where
  work: "i < length (pl_workers p) \<Longrightarrow> advance now broker_up (pl_workers p ! i) (pl_store p) = (st, w, q) \<Longrightarrow>
    pl_step p \<lparr>pl_store = st, pl_workers = (pl_workers p)[i := w], pl_queued = pl_queued p @ q\<rparr>"
| crash: "i < length (pl_workers p) \<Longrightarrow> pl_step p (p\<lparr>pl_workers := (pl_workers p)[i := Stopped]\<rparr>)"
| spawn: "pl_step p (p\<lparr>pl_workers := pl_workers p @ [AtInsert f e]\<rparr>)"
| delete: "pl_step p (p\<lparr>pl_store := drop_feed f (pl_store p)\<rparr>)"

definition pl_start :: pipeline where
  "pl_start = \<lparr>pl_store = empty_store, pl_workers = [], pl_queued = []\<rparr>"

text \<open>Workers that hold the claim on an article, and how often its fan-out was queued.\<close>

fun holds :: "int \<Rightarrow> worker \<Rightarrow> bool" where
  "holds aid (AtSend a) \<longleftrightarrow> a = aid"
| "holds aid (AtRelease a) \<longleftrightarrow> a = aid"
| "holds aid _ \<longleftrightarrow> False"

definition holders :: "int \<Rightarrow> pipeline \<Rightarrow> nat" where
  "holders aid p = length (filter (holds aid) (pl_workers p))"

definition queued_times :: "int \<Rightarrow> pipeline \<Rightarrow> nat" where
  "queued_times aid p = count_list (pl_queued p) (FanoutInstant aid)"

definition is_unclaimed :: "int \<Rightarrow> art_store \<Rightarrow> bool" where
  "is_unclaimed aid st \<longleftrightarrow> list_ex (unclaimed aid) (art_rows st) \<or> art_next st \<le> aid"

fun known_id :: "art_store \<Rightarrow> worker \<Rightarrow> bool" where
  "known_id st (AtClaim a) \<longleftrightarrow> a < art_next st"
| "known_id st (AtSend a) \<longleftrightarrow> a < art_next st"
| "known_id st (AtRelease a) \<longleftrightarrow> a < art_next st"
| "known_id st _ \<longleftrightarrow> True"

definition pl_inv :: "pipeline \<Rightarrow> bool" where
  "pl_inv p \<longleftrightarrow>
     store_ok (pl_store p) \<and> list_all (known_id (pl_store p)) (pl_workers p)
     \<and> (\<forall>aid. queued_times aid p + holders aid p \<le> (if is_unclaimed aid (pl_store p) then 0 else 1))"

section \<open>At most one worker queues an article\<close>

inductive_cases pl_stepE: "pl_step p p'"

lemma unclaimed_kept:
  assumes "\<And>r. a_id (f r) = a_id r" and "\<And>r. a_processed_at (f r) = a_processed_at r"
  shows "list_ex (unclaimed aid) (update_where q f rows) = list_ex (unclaimed aid) rows"
  using assms by (induction rows) (auto simp: unclaimed_def)

lemma processed_simps [simp]:
  "a_processed_at (seen_at now r) = a_processed_at r" "a_processed_at (edit_row now e r) = a_processed_at r"
  by (simp_all add: seen_at_def edit_row_def)

lemma insert_next: "insert_article now f e st = (st', r) \<Longrightarrow> art_next st' = art_next st + 1"
  by (auto simp: insert_article_def Let_def split: if_splits)

lemma insert_unclaimed:
  assumes "insert_article now f e st = (st', r)" and "is_unclaimed aid st'"
  shows "is_unclaimed aid st"
  using assms
  by (auto simp: insert_article_def Let_def is_unclaimed_def unclaimed_def new_article_def list_ex_iff split: if_splits)

lemma update_unclaimed:
  assumes "store_ok st"
  shows "is_unclaimed aid (fst (update_edited now f e st)) = is_unclaimed aid st"
    and "art_next (fst (update_edited now f e st)) = art_next st"
  by (simp_all add: update_edited_eq [OF assms] is_unclaimed_def unclaimed_kept)

lemma touch_unclaimed:
  "is_unclaimed aid (fst (touch_existing now f e st)) = is_unclaimed aid st"
  "art_next (fst (touch_existing now f e st)) = art_next st"
  by (auto simp: touch_existing_def is_unclaimed_def unclaimed_kept split: option.splits)

lemma claim_unclaimed:
  assumes "store_ok st"
  shows "is_unclaimed aid (fst (claim_processing now a st)) \<longleftrightarrow> is_unclaimed aid st \<and> \<not> (aid = a \<and> a < art_next st)"
proof -
  have "list_ex (unclaimed aid) (update_where (unclaimed a) (mark_processed now) rows) \<longleftrightarrow>
      aid \<noteq> a \<and> list_ex (unclaimed aid) rows" for rows
    by (induction rows) (auto simp: unclaimed_def mark_processed_def)
  then show ?thesis by (auto simp: claim_processing_def is_unclaimed_def)
qed

lemma release_unclaimed:
  "is_unclaimed aid (release_processing a st) \<Longrightarrow> is_unclaimed aid st \<or> aid = a"
proof -
  have "list_ex (unclaimed aid) (update_where (\<lambda>r. a_id r = a) mark_unprocessed rows) \<Longrightarrow>
      list_ex (unclaimed aid) rows \<or> aid = a" for rows
    by (induction rows) (auto simp: unclaimed_def mark_unprocessed_def split: if_splits)
  then show "is_unclaimed aid (release_processing a st) \<Longrightarrow> ?thesis"
    by (auto simp: release_processing_def is_unclaimed_def)
qed

definition gains :: "int \<Rightarrow> worker \<Rightarrow> queued_task list \<Rightarrow> nat" where
  "gains aid w q = count_list q (FanoutInstant aid) + (if holds aid w then 1 else 0)"

lemma gains_simps [simp]:
  "gains aid (AtInsert f e) [] = 0" "gains aid (AtUpdate f e) [] = 0" "gains aid (AtTouch f e) [] = 0"
  "gains aid (AtClaim a) [] = 0" "gains aid Stopped [] = 0"
  by (simp_all add: gains_def)

text \<open>What one statement may do to the claims and the queue.\<close>

definition fair :: "art_store \<Rightarrow> worker \<Rightarrow> art_store \<Rightarrow> worker \<Rightarrow> queued_task list \<Rightarrow> bool" where
  "fair st w st' w' q \<longleftrightarrow>
     store_ok st' \<and> art_next st \<le> art_next st' \<and> known_id st' w'
     \<and> (\<forall>aid. gains aid w' q \<le> 1 \<and> (gains aid w' q \<le> gains aid w [] \<or> is_unclaimed aid st)
          \<and> (is_unclaimed aid st' \<longrightarrow> gains aid w' q = 0 \<and> (is_unclaimed aid st \<or> holds aid w)))"

lemma known_row: "store_ok st \<Longrightarrow> r \<in> set (art_rows st) \<Longrightarrow> a_id r < art_next st"
  by (simp add: store_ok_def list_all_iff)

lemma fair_quiet:
  assumes "store_ok st'" and "art_next st \<le> art_next st'" and "known_id st' w'"
    and "\<And>aid. is_unclaimed aid st' \<Longrightarrow> is_unclaimed aid st" and "\<And>aid. gains aid w' [] = 0"
  shows "fair st w st' w' []"
  using assms by (simp add: fair_def)

lemma insert_Some: "insert_article now f e st = (st', Some aid) \<Longrightarrow> aid = art_next st"
  by (auto simp: insert_article_def Let_def new_article_def split: if_splits)

lemma fair_insert:
  assumes "store_ok st" and "advance now b (AtInsert f e) st = (st', w', q)"
  shows "fair st (AtInsert f e) st' w' q"
proof -
  obtain s r where ins: "insert_article now f e st = (s, r)" by (cases "insert_article now f e st")
  then have "st' = s" "q = []" "w' = (case r of Some aid \<Rightarrow> AtClaim aid | None \<Rightarrow> AtUpdate f e)"
    using assms(2) by (auto split: option.splits)
  with insert_ok [OF assms(1), of now f e] ins insert_next [OF ins] insert_unclaimed [OF ins] show ?thesis
    by (auto intro!: fair_quiet dest: insert_Some split: option.splits)
qed

lemma fair_update:
  assumes "store_ok st" and "advance now b (AtUpdate f e) st = (st', w', q)"
  shows "fair st (AtUpdate f e) st' w' q"
proof -
  let ?hit = "find (edited f e (art_rows st)) (art_rows st)"
  have "q = []" and st': "st' = fst (update_edited now f e st)"
    and w': "w' = (case ?hit of Some r \<Rightarrow> AtClaim (a_id r) | None \<Rightarrow> AtTouch f e)"
    using assms(2) by (auto simp: update_edited_eq [OF assms(1)] split: option.splits)
  moreover have "\<And>r. ?hit = Some r \<Longrightarrow> a_id r < art_next st"
    using known_row [OF assms(1)] by (blast dest: find_SomeD)
  ultimately show ?thesis
    using update_edited_ok [OF assms(1), of now f e] update_unclaimed(1) [OF assms(1), of _ now f e]
      update_unclaimed(2) [OF assms(1), of now f e]
    by (auto intro!: fair_quiet split: option.splits)
qed

lemma fair_touch:
  assumes "store_ok st" and "advance now b (AtTouch f e) st = (st', w', q)"
  shows "fair st (AtTouch f e) st' w' q"
proof -
  have "q = []" and st': "st' = fst (touch_existing now f e st)"
    and w': "w' = (case find_existing f e (art_rows st) of Some aid \<Rightarrow> AtClaim aid | None \<Rightarrow> Stopped)"
    using assms(2) by (auto simp: touch_existing_def split: option.splits)
  moreover have "\<And>aid. find_existing f e (art_rows st) = Some aid \<Longrightarrow> aid < art_next st"
    using known_row [OF assms(1)] by (auto simp: find_existing_def dest!: find_SomeD split: option.splits)
  ultimately show ?thesis
    using touch_ok [OF assms(1), of now f e] touch_unclaimed(1) [of _ now f e st] touch_unclaimed(2) [of now f e st]
    by (auto intro!: fair_quiet split: option.splits)
qed

lemma fair_claim:
  assumes "store_ok st" and "a < art_next st" and "advance now b (AtClaim a) st = (st', w', q)"
  shows "fair st (AtClaim a) st' w' q"
proof -
  have "q = []" and "st' = fst (claim_processing now a st)" and "art_next st' = art_next st"
    and w': "w' = (if list_ex (unclaimed a) (art_rows st) then AtSend a else Stopped)"
    using assms(3) by (auto simp: claim_processing_def split: bool.splits)
  moreover have "list_ex (unclaimed a) (art_rows st) \<Longrightarrow> is_unclaimed a st" by (simp add: is_unclaimed_def)
  ultimately show ?thesis
    using claim_ok [OF assms(1), of now a] claim_unclaimed [OF assms(1), of _ now a] assms(2)
    by (auto simp: fair_def gains_def)
qed

lemma fair_send:
  assumes "store_ok st" and "a < art_next st" and "\<not> is_unclaimed a st" and "advance now b (AtSend a) st = (st', w', q)"
  shows "fair st (AtSend a) st' w' q"
  using assms by (auto simp: fair_def gains_def on_article_created_def split: if_splits)

lemma fair_release:
  assumes "store_ok st" and "advance now b (AtRelease a) st = (st', w', q)"
  shows "fair st (AtRelease a) st' w' q"
  using assms release_ok [of st a] release_unclaimed [of _ a st]
  by (auto simp: fair_def release_processing_def)

lemma advance_fair:
  assumes "store_ok st" and "known_id st w" and "\<And>a. w = AtSend a \<Longrightarrow> \<not> is_unclaimed a st"
    and "advance now b w st = (st', w', q)"
  shows "fair st w st' w' q"
  using assms
proof (cases w)
  case Stopped
  with assms show ?thesis by (auto simp: fair_def)
qed (use assms in \<open>auto intro: fair_insert fair_update fair_touch fair_claim fair_send fair_release simp del: advance.simps\<close>)

lemma known_id_mono: "known_id st w \<Longrightarrow> art_next st \<le> art_next st' \<Longrightarrow> known_id st' w"
  by (cases w) auto

lemma holders_update:
  assumes "i < length (pl_workers p)"
  shows "length (filter (holds aid) ((pl_workers p)[i := w])) + gains aid (pl_workers p ! i) [] =
    holders aid p + (if holds aid w then 1 else 0)"
  using filter_list_update [OF assms, of "holds aid" w] by (simp add: holders_def gains_def)

lemma pl_inv_total: "pl_inv p \<Longrightarrow> queued_times aid p + holders aid p \<le> (if is_unclaimed aid (pl_store p) then 0 else 1)"
  by (simp add: pl_inv_def)

lemma work_inv:
  assumes inv: "pl_inv p" and i: "i < length (pl_workers p)"
    and adv: "advance now b (pl_workers p ! i) (pl_store p) = (st, w, q)"
  shows "pl_inv \<lparr>pl_store = st, pl_workers = (pl_workers p)[i := w], pl_queued = pl_queued p @ q\<rparr>" (is "pl_inv ?p")
proof -
  have total: "queued_times aid p + holders aid p \<le> (if is_unclaimed aid (pl_store p) then 0 else 1)" for aid
    by (rule pl_inv_total [OF inv])
  have held: "holds aid (pl_workers p ! i) \<Longrightarrow> 0 < holders aid p" for aid
    using i by (auto simp: holders_def filter_empty_conv intro: nth_mem)
  have fair: "fair (pl_store p) (pl_workers p ! i) st w q"
  proof (rule advance_fair [OF _ _ _ adv])
    show "store_ok (pl_store p)" "known_id (pl_store p) (pl_workers p ! i)"
      using inv i by (simp_all add: pl_inv_def list_all_length)
    show "\<not> is_unclaimed a (pl_store p)" if "pl_workers p ! i = AtSend a" for a
      using total [of a] held [of a] that by (auto split: if_splits)
  qed
  have "queued_times aid ?p + holders aid ?p \<le> (if is_unclaimed aid st then 0 else 1)" for aid
  proof -
    have "queued_times aid ?p + holders aid ?p + gains aid (pl_workers p ! i) [] =
        queued_times aid p + holders aid p + gains aid w q"
      using holders_update [OF i, of aid w] by (simp add: queued_times_def holders_def gains_def)
    moreover have "gains aid (pl_workers p ! i) [] = (if holds aid (pl_workers p ! i) then 1 else 0)"
      by (simp add: gains_def)
    moreover have "gains aid w q \<le> 1 \<and> (gains aid w q \<le> gains aid (pl_workers p ! i) [] \<or> is_unclaimed aid (pl_store p))
        \<and> (is_unclaimed aid st \<longrightarrow> gains aid w q = 0 \<and> (is_unclaimed aid (pl_store p) \<or> holds aid (pl_workers p ! i)))"
      using fair by (simp add: fair_def)
    ultimately show ?thesis
      using total [of aid] held [of aid] by (auto split: if_splits)
  qed
  moreover have "list_all (known_id st) ((pl_workers p)[i := w])"
  proof (rule list_all_update)
    show "list_all (known_id st) (pl_workers p)"
      using inv fair known_id_mono unfolding pl_inv_def fair_def list_all_iff by blast
  qed (use fair in \<open>simp add: fair_def\<close>)
  ultimately show ?thesis using fair by (simp add: pl_inv_def fair_def)
qed

lemma crash_inv:
  assumes "pl_inv p" and i: "i < length (pl_workers p)"
  shows "pl_inv (p\<lparr>pl_workers := (pl_workers p)[i := Stopped]\<rparr>)"
proof -
  have "holders aid (p\<lparr>pl_workers := (pl_workers p)[i := Stopped]\<rparr>) \<le> holders aid p" for aid
    using holders_update [OF i, of aid Stopped] by (simp add: holders_def)
  then have "queued_times aid p + holders aid (p\<lparr>pl_workers := (pl_workers p)[i := Stopped]\<rparr>)
      \<le> (if is_unclaimed aid (pl_store p) then 0 else 1)" for aid
    using assms(1) add_left_mono order_trans unfolding pl_inv_def by metis
  moreover have "list_all (known_id (pl_store p)) ((pl_workers p)[i := Stopped])"
    using assms(1) by (intro list_all_update) (simp_all add: pl_inv_def)
  ultimately show ?thesis
    using assms(1) by (simp add: pl_inv_def queued_times_def)
qed

lemma delete_inv:
  assumes "pl_inv p"
  shows "pl_inv (p\<lparr>pl_store := drop_feed f (pl_store p)\<rparr>)"
proof -
  have "store_ok (drop_feed f (pl_store p))"
    using assms by (auto simp: pl_inv_def store_ok_def drop_feed_def list_all_iff uniq_filter)
  moreover have "is_unclaimed aid (drop_feed f (pl_store p)) \<Longrightarrow> is_unclaimed aid (pl_store p)" for aid
    by (auto simp: is_unclaimed_def drop_feed_def list_ex_iff)
  moreover have "known_id (drop_feed f (pl_store p)) = known_id (pl_store p)"
  proof
    show "known_id (drop_feed f (pl_store p)) w = known_id (pl_store p) w" for w
      by (cases w) (simp_all add: drop_feed_def)
  qed
  moreover have "queued_times aid p + holders aid p \<le> (if is_unclaimed aid (drop_feed f (pl_store p)) then 0 else 1)" for aid
    using pl_inv_total [OF assms, of aid] calculation(2) [of aid] by (auto split: if_splits)
  ultimately show ?thesis
    using assms by (simp add: pl_inv_def queued_times_def holders_def)
qed

interpretation pl: inductive_invariant pl_step pl_inv
proof
  fix p p'
  assume "pl_step p p'" and "pl_inv p"
  then show "pl_inv p'"
  proof (induction rule: pl_step.induct)
    case (spawn p f e)
    then show ?case by (simp add: pl_inv_def queued_times_def holders_def)
  qed (simp_all add: work_inv crash_inv delete_inv)
qed

lemma pl_start_inv: "pl_inv pl_start"
  by (simp add: pl_inv_def pl_start_def empty_store_ok queued_times_def holders_def)

text \<open>C3: However many workers process entries at the same time, crash at any point, see the broker
  fail, or have feeds deleted under them: the article table stays consistent, the fan-out of an
  article is queued at most once, never while another worker holds the claim, and never for an
  article that is still marked unprocessed.\<close>

theorem article_queued_at_most_once:
  assumes "reachable_from pl_step pl_start p"
  shows "store_ok (pl_store p) \<and> queued_times aid p + holders aid p \<le> 1
    \<and> (list_ex (unclaimed aid) (art_rows (pl_store p)) \<longrightarrow> queued_times aid p = 0 \<and> holders aid p = 0)"
proof -
  have inv: "pl_inv p" by (rule pl.reachable_inv [OF assms pl_start_inv])
  note pl_inv_total [OF inv, of aid]
  moreover have "list_ex (unclaimed aid) (art_rows (pl_store p)) \<Longrightarrow> is_unclaimed aid (pl_store p)"
    by (simp add: is_unclaimed_def)
  moreover have "store_ok (pl_store p)" using inv by (simp add: pl_inv_def)
  ultimately show ?thesis by (auto split: if_splits)
qed

theorem article_queued_at_most_once_witness:
  "\<exists>p. reachable_from pl_step pl_start p \<and> queued_times 1 p = 1 \<and> queued_times 1 p + holders 1 p \<le> 1"
proof -
  let ?st1 = "fst (insert_article 5 7 entry_example empty_store)"
  let ?st2 = "fst (claim_processing 6 1 ?st1)"
  let ?p = "\<lambda>st w q. \<lparr>pl_store = st, pl_workers = [w], pl_queued = q\<rparr>"
  have a1: "advance 5 True (AtInsert 7 entry_example) empty_store = (?st1, AtClaim 1, [])"
    and a2: "advance 6 True (AtClaim 1) ?st1 = (?st2, AtSend 1, [])"
    by (simp_all add: insert_article_def empty_store_def Let_def conflicts_def guid_key_def hash_key_def entry_example_def
        new_article_def has_key_def claim_processing_def unclaimed_def)
  have "pl_step pl_start (?p empty_store (AtInsert 7 entry_example) [])"
    using pl_step.spawn [of pl_start 7 entry_example] by (simp add: pl_start_def)
  then have r0: "reachable_from pl_step pl_start (?p empty_store (AtInsert 7 entry_example) [])"
    by (meson reachable_from.intros)
  have r1: "reachable_from pl_step pl_start (?p ?st1 (AtClaim 1) [])"
    using reachable_from.step [OF r0 pl_step.work [of 0 _ 5 True]] a1 by simp
  have r2: "reachable_from pl_step pl_start (?p ?st2 (AtSend 1) [])"
    using reachable_from.step [OF r1 pl_step.work [of 0 _ 6 True]] a2 by simp
  have r3: "reachable_from pl_step pl_start (?p ?st2 Stopped (on_article_created 1))"
    using reachable_from.step [OF r2 pl_step.work [of 0 _ 7 True]] by simp
  have "queued_times 1 (?p ?st2 Stopped (on_article_created 1)) = 1"
    by (simp add: queued_times_def on_article_created_def)
  with r3 article_queued_at_most_once [OF r3, of 1] show ?thesis by blast
qed

section \<open>A worker on its own\<close>

lemma run_stopped [simp]: "run_worker n now b Stopped st = (st, Stopped, [])"
  by (induction n) auto

lemma run_claim:
  "run_worker (Suc (Suc (Suc n))) now b (AtClaim (article_id res)) st =
     (case claim_and_send now b res st of (st', q, _) \<Rightarrow> (st', Stopped, q))"
proof -
  obtain s c where "claim_processing now (article_id res) st = (s, c)" by (cases "claim_processing now (article_id res) st")
  then show ?thesis by (cases c; cases b) (simp_all add: claim_and_send_def)
qed

text \<open>A worker that runs alone does, statement by statement, what the task does as a whole, and
  it always comes to a stop, after at most six statements.\<close>

theorem run_worker_is_task:
  "run_worker 6 now b (AtInsert f e) st =
     (case upsert_article now f e st of
        (st1, Inl ConflictWithoutRow) \<Rightarrow> (st1, Stopped, [])
      | (st1, Inr res) \<Rightarrow> (case claim_and_send now b res st1 of (st2, q, _) \<Rightarrow> (st2, Stopped, q)))"
proof -
  have claim: "run_worker (Suc (Suc (Suc n))) now b (AtClaim aid) st' =
      (case claim_and_send now b \<lparr>article_id = aid, inserted = i, updated = u\<rparr> st' of (st2, q, _) \<Rightarrow> (st2, Stopped, q))"
    for n aid i u st'
    using run_claim [of n now b "\<lparr>article_id = aid, inserted = i, updated = u\<rparr>" st'] by simp
  have one: "run_worker (Suc n) now b w st0 = (case run_worker n now b w1 st1 of (st2, w2, q2) \<Rightarrow> (st2, w2, q2))"
    if "advance now b w st0 = (st1, w1, [])" for n w w1 st0 st1
    using that by simp
  note [simp del] = run_worker.simps(2)
  have six: "(6 :: nat) = Suc (Suc (Suc (Suc (Suc (Suc 0)))))" by simp
  obtain s1 r1 where ins: "insert_article now f e st = (s1, r1)" by (cases "insert_article now f e st")
  obtain s2 r2 where upd: "update_edited now f e s1 = (s2, r2)" by (cases "update_edited now f e s1")
  obtain s3 r3 where tou: "touch_existing now f e s2 = (s3, r3)" by (cases "touch_existing now f e s2")
  have touch: "run_worker (Suc (Suc (Suc (Suc 0)))) now b (AtTouch f e) s2 =
      (case r3 of None \<Rightarrow> (s3, Stopped, [])
       | Some aid \<Rightarrow> (case claim_and_send now b \<lparr>article_id = aid, inserted = False, updated = False\<rparr> s3 of (st2, q, _) \<Rightarrow> (st2, Stopped, q)))"
    using tou by (cases r3) (simp_all add: one claim split: prod.split)
  show ?thesis
    using touch unfolding six upsert_article_def ins
    by (cases r1; cases r2) (auto simp: one ins upd tou claim split: prod.split option.split)
qed

lemma unclaimed_after_release:
  assumes "r \<in> set (art_rows st)" and "a_id r = aid"
  shows "list_ex (unclaimed aid) (art_rows (release_processing aid st))"
proof -
  have "unclaimed aid (mark_unprocessed r)" using assms(2) by (simp add: unclaimed_def mark_unprocessed_def)
  moreover have "mark_unprocessed r \<in> set (art_rows (release_processing aid st))"
    using assms by (force simp: release_processing_def set_update_where)
  ultimately show ?thesis by (auto simp: list_ex_iff)
qed

text \<open>C8: A queueing failure is made good by the next delivery of the entry: after a run in which
  the broker was down, processing the same entry again, with the broker up, finds the same article
  and queues its fan-out.\<close>

theorem redelivery_queues:
  assumes ok: "store_ok st" and up: "upsert_article now f e st = (st1, Inr res)"
    and failed: "claim_and_send now False res st1 = (st2, [], RaisedQueueing)"
  shows "\<exists>st3 st4 res'. upsert_article later f e st2 = (st3, Inr res') \<and> article_id res' = article_id res
    \<and> claim_and_send later True res' st3 = (st4, on_article_created (article_id res), Processed (article_id res) False)"
proof -
  let ?aid = "article_id res"
  obtain sc where sc: "claim_processing now ?aid st1 = (sc, True)" and st2: "st2 = release_processing ?aid sc"
    using failed by (cases "claim_processing now ?aid st1") (auto simp: claim_and_send_def split: bool.splits)
  have ok1: "store_ok st1" using upsert_ok [OF ok, of now f e] up by simp
  then have ok2: "store_ok st2" using claim_ok [OF ok1, of now ?aid] release_ok sc st2 by simp
  have "settled f e ?aid (art_rows st1)" by (rule upsert_settles [OF ok up])
  then have set2: "settled f e ?aid (art_rows st2)"
    using sc by (auto simp: st2 release_processing_def claim_processing_def settled_kept)
  then obtain st3 where up2: "upsert_article later f e st2 = (st3, Inr \<lparr>article_id = ?aid, inserted = False, updated = False\<rparr>)"
    using repeat_touches [OF ok2, of f e later] by (auto simp: settled_def)
  have "list_ex (unclaimed ?aid) (art_rows st2)"
  proof -
    obtain r where r: "r \<in> set (art_rows st1)" "unclaimed ?aid r"
      and rows: "art_rows sc = update_where (unclaimed ?aid) (mark_processed now) (art_rows st1)"
      using sc by (auto simp: claim_processing_def list_ex_iff)
    then have "mark_processed now r \<in> set (art_rows sc)" "a_id (mark_processed now r) = ?aid"
      by (force simp: set_update_where, simp add: unclaimed_def)
    then show ?thesis unfolding st2 by (blast intro: unclaimed_after_release)
  qed
  moreover have "art_rows st3 = update_where (\<lambda>r. a_id r = ?aid) (seen_at later) (art_rows st2)"
    using up2 set2 upsert_known [OF ok2, of f e later] by (auto simp: settled_def list_ex_find Let_def)
  ultimately have "list_ex (unclaimed ?aid) (art_rows st3)" by (simp add: unclaimed_kept)
  then show ?thesis using up2 by (auto simp: claim_and_send_def claim_processing_def)
qed

theorem redelivery_queues_witness:
  "\<exists>st1 res st2. upsert_article 5 7 entry_example empty_store = (st1, Inr res)
     \<and> claim_and_send 5 False res st1 = (st2, [], RaisedQueueing)
     \<and> (\<exists>st3 st4 res'. upsert_article 6 7 entry_example st2 = (st3, Inr res')
          \<and> claim_and_send 6 True res' st3 = (st4, on_article_created (article_id res), Processed (article_id res) False))"
proof -
  obtain st1 res where up: "upsert_article 5 7 entry_example empty_store = (st1, Inr res)"
    and st1: "art_rows st1 = [new_article 5 1 7 entry_example]" and "article_id res = 1"
    using upsert_insert [of empty_store 7 entry_example 5] by (auto simp: empty_store_def)
  then obtain st2 where failed: "claim_and_send 5 False res st1 = (st2, [], RaisedQueueing)"
    by (simp add: claim_and_send_def claim_processing_def unclaimed_def new_article_def)
  show ?thesis using up failed redelivery_queues [OF empty_store_ok up failed, of 6] by blast
qed

end
