(* ===== verification/Ingest.thy ===== *)
theory Ingest
  imports Fetch_Task Article_Pipeline
begin

text \<open>
  From a fetch to the article table: the messages that \<^verbatim>\<open>fetch_feed\<close> (\<^verbatim>\<open>src/tasks/fetcher.py\<close>) queues, delivered to
  \<^verbatim>\<open>process_article\<close> (\<^verbatim>\<open>src/tasks/articles.py\<close>) one after the other.  \<open>fromisoformat\<close> reads what \<open>ce_isoformat\<close> wrote.
\<close>

section \<open>Delivery of the messages\<close>

definition deliver_article :: "('z, 'c, 'd) crawl_env \<Rightarrow> (ustr \<Rightarrow> py_datetime option) \<Rightarrow> int \<Rightarrow> bool \<Rightarrow> article_msg \<Rightarrow> art_store
    \<Rightarrow> art_store \<times> queued_task list \<times> process_outcome" where
  "deliver_article env fromisoformat now broker_up m =
     process_article (ce_te env) (ce_he env) fromisoformat now broker_up (am_feed_id m)
       \<lparr>re_url = am_url m, re_title = am_title m, re_summary = am_summary m, re_body = am_body m, re_guid = am_guid m,
        re_author = am_author m, re_published_at = None\<rparr> (am_published_at m) (am_feed_language m)"

text \<open>\<open>clk k\<close> is the time at which the \<open>k\<close>-th message is processed; the broker is up.\<close>

fun ingest :: "('z, 'c, 'd) crawl_env \<Rightarrow> (ustr \<Rightarrow> py_datetime option) \<Rightarrow> (nat \<Rightarrow> int) \<Rightarrow> nat \<Rightarrow> article_msg list \<Rightarrow> art_store
    \<Rightarrow> art_store \<times> queued_task list \<times> process_outcome list" where
  "ingest env fromisoformat clk k [] st = (st, [], [])"
| "ingest env fromisoformat clk k (m # ms) st =
     (case deliver_article env fromisoformat (clk k) True m st of (st1, q, out) \<Rightarrow>
        (case ingest env fromisoformat clk (Suc k) ms st1 of (st2, qs, outs) \<Rightarrow> (st2, q @ qs, out # outs)))"

section \<open>One message\<close>

definition ids_where :: "(article \<Rightarrow> bool) \<Rightarrow> art_store \<Rightarrow> int set" where
  "ids_where P st = a_id ` set (filter P (art_rows st))"

definition claimed_ids :: "art_store \<Rightarrow> int set" where
  "claimed_ids = ids_where (\<lambda>r. a_processed_at r \<noteq> None)"

definition owned_ids :: "int \<Rightarrow> art_store \<Rightarrow> int set" where
  "owned_ids f = ids_where (\<lambda>r. a_feed r = f)"

lemma ids_update_where:
  assumes "\<And>r. P (g r) = P r" and "\<And>r. a_id (g r) = a_id r"
  shows "a_id ` set (filter P (update_where p g rows)) = a_id ` set (filter P rows)"
proof (induction rows)
  case (Cons r rows)
  then show ?case using assms [of r] by simp
qed simp

lemma upsert_ids:
  assumes "store_ok st" and "upsert_article now f e st = (st1, Inr res)"
  shows "claimed_ids st1 = claimed_ids st" and "owned_ids g st \<subseteq> owned_ids g st1"
proof -
  have kept: "claimed_ids (st'\<lparr>art_rows := update_where p h (art_rows st)\<rparr>) = claimed_ids st"
    "owned_ids g (st'\<lparr>art_rows := update_where p h (art_rows st)\<rparr>) = owned_ids g st"
    if "\<And>r. a_processed_at (h r) = a_processed_at r" "\<And>r. a_feed (h r) = a_feed r" "\<And>r. a_id (h r) = a_id r" for p h st'
    using ids_update_where [of "\<lambda>r. a_processed_at r \<noteq> None" h p "art_rows st"] ids_update_where [of "\<lambda>r. a_feed r = g" h p "art_rows st"] that
    by (simp_all add: claimed_ids_def owned_ids_def ids_where_def)
  have edits: "a_processed_at (edit_row now e r) = a_processed_at r" "a_feed (edit_row now e r) = a_feed r"
    "a_processed_at (seen_at now r) = a_processed_at r" "a_feed (seen_at now r) = a_feed r" for r
    by (simp_all add: edit_row_def seen_at_def)
  have "claimed_ids st1 = claimed_ids st \<and> owned_ids g st \<subseteq> owned_ids g st1"
  proof (cases "\<exists>r \<in> set (art_rows st). same_guid f e r \<or> same_content f e r")
    case False
    then show ?thesis using assms(2)
      by (auto simp: upsert_insert claimed_ids_def owned_ids_def ids_where_def new_article_def)
  next
    case True
    then show ?thesis using assms(2)
      by (auto simp: upsert_known [OF assms(1)] Let_def kept edits split: option.splits)
  qed
  then show "claimed_ids st1 = claimed_ids st" "owned_ids g st \<subseteq> owned_ids g st1" by blast+
qed

lemma upsert_total: "store_ok st \<Longrightarrow> \<exists>st1 res. upsert_article now f e st = (st1, Inr res)"
proof (cases "\<exists>r \<in> set (art_rows st). same_guid f e r \<or> same_content f e r")
  case True
  assume ok: "store_ok st"
  obtain aid where "find_existing f e (art_rows st) = Some aid" using find_existing_Some [OF True] by blast
  then show ?thesis by (simp add: upsert_known [OF ok True] Let_def split: option.split)
qed (simp add: upsert_insert)

lemma upsert_owned:
  assumes "store_ok st" and "upsert_article now f e st = (st1, Inr res)"
  shows "article_id res \<in> owned_ids f st1"
proof -
  have "settled f e (article_id res) (art_rows st1)" by (rule upsert_settles [OF assms])
  then have "find_existing f e (art_rows st1) = Some (article_id res)" by (simp add: settled_def)
  then obtain r where "r \<in> set (art_rows st1)" "a_id r = article_id res" "same_guid f e r \<or> same_content f e r"
    by (auto simp: find_existing_def split: option.splits dest!: find_SomeD)
  then have "r \<in> set (filter (\<lambda>r. a_feed r = f) (art_rows st1))" "article_id res = a_id r"
    by (auto simp: same_guid_def same_content_def)
  then show ?thesis unfolding owned_ids_def ids_where_def by blast
qed

lemma claim_marks:
  "a_id ` set (filter (\<lambda>r. a_processed_at r \<noteq> None) (update_where (unclaimed aid) (mark_processed now) rows))
    = (if list_ex (unclaimed aid) rows then {aid} else {}) \<union> a_id ` set (filter (\<lambda>r. a_processed_at r \<noteq> None) rows)"
proof (induction rows)
  case (Cons r rows)
  then show ?case by (auto simp: unclaimed_def mark_processed_def)
qed simp

lemma claim_ids:
  assumes "store_ok st" and "aid \<in> owned_ids f st" and "claim_processing now aid st = (st1, mine)"
  shows "mine \<longleftrightarrow> aid \<notin> claimed_ids st" and "claimed_ids st1 = insert aid (claimed_ids st)" and "owned_ids g st1 = owned_ids g st"
proof -
  have rows: "art_rows st1 = update_where (unclaimed aid) (mark_processed now) (art_rows st)" and mine: "mine = list_ex (unclaimed aid) (art_rows st)"
    using assms(3) by (auto simp: claim_processing_def)
  obtain r where r: "r \<in> set (art_rows st)" "a_id r = aid" using assms(2) by (auto simp: owned_ids_def ids_where_def)
  have only: "s = r" if "s \<in> set (art_rows st)" "a_id s = aid" for s
    using assms(1) that r uniq_idD [of "art_rows st" s r] by (simp add: store_ok_def)
  have ex: "(\<exists>s \<in> set (art_rows st). a_id s = aid \<and> Q s) \<longleftrightarrow> Q r" for Q
  proof
    assume "\<exists>s \<in> set (art_rows st). a_id s = aid \<and> Q s"
    then obtain s where "s \<in> set (art_rows st)" "a_id s = aid" "Q s" by blast
    with only [of s] show "Q r" by simp
  qed (use r in blast)
  have "aid \<in> claimed_ids st \<longleftrightarrow> (\<exists>s \<in> set (art_rows st). a_id s = aid \<and> a_processed_at s \<noteq> None)"
    by (auto simp: claimed_ids_def ids_where_def)
  moreover have "mine \<longleftrightarrow> (\<exists>s \<in> set (art_rows st). a_id s = aid \<and> a_processed_at s = None)"
    by (simp add: mine list_ex_iff unclaimed_def)
  ultimately show iff: "mine \<longleftrightarrow> aid \<notin> claimed_ids st" unfolding ex by simp
  have "a_feed (mark_processed now s) = a_feed s" for s by (simp add: mark_processed_def)
  then show "owned_ids g st1 = owned_ids g st"
    using ids_update_where [of "\<lambda>r. a_feed r = g" "mark_processed now" "unclaimed aid" "art_rows st"]
    by (simp add: owned_ids_def ids_where_def rows)
  show "claimed_ids st1 = insert aid (claimed_ids st)"
    using iff unfolding mine claimed_ids_def ids_where_def rows claim_marks by auto
qed

text \<open>The outcome of a message, by its link; a row of its feed holds the article and is claimed.\<close>

definition outcome_ok :: "text_env \<Rightarrow> article_msg \<Rightarrow> art_store \<Rightarrow> process_outcome \<Rightarrow> bool" where
  "outcome_ok te m st out \<longleftrightarrow>
     (case out of
        Skipped why \<Rightarrow> check_link te (am_url m) = Inl (InvalidEntryError why)
      | RaisedEntryValue \<Rightarrow> check_link te (am_url m) = Inl EntryValueError
      | Processed aid _ \<Rightarrow> (\<exists>url. check_link te (am_url m) = Inr url) \<and> aid \<in> claimed_ids st \<inter> owned_ids (am_feed_id m) st
      | _ \<Rightarrow> False)"

lemma normalize_entry_link:
  "normalize_entry te he now re l = Inl e \<Longrightarrow> check_link te (re_url re) = Inl e"
  "normalize_entry te he now re l = Inr n \<Longrightarrow> \<exists>url. check_link te (re_url re) = Inr url"
  using check_link_canonical [of te "re_url re"]
  by (cases "check_link te (re_url re)"; auto simp: normalize_entry_def result_simps Let_def)+

definition good_stamp :: "(ustr \<Rightarrow> py_datetime option) \<Rightarrow> article_msg \<Rightarrow> bool" where
  "good_stamp fromisoformat m \<longleftrightarrow> (case am_published_at m of None \<Rightarrow> True | Some s \<Rightarrow> s = [] \<or> fromisoformat s \<noteq> None)"

text \<open>What one delivery does: the tasks queued are those of the article it claims.\<close>

definition delivered_step :: "text_env \<Rightarrow> article_msg \<Rightarrow> art_store \<Rightarrow> art_store \<Rightarrow> queued_task list \<Rightarrow> process_outcome \<Rightarrow> bool" where
  "delivered_step te m st st1 q out \<longleftrightarrow>
     store_ok st1 \<and> outcome_ok te m st1 out \<and> (\<forall>g. owned_ids g st \<subseteq> owned_ids g st1)
     \<and> (\<exists>new. distinct new \<and> q = concat (map on_article_created new) \<and> claimed_ids st1 = claimed_ids st \<union> set new
          \<and> set new \<inter> claimed_ids st = {})"

lemma deliver_step:
  assumes "store_ok st" and "good_stamp fromisoformat m" and "deliver_article env fromisoformat now True m st = (st1, q, out)"
  shows "delivered_step (ce_te env) m st st1 q out"
proof -
  let ?re = "\<lambda>pub. \<lparr>re_url = am_url m, re_title = am_title m, re_summary = am_summary m, re_body = am_body m, re_guid = am_guid m,
        re_author = am_author m, re_published_at = pub\<rparr>"
  have "(case am_published_at m of None \<Rightarrow> Some None
            | Some s \<Rightarrow> if s = [] then Some None else map_option Some (fromisoformat s)) \<noteq> None"
    using assms(2) by (auto simp: good_stamp_def split: option.splits)
  then obtain pub where pub: "(case am_published_at m of None \<Rightarrow> Some None
            | Some s \<Rightarrow> if s = [] then Some None else map_option Some (fromisoformat s)) = Some pub" by blast
  have unchanged: "delivered_step (ce_te env) m st st [] out" if "outcome_ok (ce_te env) m st out" for out
    using that assms(1) unfolding delivered_step_def by (auto intro: exI [of _ "[]"])
  show ?thesis
  proof (cases "normalize_entry (ce_te env) (ce_he env) now (?re pub) (am_feed_language m)")
    case (Inl e)
    then have "st1 = st \<and> q = [] \<and> outcome_ok (ce_te env) m st out"
      using assms(3) pub normalize_entry_link(1) [OF Inl]
      by (cases e) (auto simp: deliver_article_def process_article_def outcome_ok_def)
    then have eq: "st1 = st" "q = []" and ok: "outcome_ok (ce_te env) m st out" by blast+
    show ?thesis unfolding eq by (rule unchanged [OF ok])
  next
    case (Inr e)
    obtain st2 r where up: "upsert_article now (am_feed_id m) e st = (st2, r)" by fastforce
    have run: "(st1, q, out) = (case (st2, r) of (st1, Inl ConflictWithoutRow) \<Rightarrow> (st1, [], RaisedConflict)
                | (st1, Inr res) \<Rightarrow> claim_and_send now True res st1)"
      using assms(3) pub Inr up by (simp add: deliver_article_def process_article_def)
    obtain res where r: "r = Inr res" using up upsert_total [OF assms(1), of now "am_feed_id m" e] by auto
    obtain mine where claim: "claim_processing now (article_id res) st2 = (st1, mine)"
        "q = (if mine then on_article_created (article_id res) else [])" "out = Processed (article_id res) (inserted res)"
      using run r by (cases "claim_processing now (article_id res) st2") (auto simp: claim_and_send_def split: bool.splits)
    have ok2: "store_ok st2" using upsert_ok [OF assms(1), of now "am_feed_id m" e] up by simp
    note up' = up [unfolded r]
    note ids = upsert_ids [OF assms(1) up'] and own = upsert_owned [OF assms(1) up']
    note claimed = claim_ids [OF ok2 own claim(1)]
    let ?new = "if mine then [article_id res] else []"
    have "store_ok st1" using claim_ok [OF ok2, of now "article_id res"] claim(1) by simp
    moreover have "outcome_ok (ce_te env) m st1 out"
      using normalize_entry_link(2) [OF Inr] own claimed(2,3) by (simp add: outcome_ok_def claim(3))
    moreover have "q = concat (map on_article_created ?new)" "claimed_ids st1 = claimed_ids st \<union> set ?new"
        "set ?new \<inter> claimed_ids st = {}" "distinct ?new"
      using claim(2) claimed(1,2) ids(1) by auto
    ultimately show ?thesis using ids(2) claimed(3) unfolding delivered_step_def by blast
  qed
qed

section \<open>All messages of a fetch\<close>

lemma outcome_kept:
  assumes "outcome_ok te m st out" and "\<And>g. owned_ids g st \<subseteq> owned_ids g st'" and "claimed_ids st \<subseteq> claimed_ids st'"
  shows "outcome_ok te m st' out"
  using assms by (cases out) (auto simp: outcome_ok_def)

lemma ingest_run:
  assumes "store_ok st" and "list_all (good_stamp fromisoformat) ms" and "ingest env fromisoformat clk k ms st = (st', q, outs)"
  shows "store_ok st' \<and> list_all2 (\<lambda>m. outcome_ok (ce_te env) m st') ms outs \<and> (\<forall>g. owned_ids g st \<subseteq> owned_ids g st')
    \<and> (\<exists>new. distinct new \<and> q = concat (map on_article_created new) \<and> claimed_ids st' = claimed_ids st \<union> set new
         \<and> set new \<inter> claimed_ids st = {})"
  using assms
proof (induction ms arbitrary: k st st' q outs)
  case Nil
  then show ?case by (auto intro: exI [of _ "[]"])
next
  case (Cons m ms)
  obtain st1 q1 out where one: "deliver_article env fromisoformat (clk k) True m st = (st1, q1, out)"
    by (cases "deliver_article env fromisoformat (clk k) True m st")
  obtain q2 outs2 where rest: "ingest env fromisoformat clk (Suc k) ms st1 = (st', q2, outs2)" "q = q1 @ q2" "outs = out # outs2"
    using Cons.prems(3) one by (auto split: prod.splits)
  have "delivered_step (ce_te env) m st st1 q1 out" by (rule deliver_step [OF Cons.prems(1) _ one]) (use Cons.prems(2) in simp)
  then obtain new1 where step: "store_ok st1" "outcome_ok (ce_te env) m st1 out" "\<And>g. owned_ids g st \<subseteq> owned_ids g st1"
      "distinct new1" "q1 = concat (map on_article_created new1)" "claimed_ids st1 = claimed_ids st \<union> set new1"
      "set new1 \<inter> claimed_ids st = {}"
    unfolding delivered_step_def by blast
  obtain new2 where tail: "store_ok st'" "list_all2 (\<lambda>m. outcome_ok (ce_te env) m st') ms outs2"
      "\<And>g. owned_ids g st1 \<subseteq> owned_ids g st'" "distinct new2" "q2 = concat (map on_article_created new2)"
      "claimed_ids st' = claimed_ids st1 \<union> set new2" "set new2 \<inter> claimed_ids st1 = {}"
    using Cons.IH [OF step(1) _ rest(1)] Cons.prems(2) by auto
  have "outcome_ok (ce_te env) m st' out" by (rule outcome_kept [OF step(2) tail(3)]) (simp add: tail(6))
  moreover have "distinct (new1 @ new2)" "q = concat (map on_article_created (new1 @ new2))"
      "claimed_ids st' = claimed_ids st \<union> set (new1 @ new2)" "set (new1 @ new2) \<inter> claimed_ids st = {}"
    using step(4-7) tail(4-7) rest(2) by auto
  moreover have "\<forall>g. owned_ids g st \<subseteq> owned_ids g st'" using step(3) tail(3) by (blast intro: order_trans)
  ultimately have "list_all2 (\<lambda>m. outcome_ok (ce_te env) m st') (m # ms) outs" "\<forall>g. owned_ids g st \<subseteq> owned_ids g st'"
    "\<exists>new. distinct new \<and> q = concat (map on_article_created new) \<and> claimed_ids st' = claimed_ids st \<union> set new
         \<and> set new \<inter> claimed_ids st = {}"
    using tail(2) rest(3) by (simp, simp, intro exI [of _ "new1 @ new2"] conjI)
  with tail(1) show ?case by blast
qed

lemma list_all2_right: "list_all2 P xs ys \<Longrightarrow> y \<in> set ys \<Longrightarrow> \<exists>x. P x y"
  by (induction rule: list_all2_induct) auto

lemma queue_entries_done:
  "queue_entries env f base_url es = (ms, True)
    \<Longrightarrow> list_all2 (\<lambda>e m. entry_msg env f base_url e = Some m) es ms"
  by (induction es arbitrary: ms) (auto split: option.splits prod.splits)

lemma fetched_messages:
  assumes "fetch_feed env i st = (st', Inr (Fetched n))" and "0 \<le> MAX_ENTRIES_PER_FETCH (ce_cfg env)"
  obtains f base_url es ms where "f_id f = i" and "cs_messages st' = cs_messages st @ ms" and "int (length ms) = n"
    and "list_all2 (\<lambda>e m. entry_msg env f base_url e = Some m) es ms"
proof -
  obtain f where f: "find (\<lambda>r. f_id r = i \<and> \<not> f_is_deleted r \<and> f_is_active r) (cs_feeds st) = Some f"
    using assms(1) by (auto simp: fetch_feed_def Let_def split: option.splits)
  obtain result st2 where fetched: "after_fetch env result (f\<lparr>f_last_fetched_at := Some (ce_now env)\<rparr>) st2 = (st', Inr (Fetched n))"
    and same: "cs_messages st2 = cs_messages st"
    using assms(1) unfolding fetch_feed_def Let_def f option.case
    by (auto split: prod.splits sum.splits bool.splits option.splits)
  let ?f = "f\<lparr>f_last_fetched_at := Some (ce_now env)\<rparr>"
  obtain body where "on_ok env result body ?f st2 = (st', Inr (Fetched n))"
    using fetched
    by (auto simp: after_fetch_def on_not_modified_def on_failure_def split: if_splits feed_status.splits option.splits prod.splits sum.splits)
  then obtain base_url entries ms where q: "queue_entries env ?f base_url (slice_to (MAX_ENTRIES_PER_FETCH (ce_cfg env)) entries) = (ms, True)"
    and st': "cs_messages st' = cs_messages st2 @ ms" "n = min (int (length entries)) (MAX_ENTRIES_PER_FETCH (ce_cfg env))"
    by (auto simp: on_ok_def on_failure_def Let_def split: if_splits prod.splits bool.splits sum.splits)
  have all: "list_all2 (\<lambda>e m. entry_msg env ?f base_url e = Some m) (slice_to (MAX_ENTRIES_PER_FETCH (ce_cfg env)) entries) ms"
    by (rule queue_entries_done [OF q])
  show thesis
  proof (rule that [OF _ _ _ all])
    show "f_id ?f = i" using find_SomeD [OF f] by simp
    show "cs_messages st' = cs_messages st @ ms" using st'(1) same by simp
    show "int (length ms) = n" using list_all2_lengthD [OF all] assms(2) st'(2) by (auto simp: slice_to_take min_def split: if_splits)
  qed
qed

text \<open>Documented behaviour of \<^verbatim>\<open>datetime\<close>: \<^verbatim>\<open>fromisoformat\<close> reads what \<^verbatim>\<open>isoformat\<close> writes.\<close>

definition iso_ok :: "(int \<Rightarrow> ustr) \<Rightarrow> (ustr \<Rightarrow> py_datetime option) \<Rightarrow> bool" where
  "iso_ok isoformat fromisoformat \<longleftrightarrow> (\<forall>t. fromisoformat (isoformat t) = Some (Aware t))"

lemma entry_msg_good:
  assumes "iso_ok (ce_isoformat env) fromisoformat" and "entry_msg env f base_url e = Some m"
  shows "good_stamp fromisoformat m" and "am_feed_id m = f_id f"
  using assms by (auto simp: iso_ok_def entry_msg_def good_stamp_def Let_def split: option.splits)

text \<open>C6: What a successful fetch queues ends up in the article table.  When the messages of the fetch have been processed, each
  one whose link is an http(s) link has an article of that feed, and the article is claimed; the others, and only those,
  were rejected for their link, and nothing else went wrong.  Tagging and fan-out are queued for exactly the articles
  that were not claimed before the fetch and are claimed now, once each.\<close>

theorem fetched_entries_become_articles:
  assumes "fetch_feed env i st = (st', Inr (Fetched n))" and "0 \<le> MAX_ENTRIES_PER_FETCH (ce_cfg env)"
    and "iso_ok (ce_isoformat env) fromisoformat" and "store_ok arts"
  shows "\<exists>ms arts' q outs. cs_messages st' = cs_messages st @ ms \<and> int (length ms) = n
    \<and> ingest env fromisoformat clk 0 ms arts = (arts', q, outs) \<and> store_ok arts'
    \<and> list_all2 (\<lambda>m. outcome_ok (ce_te env) m arts') ms outs \<and> list_all (\<lambda>m. am_feed_id m = i) ms
    \<and> (\<exists>new. distinct new \<and> set new = claimed_ids arts' - claimed_ids arts \<and> q = concat (map on_article_created new))"
proof -
  obtain f base_url es ms where fetched: "f_id f = i" "cs_messages st' = cs_messages st @ ms" "int (length ms) = n"
    "list_all2 (\<lambda>e m. entry_msg env f base_url e = Some m) es ms"
    by (rule fetched_messages [OF assms(1,2)])
  have "good_stamp fromisoformat m \<and> am_feed_id m = i" if m: "m \<in> set ms" for m
  proof -
    obtain e where "entry_msg env f base_url e = Some m" using m list_all2_right [OF fetched(4)] by blast
    then show ?thesis using entry_msg_good [OF assms(3)] fetched(1) by blast
  qed
  then have good: "list_all (good_stamp fromisoformat) ms" "list_all (\<lambda>m. am_feed_id m = i) ms"
    by (simp_all add: list_all_iff)
  obtain arts' q outs where run: "ingest env fromisoformat clk 0 ms arts = (arts', q, outs)"
    by (cases "ingest env fromisoformat clk 0 ms arts")
  from ingest_run [OF assms(4) good(1) run] obtain new where "store_ok arts'" "list_all2 (\<lambda>m. outcome_ok (ce_te env) m arts') ms outs"
    "distinct new" "q = concat (map on_article_created new)" "claimed_ids arts' = claimed_ids arts \<union> set new" "set new \<inter> claimed_ids arts = {}"
    by blast
  moreover from this have "set new = claimed_ids arts' - claimed_ids arts" by blast
  ultimately show ?thesis using fetched(2,3) good(2) run by blast
qed

definition net_feed :: net_env where
  "net_feed = \<lparr>dns = (\<lambda>_ _ _. Some [lit ''93.184.216.34'']), clock = (\<lambda>_. 0),
     exchange = (\<lambda>_ _. Inr \<lparr>rs_status = 200, rs_header = (\<lambda>_. None), rs_chunks = [(2, [60, 97])], rs_failed = None\<rparr>)\<rparr>"

definition env_feed :: "(unit, ustr \<rightharpoonup> ustr \<times> int, ustr \<rightharpoonup> unit \<times> int) crawl_env" where
  "env_feed = env_example\<lparr>ce_feed_net := net_feed, ce_isoformat := (\<lambda>t. [t]),
     ce_parse := (\<lambda>_ _. \<lparr>pf_bozo = False, pf_entries = [entry_plain, entry_plain\<lparr>fe_link := Some (lit ''mailto:x'')\<rparr>],
                          pf_title = None, pf_link = None\<rparr>)\<rparr>"

definition crawl_cached :: "(ustr \<rightharpoonup> ustr \<times> int, ustr \<rightharpoonup> unit \<times> int) crawl_state" where
  "crawl_cached = crawl_start\<lparr>cs_cache := [cache_key (lit ''a.b'') \<mapsto> ([], 1000)]\<rparr>"

definition read_stamp :: "ustr \<Rightarrow> py_datetime option" where
  "read_stamp s = (case s of [t] \<Rightarrow> Some (Aware t) | _ \<Rightarrow> None)"

lemma feed_allowed:
  "is_allowed te_ascii zlib_copy net_silent map_cache 0 (lit ''newsforge/0.1'') False (cs_cache crawl_cached) (lit ''https://a.b/rss'') None
    = (cs_cache crawl_cached, Inr True)"
proof -
  have "(case urlsplit te_ascii (lit ''https://a.b/rss'') of None \<Rightarrow> False
      | Some parts \<Rightarrow> hostname te_ascii parts \<noteq> [] \<and> robots_domain te_ascii parts = lit ''a.b'')" by code_simp
  then obtain parts where parts: "urlsplit te_ascii (lit ''https://a.b/rss'') = Some parts" "hostname te_ascii parts \<noteq> []"
    "robots_domain te_ascii parts = lit ''a.b''" by (auto split: option.splits)
  have "c_get map_cache (cs_cache crawl_cached) 0 (cache_key (lit ''a.b'')) = Some []" by code_simp
  then show ?thesis using is_allowed_hit [OF parts(1,2), of map_cache "cs_cache crawl_cached" 0 "[]"] parts(3) by simp
qed

lemma feed_acquired: "\<exists>d. try_acquire te_ascii map_cache 0 30 (cs_redis crawl_cached) (lit ''https://a.b/rss'') None = Some (d, True)"
proof -
  have "(case try_acquire te_ascii map_cache 0 30 (cs_redis crawl_cached) (lit ''https://a.b/rss'') None of Some (_, b) \<Rightarrow> b | None \<Rightarrow> False)"
    by code_simp
  then show ?thesis by (auto split: option.splits prod.splits)
qed

lemma feed_fetched:
  "(case fetch te_ascii zlib_copy net_feed cfg_example 0 (lit ''https://a.b/rss'') None None of Inl _ \<Rightarrow> False
    | Inr r \<Rightarrow> snd (after_fetch env_feed r (feed_example\<lparr>f_last_fetched_at := Some 0\<rparr>) (crawl_cached\<lparr>cs_redis := d\<rparr>)) = Inr (Fetched 2))"
  by code_simp

lemma fetch_env_feed: "snd (fetch_feed env_feed 7 crawl_cached) = Inr (Fetched 2)"
proof -
  obtain d where d: "try_acquire te_ascii map_cache 0 30 (cs_redis crawl_cached) (lit ''https://a.b/rss'') None = Some (d, True)"
    using feed_acquired by blast
  obtain r where r: "fetch te_ascii zlib_copy net_feed cfg_example 0 (lit ''https://a.b/rss'') None None = Inr r"
    "snd (after_fetch env_feed r (feed_example\<lparr>f_last_fetched_at := Some 0\<rparr>) (crawl_cached\<lparr>cs_redis := d\<rparr>)) = Inr (Fetched 2)"
    using feed_fetched [of d] by (auto split: sum.splits)
  have env: "ce_te env_feed = te_ascii" "ce_z env_feed = zlib_copy" "ce_robots_net env_feed = net_silent" "ce_cache env_feed = map_cache"
    "ce_now env_feed = 0" "ce_mono env_feed = 0" "ce_cfg env_feed = cfg_example" "ce_redis env_feed = map_cache" "ce_feed_net env_feed = net_feed"
    "USER_AGENT cfg_example = lit ''newsforge/0.1''" "ALLOW_PLAIN_HTTP cfg_example = False" "PER_DOMAIN_MIN_INTERVAL cfg_example = 30"
    by (simp_all add: env_feed_def env_example_def cfg_example_def)
  have f: "cs_feeds crawl_cached = [feed_example]" "f_id feed_example = 7" "\<not> f_is_deleted feed_example" "f_is_active feed_example"
    "f_url feed_example = lit ''https://a.b/rss''" "f_etag feed_example = None" "f_last_modified feed_example = None"
    by (simp_all add: crawl_cached_def crawl_start_def feed_example_def)
  show ?thesis
    using r(2) by (simp add: fetch_feed_def Let_def env f feed_allowed d r(1))
qed

theorem fetched_entries_become_articles_witness:
  "\<exists>ms arts' q outs. length ms = 2 \<and> ingest env_feed read_stamp (\<lambda>_. 5) 0 ms empty_store = (arts', q, outs) \<and> store_ok arts'
     \<and> list_all2 (\<lambda>m. outcome_ok te_ascii m arts') ms outs"
proof -
  obtain st' where run: "fetch_feed env_feed 7 crawl_cached = (st', Inr (Fetched 2))"
    using fetch_env_feed by (cases "fetch_feed env_feed 7 crawl_cached") auto
  have "0 \<le> MAX_ENTRIES_PER_FETCH (ce_cfg env_feed)" "iso_ok (ce_isoformat env_feed) read_stamp" "ce_te env_feed = te_ascii"
    by (simp_all add: env_feed_def env_example_def cfg_example_def iso_ok_def read_stamp_def)
  then show ?thesis
    using fetched_entries_become_articles [OF run, of read_stamp empty_store "\<lambda>_. 5"] empty_store_ok by auto
qed

end
