(* ===== verification/Scheduler.thy ===== *)
theory Scheduler
  imports Feeds Robots Article_Store
begin

text \<open>
  The periodic tasks of \<^verbatim>\<open>src/tasks/scheduler.py\<close>: queueing the feeds that are due,
  dropping cached robots files, and soft-deleting old articles in batches.
\<close>

section \<open>Due feeds\<close>

definition is_due :: "int \<Rightarrow> feed \<Rightarrow> bool" where
  "is_due now r \<longleftrightarrow>
     f_next_fetch_at r \<le> now \<and> f_is_active r \<and> \<not> f_is_deleted r
     \<and> (case f_disabled_until r of None \<Rightarrow> True | Some t \<Rightarrow> t \<le> now)"

text \<open>Rows locked by another transaction are skipped.\<close>

definition select_due :: "int \<Rightarrow> (int \<Rightarrow> bool) \<Rightarrow> nat \<Rightarrow> feed list \<Rightarrow> feed list" where
  "select_due now locked limit rows =
     take limit (sort_key f_next_fetch_at (filter (\<lambda>r. is_due now r \<and> \<not> locked (f_id r)) rows))"

record fetch_job =
  fj_feed :: int
  fj_expires :: int

definition postpone :: "int \<Rightarrow> feed \<Rightarrow> feed" where
  "postpone now r = r\<lparr>f_next_fetch_at := now + seconds (f_interval_seconds r)\<rparr>"

definition enqueue_due_feeds :: "int \<Rightarrow> (int \<Rightarrow> bool) \<Rightarrow> nat \<Rightarrow> feed list \<Rightarrow> feed list \<times> fetch_job list" where
  "enqueue_due_feeds now locked limit rows =
     (let due = select_due now locked limit rows; ids = map f_id due
      in (update_where (\<lambda>r. f_id r \<in> set ids) (postpone now) rows,
          map (\<lambda>r. \<lparr>fj_feed = f_id r, fj_expires = f_interval_seconds r\<rparr>) due))"

section \<open>Robots cache\<close>

text \<open>Hosts of the active feeds; \<open>None\<close> is the \<^verbatim>\<open>ValueError\<close> of \<^verbatim>\<open>urlparse\<close>.\<close>

fun feed_hosts :: "text_env \<Rightarrow> feed list \<Rightarrow> ustr list option" where
  "feed_hosts te [] = Some []"
| "feed_hosts te (r # rows) =
     (if \<not> f_is_active r \<or> f_is_deleted r then feed_hosts te rows
      else (case urlsplit te (f_url r) of
          None \<Rightarrow> None
        | Some p \<Rightarrow>
            (case feed_hosts te rows of
               None \<Rightarrow> None
             | Some hosts \<Rightarrow>
                 Some (if hostname te p = [] then hosts else List.insert (py_lower te (hostname te p)) hosts))))"

definition refresh_robots_cache :: "text_env \<Rightarrow> ('c, ustr) cache_ops \<Rightarrow> int \<Rightarrow> feed list \<Rightarrow> 'c \<Rightarrow> ('c \<times> nat) option" where
  "refresh_robots_cache te ops now rows c =
     (case feed_hosts te rows of
        None \<Rightarrow> None
      | Some domains \<Rightarrow> Some (fold (\<lambda>d c. invalidate ops now c d) domains c, length domains))"

section \<open>Cleaning up\<close>

definition CLEANUP_BATCH :: int where
  "CLEANUP_BATCH = 5000"

definition CLEANUP_BUDGET_SECONDS :: int where
  "CLEANUP_BUDGET_SECONDS = 240"

definition is_old :: "int \<Rightarrow> article \<Rightarrow> bool" where
  "is_old cutoff r \<longleftrightarrow>
     \<not> a_is_deleted r \<and> (case a_published_at r of Some t \<Rightarrow> t | None \<Rightarrow> a_created_at r) < cutoff"

definition soft_delete :: "article \<Rightarrow> article" where
  "soft_delete r = r\<lparr>a_is_deleted := True\<rparr>"

text \<open>One batch: the ids the sub-select picks and the update on them.\<close>

definition batch_ids :: "int \<Rightarrow> int \<Rightarrow> article list \<Rightarrow> int list" where
  "batch_ids cutoff batch rows = map a_id (slice_to batch (filter (is_old cutoff) rows))"

definition cleanup_batch :: "int \<Rightarrow> int \<Rightarrow> article list \<Rightarrow> article list \<times> int" where
  "cleanup_batch cutoff batch rows =
     (let ids = batch_ids cutoff batch rows
      in (update_where (\<lambda>r. a_id r \<in> set ids) soft_delete rows, int (length (filter (\<lambda>r. a_id r \<in> set ids) rows))))"

lemma soft_delete_old [simp]: "\<not> is_old cutoff (soft_delete r)"
  by (simp add: is_old_def soft_delete_def)

lemma cleanup_batch_shrinks:
  assumes "0 < batch" and "snd (cleanup_batch cutoff batch rows) \<ge> batch"
  shows "length (filter (is_old cutoff) (fst (cleanup_batch cutoff batch rows))) < length (filter (is_old cutoff) rows)"
proof -
  let ?ids = "batch_ids cutoff batch rows"
  have "?ids \<noteq> []"
    using assms by (auto simp: cleanup_batch_def Let_def)
  then obtain r where r: "r \<in> set rows" "is_old cutoff r" "a_id r \<in> set ?ids"
    using set_slice_to [of batch "filter (is_old cutoff) rows"] by (fastforce simp: batch_ids_def neq_Nil_conv)
  have "length (filter (is_old cutoff) (update_where p soft_delete xs)) \<le> length (filter (is_old cutoff) xs)" for p xs
    by (induction xs) auto
  moreover have "length (filter (is_old cutoff) (update_where p soft_delete xs)) < length (filter (is_old cutoff) xs)"
    if "r \<in> set xs" "p r" for p xs
    using that(1)
  proof (induction xs)
    case (Cons x xs)
    then show ?case
      using calculation [of p xs] r(2) that(2) by (cases "x = r") auto
  qed simp
  ultimately show ?thesis using r by (simp add: cleanup_batch_def Let_def)
qed

text \<open>\<^verbatim>\<open>while time.monotonic() < stop_at\<close>; the clock readings are those of the tests, in order.\<close>

function cleanup_loop :: "(nat \<Rightarrow> int) \<Rightarrow> int \<Rightarrow> int \<Rightarrow> nat \<Rightarrow> article list \<Rightarrow> int \<Rightarrow> article list \<times> int" where
  "cleanup_loop clk stop_at cutoff k rows affected =
     (if clk k < stop_at
      then (let (rows', batch) = cleanup_batch cutoff CLEANUP_BATCH rows
            in if batch < CLEANUP_BATCH then (rows', affected + batch)
               else cleanup_loop clk stop_at cutoff (Suc k) rows' (affected + batch))
      else (rows, affected))"
  by pat_completeness auto
termination
proof (relation "measure (\<lambda>(clk, stop_at, cutoff, k, rows, affected). length (filter (is_old cutoff) rows))")
  fix clk stop_at cutoff k rows affected x rows' batch
  assume "x = cleanup_batch cutoff CLEANUP_BATCH rows" "(rows', batch) = x" "\<not> batch < CLEANUP_BATCH"
  then show "((clk :: nat \<Rightarrow> int, stop_at :: int, cutoff, Suc k, rows', affected + batch), clk, stop_at, cutoff, k, rows, affected)
      \<in> measure (\<lambda>(clk, stop_at, cutoff, k, rows, affected). length (filter (is_old cutoff) rows))"
    using cleanup_batch_shrinks [of CLEANUP_BATCH cutoff rows] by (auto simp: CLEANUP_BATCH_def dest: sym)
qed simp

declare cleanup_loop.simps [simp del]

definition cleanup_old_articles :: "(nat \<Rightarrow> int) \<Rightarrow> int \<Rightarrow> int \<Rightarrow> int \<Rightarrow> art_store \<Rightarrow> art_store \<times> int" where
  "cleanup_old_articles clk started now days st =
     (case cleanup_loop clk (started + seconds CLEANUP_BUDGET_SECONDS) (now - seconds (days * 86400)) 0 (art_rows st) 0 of
        (rows, affected) \<Rightarrow> (st\<lparr>art_rows := rows\<rparr>, affected))"

section \<open>What is queued\<close>

lemma set_select_due: "set (select_due now locked limit rows) \<subseteq> {r \<in> set rows. is_due now r \<and> \<not> locked (f_id r)}"
  using set_take_subset by (fastforce simp: select_due_def)

text \<open>A scheduling round queues only feeds that are due, active, not deleted, not paused and not
  locked by another scheduler, at most \<^verbatim>\<open>limit\<close> of them, the longest overdue first: no due feed
  that was left out (and is not locked) was due before one that was queued.\<close>

theorem enqueue_due_feeds_choice:
  "list_all (\<lambda>j. list_ex (\<lambda>r. f_id r = fj_feed j \<and> fj_expires j = f_interval_seconds r \<and> is_due now r \<and> \<not> locked (f_id r)) rows)
     (snd (enqueue_due_feeds now locked limit rows))
   \<and> length (snd (enqueue_due_feeds now locked limit rows)) \<le> limit
   \<and> list_all (\<lambda>r. list_all (\<lambda>q. is_due now r \<and> \<not> locked (f_id r) \<and> f_id r \<notin> fj_feed ` set (snd (enqueue_due_feeds now locked limit rows))
         \<longrightarrow> f_next_fetch_at q \<le> f_next_fetch_at r) (select_due now locked limit rows)) rows"
proof -
  let ?c = "sort_key f_next_fetch_at (filter (\<lambda>r. is_due now r \<and> \<not> locked (f_id r)) rows)"
  have sel: "select_due now locked limit rows = take limit ?c" by (simp add: select_due_def)
  have "f_next_fetch_at q \<le> f_next_fetch_at r"
    if "r \<in> set rows" "is_due now r" "\<not> locked (f_id r)" "f_id r \<notin> f_id ` set (take limit ?c)" "q \<in> set (take limit ?c)" for q r
  proof -
    have "r \<in> set (drop limit ?c)"
      using that(1-4) set_append [of "take limit ?c" "drop limit ?c"] by (auto simp del: set_append)
    moreover have "sorted (map f_next_fetch_at (take limit ?c) @ map f_next_fetch_at (drop limit ?c))"
      by (simp only: map_append [symmetric] append_take_drop_id sorted_sort_key)
    then have "\<forall>x \<in> set (map f_next_fetch_at (take limit ?c)). \<forall>y \<in> set (map f_next_fetch_at (drop limit ?c)). x \<le> y"
      unfolding sorted_append by blast
    ultimately show ?thesis using that(5) unfolding set_map by blast
  qed
  then show ?thesis
    using set_select_due [of now locked limit rows]
    by (auto simp: enqueue_due_feeds_def Let_def list_all_iff list_ex_iff sel image_image)
qed

definition due_example :: feed where
  "due_example = \<lparr>f_id = 7, f_url = lit ''https://a.b/rss'', f_site_url = [], f_title = [], f_language = lit ''simple'', f_etag = None,
     f_last_modified = None, f_interval_seconds = 1800, f_last_fetched_at = None, f_next_fetch_at = 0, f_last_status = NEVER,
     f_consecutive_errors = 0, f_disabled_until = None, f_is_active = True, f_is_deleted = False, f_created_at = 0, f_updated_at = 0\<rparr>"

theorem enqueue_due_feeds_choice_witness:
  "length (snd (enqueue_due_feeds 5 (\<lambda>_. False) 200 [due_example])) \<le> 200
   \<and> list_all (\<lambda>j. fj_feed j = 7) (snd (enqueue_due_feeds 5 (\<lambda>_. False) 200 [due_example]))"
  using enqueue_due_feeds_choice [where rows = "[due_example]" and now = 5 and locked = "\<lambda>_. False" and limit = 200] by (auto simp: due_example_def list_all_iff)

text \<open>A feed queued in one round is not queued again before its interval is over, as long as
  nobody moves its next fetch: the round moves it at once, so a slow or crashed worker does not make
  the queue grow.\<close>

theorem enqueue_not_again:
  assumes "enqueue_due_feeds now locked limit rows = (rows', jobs)" and "j \<in> set jobs" and "uniq feed_id_key rows"
    and "later < now + seconds (fj_expires j)"
  shows "fj_feed j \<notin> fj_feed ` set (snd (enqueue_due_feeds later locked' limit' rows'))"
proof
  assume "fj_feed j \<in> fj_feed ` set (snd (enqueue_due_feeds later locked' limit' rows'))"
  then obtain r' where r': "r' \<in> set rows'" "is_due later r'" "f_id r' = fj_feed j"
    using set_select_due [of later locked' limit' rows'] by (auto simp: enqueue_due_feeds_def Let_def)
  obtain r where r: "r \<in> set rows" "f_id r = fj_feed j" "fj_expires j = f_interval_seconds r"
    and rows': "rows' = update_where (\<lambda>r. f_id r \<in> f_id ` set (select_due now locked limit rows)) (postpone now) rows"
    and sel: "f_id r \<in> f_id ` set (select_due now locked limit rows)"
  proof -
    obtain r where "r \<in> set (select_due now locked limit rows)" "j = \<lparr>fj_feed = f_id r, fj_expires = f_interval_seconds r\<rparr>"
      using assms(1,2) by (auto simp: enqueue_due_feeds_def Let_def)
    then show ?thesis
      using that [of r] assms(1) set_select_due [of now locked limit rows] by (auto simp: enqueue_due_feeds_def Let_def)
  qed
  obtain s where "s \<in> set rows" "r' = (if f_id s \<in> f_id ` set (select_due now locked limit rows) then postpone now s else s)"
    using r'(1) by (auto simp: rows' set_update_where)
  moreover from this have "s = r"
    using r' r(1,2) uniq_same_row [OF assms(3), of s r "f_id r"] by (auto simp: feed_id_key_def postpone_def split: if_splits)
  ultimately show False
    using r'(2) sel r(3) assms(4) by (simp add: is_due_def postpone_def)
qed

section \<open>Cleaning up works\<close>

lemma count_soft_delete:
  assumes "\<And>r. r \<in> set rows \<Longrightarrow> p r \<Longrightarrow> is_old cutoff r"
  shows "length (filter (is_old cutoff) (update_where p soft_delete rows)) + length (filter p rows) = length (filter (is_old cutoff) rows)"
  using assms by (induction rows) auto

lemma batch_ids_old:
  assumes "uniq id_key rows" and "r \<in> set rows"
  shows "a_id r \<in> set (batch_ids cutoff batch rows) \<longleftrightarrow> r \<in> set (slice_to batch (filter (is_old cutoff) rows))"
proof
  assume "a_id r \<in> set (batch_ids cutoff batch rows)"
  then obtain q where q: "q \<in> set (slice_to batch (filter (is_old cutoff) rows))" "a_id q = a_id r"
    by (auto simp: batch_ids_def)
  then have "q \<in> set rows" using set_slice_to by fastforce
  with q assms show "r \<in> set (slice_to batch (filter (is_old cutoff) rows))" using uniq_idD by metis
qed (simp add: batch_ids_def)

text \<open>A row and what cleaning up may turn it into.\<close>

definition cleaned :: "int \<Rightarrow> article \<Rightarrow> article \<Rightarrow> bool" where
  "cleaned cutoff r r' \<longleftrightarrow> r' = r \<or> is_old cutoff r \<and> r' = soft_delete r"

lemma cleaned_trans: "cleaned cutoff r s \<Longrightarrow> cleaned cutoff s t \<Longrightarrow> cleaned cutoff r t"
  by (auto simp: cleaned_def)

lemma cleanup_batch_spec:
  assumes "uniq id_key rows" and "cleanup_batch cutoff batch rows = (rows', n)"
  shows "list_all2 (cleaned cutoff) rows rows'" and "uniq id_key rows'"
    and "int (length (filter (is_old cutoff) rows')) + n = int (length (filter (is_old cutoff) rows))"
    and "n < batch \<Longrightarrow> filter (is_old cutoff) rows' = []"
proof -
  let ?p = "\<lambda>r. a_id r \<in> set (batch_ids cutoff batch rows)"
  have rows': "rows' = update_where ?p soft_delete rows" and n: "n = int (length (filter ?p rows))"
    using assms(2) by (auto simp: cleanup_batch_def Let_def)
  have old: "is_old cutoff r" if "r \<in> set rows" "?p r" for r
    using that batch_ids_old [OF assms(1) that(1)] set_slice_to by fastforce
  show "list_all2 (cleaned cutoff) rows rows'"
    using old by (auto simp: rows' update_where_def list_all2_conv_all_nth cleaned_def)
  have "keys_of id_key rows' = keys_of id_key rows"
    unfolding rows' by (rule keys_of_update_where) (simp add: id_key_def soft_delete_def)
  then show "uniq id_key rows'" using assms(1) by (simp add: uniq_def)
  show "int (length (filter (is_old cutoff) rows')) + n = int (length (filter (is_old cutoff) rows))"
    using count_soft_delete [of rows ?p cutoff] old by (simp add: rows' n)
  have fp: "filter ?p rows = filter (\<lambda>r. r \<in> set (slice_to batch (filter (is_old cutoff) rows))) rows"
    using batch_ids_old [OF assms(1)] by (intro filter_cong) auto
  assume "n < batch"
  have "distinct (slice_to batch (filter (is_old cutoff) rows))"
    using uniq_id_distinct [OF assms(1)] by (simp add: slice_to_take distinct_take)
  moreover have "set (filter ?p rows) = set (slice_to batch (filter (is_old cutoff) rows))"
    unfolding fp using set_slice_to [of batch "filter (is_old cutoff) rows"] by auto
  ultimately have "length (slice_to batch (filter (is_old cutoff) rows)) = length (filter ?p rows)"
    using uniq_id_distinct [OF assms(1)] by (metis distinct_card distinct_filter)
  then have "slice_to batch (filter (is_old cutoff) rows) = filter (is_old cutoff) rows"
    using \<open>n < batch\<close> by (auto simp: n slice_to_take min_def split: if_splits)
  then show "filter (is_old cutoff) rows' = []"
    using batch_ids_old [OF assms(1)] by (auto simp: rows' filter_empty_conv set_update_where split: if_splits)
qed

lemma cleanup_loop_spec:
  assumes "uniq id_key rows" and "cleanup_loop clk stop_at cutoff k rows affected = (rows', n)"
  shows "list_all2 (cleaned cutoff) rows rows'
    \<and> int (length (filter (is_old cutoff) rows')) + n = int (length (filter (is_old cutoff) rows)) + affected
    \<and> ((\<forall>i. clk i < stop_at) \<longrightarrow> filter (is_old cutoff) rows' = [])"
  using assms
proof (induction clk stop_at cutoff k rows affected rule: cleanup_loop.induct)
  case (1 clk stop_at cutoff k rows affected)
  obtain rows1 b where b: "cleanup_batch cutoff CLEANUP_BATCH rows = (rows1, b)" by fastforce
  note spec = cleanup_batch_spec [OF "1.prems"(1) b]
  show ?case
  proof (cases "clk k < stop_at \<and> \<not> b < CLEANUP_BATCH")
    case True
    then have "cleanup_loop clk stop_at cutoff (Suc k) rows1 (affected + b) = (rows', n)"
      using "1.prems"(2) by (subst (asm) cleanup_loop.simps) (simp add: b)
    from "1.IH" [OF _ b [symmetric] refl _ spec(2) this] True
    have IH: "list_all2 (cleaned cutoff) rows1 rows'
      \<and> int (length (filter (is_old cutoff) rows')) + n = int (length (filter (is_old cutoff) rows1)) + (affected + b)
      \<and> ((\<forall>i. clk i < stop_at) \<longrightarrow> filter (is_old cutoff) rows' = [])"
      by blast
    moreover have "list_all2 (cleaned cutoff) rows rows'"
      using list_all2_trans [where ?P1.0 = "cleaned cutoff" and ?P2.0 = "cleaned cutoff", OF cleaned_trans spec(1)] IH by simp
    ultimately show ?thesis using spec(3) by auto
  next
    case False
    have refl: "list_all2 (cleaned cutoff) rows rows" by (simp add: list_all2_refl cleaned_def)
    show ?thesis
    proof (cases "clk k < stop_at")
      case True
      with False "1.prems"(2) have "rows' = rows1" "n = affected + b" "b < CLEANUP_BATCH"
        by (subst (asm) cleanup_loop.simps, simp add: b)+
      with spec show ?thesis by simp
    next
      case False
      with "1.prems"(2) have "rows' = rows" "n = affected" by (subst (asm) cleanup_loop.simps, simp)+
      with False refl show ?thesis by auto
    qed
  qed
qed

text \<open>C38: Cleaning up always ends; it soft-deletes only articles older than the cutoff (counted from
  when they were stored if they have no date) and changes nothing else; the number it reports is the
  number of articles it deleted; and when the time budget does not run out, none older is left.\<close>

theorem cleanup_old_articles_correct:
  assumes "store_ok st" and "cleanup_old_articles clk started now days st = (st', n)"
  shows "list_all2 (cleaned (now - seconds (days * 86400))) (art_rows st) (art_rows st')
    \<and> int (length (filter (is_old (now - seconds (days * 86400))) (art_rows st'))) + n =
        int (length (filter (is_old (now - seconds (days * 86400))) (art_rows st)))
    \<and> ((\<forall>i. clk i < started + seconds CLEANUP_BUDGET_SECONDS) \<longrightarrow>
        filter (is_old (now - seconds (days * 86400))) (art_rows st') = [])"
  using assms cleanup_loop_spec [of "art_rows st" clk "started + seconds CLEANUP_BUDGET_SECONDS" "now - seconds (days * 86400)" 0 0]
  by (auto simp: cleanup_old_articles_def store_ok_def split: prod.splits)

definition old_store :: art_store where
  "old_store = \<lparr>art_rows = [new_article 0 1 7 entry_example], art_next = 2\<rparr>"

theorem cleanup_old_articles_correct_witness:
  "\<exists>st' n. cleanup_old_articles (\<lambda>_. 0) 0 (seconds 172800) 1 old_store = (st', n)
     \<and> filter (is_old (seconds 172800 - seconds (1 * 86400))) (art_rows st') = []"
proof -
  have ok: "store_ok old_store"
    by (simp add: store_ok_def old_store_def uniq_def new_article_def id_key_def guid_key_def hash_key_def entry_example_def)
  obtain st' n where run: "cleanup_old_articles (\<lambda>_. 0) 0 (seconds 172800) 1 old_store = (st', n)" by fastforce
  with cleanup_old_articles_correct [OF ok run] show ?thesis by (auto simp: CLEANUP_BUDGET_SECONDS_def seconds_def)
qed

theorem enqueue_not_again_witness:
  "\<exists>rows' jobs. enqueue_due_feeds 5 (\<lambda>_. False) 200 [due_example] = (rows', jobs) \<and> jobs \<noteq> []
     \<and> 7 \<notin> fj_feed ` set (snd (enqueue_due_feeds (seconds 60) (\<lambda>_. False) 200 rows'))"
proof -
  let ?j = "\<lparr>fj_feed = 7, fj_expires = 1800\<rparr>"
  obtain rows' jobs where run: "enqueue_due_feeds 5 (\<lambda>_. False) 200 [due_example] = (rows', jobs)" by fastforce
  then have j: "?j \<in> set jobs"
    by (auto simp: enqueue_due_feeds_def select_due_def is_due_def due_example_def Let_def)
  have "uniq feed_id_key [due_example]" by (simp add: uniq_def feed_id_key_def)
  from enqueue_not_again [OF run j this, of "seconds 60" "\<lambda>_. False" 200] run j show ?thesis
    by (auto simp: seconds_def)
qed

section \<open>Dropping cached robots files\<close>

lemma fold_invalidate:
  assumes "cache_ok ops" and "d \<in> set domains \<or> c_get ops c later (cache_key d) = None"
  shows "c_get ops (fold (\<lambda>d c. invalidate ops now c d) domains c) later (cache_key d) = None"
  using assms(2)
proof (induction domains arbitrary: c)
  case (Cons x xs)
  have "c_get ops (invalidate ops now c x) later (cache_key d) = None" if "x = d \<or> c_get ops c later (cache_key d) = None"
    using that cache_okD(3,4) [OF assms(1)] by (cases "x = d") (auto simp: invalidate_def cache_key_def)
  with Cons show ?case by auto
qed simp

text \<open>After \<^verbatim>\<open>refresh_robots_cache\<close> no robots file of an active feed's host is cached, so the
  next crawl of each of them reads it afresh.\<close>

theorem refresh_robots_cache_drops:
  assumes "cache_ok ops" and "refresh_robots_cache te ops now rows c = Some (c', n)"
    and "r \<in> set rows" and "f_is_active r" and "\<not> f_is_deleted r"
    and "urlsplit te (f_url r) = Some p" and "hostname te p \<noteq> []"
  shows "c_get ops c' later (cache_key (robots_domain te p)) = None"
proof -
  obtain domains where d: "feed_hosts te rows = Some domains" and c': "c' = fold (\<lambda>d c. invalidate ops now c d) domains c"
    using assms(2) by (auto simp: refresh_robots_cache_def split: option.splits)
  have "robots_domain te p \<in> set domains"
    using d assms(3)
  proof (induction rows arbitrary: domains)
    case (Cons q rows)
    then show ?case using assms(4-7) by (auto simp: robots_domain_def split: if_splits option.splits)
  qed simp
  then show ?thesis unfolding c' by (intro fold_invalidate [OF assms(1)]) simp
qed

theorem refresh_robots_cache_drops_witness:
  "\<exists>c' n p. refresh_robots_cache te_ascii map_cache 5 [due_example] [cache_key (lit ''a.b'') \<mapsto> (lit ''x'', 900)] = Some (c', n)
     \<and> urlsplit te_ascii (f_url due_example) = Some p \<and> c_get map_cache c' 6 (cache_key (robots_domain te_ascii p)) = None"
proof -
  have "(case urlsplit te_ascii (lit ''https://a.b/rss'') of None \<Rightarrow> False | Some p \<Rightarrow> hostname te_ascii p \<noteq> [])" by code_simp
  then obtain p where p: "urlsplit te_ascii (f_url due_example) = Some p" "hostname te_ascii p \<noteq> []"
    by (auto simp: due_example_def split: option.splits)
  obtain c' n where run: "refresh_robots_cache te_ascii map_cache 5 [due_example] [cache_key (lit ''a.b'') \<mapsto> (lit ''x'', 900)] = Some (c', n)"
    using p by (simp add: refresh_robots_cache_def) (simp add: due_example_def)
  show ?thesis
    using run p refresh_robots_cache_drops [OF map_cache_ok run _ _ _ p, of 6] by (auto simp: due_example_def)
qed

end
