(* ===== verification/Targets.thy ===== *)
theory Targets
  imports Safe_Http
begin

text \<open>
  One key per delivery target: \<^verbatim>\<open>src/apps/subscriptions/targets.py\<close>.
\<close>

section \<open>Keys\<close>

datatype delivery = WEBHOOK | EMAIL

definition DOTLESS_DOMAINS :: "(ustr \<times> ustr) list" where
  "DOTLESS_DOMAINS = [(lit ''gmail.com'', lit ''gmail.com''), (lit ''googlemail.com'', lit ''gmail.com'')]"

text \<open>\<^verbatim>\<open>re.sub(r"\\(.)", r"\1", ...)\<close>: a backslash before any character but a line feed is dropped.\<close>

fun unescape_pairs :: "ustr \<Rightarrow> ustr" where
  "unescape_pairs (a # b # s) =
     (if a = 92 \<and> b \<noteq> 10 then b # unescape_pairs s else a # unescape_pairs (b # s))"
| "unescape_pairs s = s"

definition unquote_local :: "ustr \<Rightarrow> ustr" where
  "unquote_local l = (if 2 \<le> length l \<and> hd l = 34 \<and> last l = 34 then unescape_pairs (butlast (tl l)) else l)"

definition email_domain :: "text_env \<Rightarrow> ustr \<Rightarrow> ustr" where
  "email_domain te domain =
     (case ascii_host te (strip_by (\<lambda>c. c \<in> set (lit ''[]'')) domain) of
        Inr d \<Rightarrow> d
      | Inl _ \<Rightarrow> py_lower te domain)"

definition email_key :: "text_env \<Rightarrow> ustr \<Rightarrow> ustr" where
  "email_key te address =
     (case rpartition_at (of_char CHR ''@'') (strip address) of
        (local0, _, domain0) \<Rightarrow>
          let loc = before (of_char CHR ''+'') (py_lower te (unquote_local local0));
              domain = email_domain te domain0
          in (case map_of DOTLESS_DOMAINS domain of
                None \<Rightarrow> lit ''mailto:'' @ loc @ lit ''@'' @ domain
              | Some d \<Rightarrow> lit ''mailto:'' @ filter (\<lambda>c. c \<noteq> of_char CHR ''.'') loc @ lit ''@'' @ d))"

text \<open>\<^verbatim>\<open>re.sub(r";[^/]*", "", path)\<close> and \<^verbatim>\<open>re.sub(r"/{2,}", "/", path)\<close>.\<close>

fun drop_params :: "bool \<Rightarrow> ustr \<Rightarrow> ustr" where
  "drop_params skipping [] = []"
| "drop_params skipping (c # s) =
     (if c = 47 then c # drop_params False s
      else if skipping \<or> c = 59 then drop_params True s
      else c # drop_params False s)"

fun collapse_slashes :: "ustr \<Rightarrow> ustr" where
  "collapse_slashes (a # b # s) = (if a = 47 \<and> b = 47 then collapse_slashes (b # s) else a # collapse_slashes (b # s))"
| "collapse_slashes s = s"

text \<open>\<^verbatim>\<open>posixpath.normpath\<close> of a path that starts with exactly one slash.\<close>

fun norm_segments :: "ustr list \<Rightarrow> ustr list \<Rightarrow> ustr list" where
  "norm_segments acc [] = rev acc"
| "norm_segments acc (c # cs) =
     (if c = [] \<or> c = lit ''.'' then norm_segments acc cs
      else if c = lit ''..'' then norm_segments (tl acc) cs
      else norm_segments (c # acc) cs)"

definition normpath_abs :: "ustr \<Rightarrow> ustr" where
  "normpath_abs path = lit ''/'' @ join (lit ''/'') (norm_segments [] (split_on 47 path))"

definition path_key :: "text_env \<Rightarrow> ustr \<Rightarrow> ustr" where
  "path_key te path =
     (let p1 = map (\<lambda>c. if c = 92 then 47 else c) (unquote path);
          p2 = drop_params False p1;
          p3 = collapse_slashes (47 # p2)
      in py_lower te (normpath_abs p3))"

definition webhook_key :: "text_env \<Rightarrow> ustr \<Rightarrow> http_exn + ustr" where
  "webhook_key te url =
     (case canonical_url te url of
        Inl (UnsafeURLError _) \<Rightarrow> Inr (strip url)
      | Inl e \<Rightarrow> Inl e
      | Inr u \<Rightarrow>
          ebind (of_option PlainValueError (urlsplit te u)) (\<lambda>parts.
            Inr (sr_scheme parts @ lit ''://'' @ sr_netloc parts @ path_key te (sr_path parts))))"

definition target_key :: "text_env \<Rightarrow> delivery \<Rightarrow> ustr option \<Rightarrow> http_exn + ustr" where
  "target_key te d target =
     (case target of
        None \<Rightarrow> Inr []
      | Some t \<Rightarrow> if t = [] then Inr [] else (case d of EMAIL \<Rightarrow> Inr (email_key te t) | WEBHOOK \<Rightarrow> webhook_key te t))"

section \<open>Spellings of one mailbox\<close>

lemma rpartition_at_last:
  assumes "c \<notin> set t"
  shows "rpartition_at c (s @ c # t) = (s, True, t)"
proof -
  have all: "\<And>x. x \<in> set (rev t) \<Longrightarrow> x \<noteq> c" using assms by auto
  have "takeWhile (\<lambda>x. x \<noteq> c) (rev t @ c # rev s) = rev t" "dropWhile (\<lambda>x. x \<noteq> c) (rev t @ c # rev s) = c # rev s"
    by (simp_all only: takeWhile_append2 [OF all] dropWhile_append2 [OF all]) simp_all
  then show ?thesis by (simp add: rpartition_at_def)
qed

lemma strip_solid:
  assumes "s \<noteq> []" and "\<not> is_space (hd s)" and "\<not> is_space (last s)"
  shows "strip s = s"
  using assms by (cases s) (auto simp: strip_by_def lstrip_by_def rstrip_by_id)

lemma ascii_lower_plus [simp]: "ascii_lower c = 43 \<longleftrightarrow> c = 43"
  by (auto simp: ascii_lower_def is_upper_ascii_def)

lemma before_map:
  assumes "\<And>x. f x = c \<longleftrightarrow> x = c"
  shows "before c (map f s) = map f (before c s)"
  using assms by (simp add: partition_at_def takeWhile_map comp_def)

text \<open>A simple address: unquoted, ASCII, nothing to strip.\<close>

definition plain_address :: "ustr \<Rightarrow> ustr \<Rightarrow> bool" where
  "plain_address l d \<longleftrightarrow>
     isascii l \<and> isascii d \<and> l \<noteq> [] \<and> d \<noteq> [] \<and> 64 \<notin> set d \<and> 34 \<notin> set l \<and> \<not> is_space (hd l) \<and> \<not> is_space (last d)"

lemma email_key_plain:
  assumes "plain_address l d"
  shows "email_key te (l @ [64] @ d) =
    (let loc = before 43 (map ascii_lower l); dom = email_domain te d
     in case map_of DOTLESS_DOMAINS dom of
          None \<Rightarrow> lit ''mailto:'' @ loc @ lit ''@'' @ dom
        | Some g \<Rightarrow> lit ''mailto:'' @ filter (\<lambda>c. c \<noteq> 46) loc @ lit ''@'' @ g)"
proof -
  have st: "strip (l @ 64 # d) = l @ 64 # d"
    using assms by (intro strip_solid) (auto simp: plain_address_def)
  have rp: "rpartition_at 64 (l @ 64 # d) = (l, True, d)"
    using assms by (simp add: plain_address_def rpartition_at_last)
  have uq: "unquote_local l = l"
    using assms by (cases l) (auto simp: plain_address_def unquote_local_def)
  have lo: "py_lower te l = map ascii_lower l"
    using assms by (simp add: plain_address_def py_lower_def)
  show ?thesis by (simp add: email_key_def st rp uq lo Let_def split: option.split)
qed

text \<open>C25: Variants of an address share one key: letter case anywhere, any \<^verbatim>\<open>+tag\<close> in the local
  part, and for the providers that ignore them, dots; so they count as one receiver.\<close>

theorem email_key_variants:
  assumes "plain_address l d" and "plain_address l' d'"
    and "map ascii_lower (before 43 l) = map ascii_lower (before 43 l')
         \<or> email_domain te d \<in> fst ` set DOTLESS_DOMAINS
           \<and> filter (\<lambda>c. c \<noteq> 46) (map ascii_lower (before 43 l)) = filter (\<lambda>c. c \<noteq> 46) (map ascii_lower (before 43 l'))"
    and "map ascii_lower d = map ascii_lower d'"
  shows "email_key te (l @ [64] @ d) = email_key te (l' @ [64] @ d')"
proof -
  have strip_map: "strip_by p (map ascii_lower s) = map ascii_lower (strip_by p s)" if "\<And>x. p (ascii_lower x) = p x" for p s
    using that by (simp add: strip_by_def lstrip_by_def rstrip_by_def dropWhile_map comp_def rev_map)
  have rstrip_map: "rstrip_by p (map ascii_lower s) = map ascii_lower (rstrip_by p s)" if "\<And>x. p (ascii_lower x) = p x" for p s
    using that by (simp add: rstrip_by_def dropWhile_map comp_def rev_map)
  have dom: "email_domain te (map ascii_lower e) = email_domain te e" if "isascii e" for e
  proof -
    let ?e = "strip_by (\<lambda>c. c \<in> set (lit ''[]'')) e"
    have asc: "isascii ?e" "isascii (rstrip_by (\<lambda>c. c = 46) ?e)"
      using that set_strip_by [of "\<lambda>c. c \<in> set (lit ''[]'')" e] set_rstrip_by [of "\<lambda>c. c = 46" ?e]
      by (auto simp: isascii_def list_all_iff)
    have "strip_by (\<lambda>c. c \<in> set (lit ''[]'')) (map ascii_lower e) = map ascii_lower ?e"
      by (rule strip_map) (auto simp: lit_def ascii_lower_def is_upper_ascii_def)
    moreover have "rstrip_by (\<lambda>c. c = 46) (map ascii_lower ?e) = map ascii_lower (rstrip_by (\<lambda>c. c = 46) ?e)"
      by (rule rstrip_map) (auto simp: ascii_lower_def is_upper_ascii_def)
    ultimately have "ascii_host te (strip_by (\<lambda>c. c \<in> set (lit ''[]'')) (map ascii_lower e)) = ascii_host te ?e"
      using asc by (simp add: ascii_host_def Let_def py_lower_def comp_def)
    then show ?thesis using that by (auto simp: email_domain_def py_lower_def comp_def split: sum.split)
  qed
  have "email_domain te d = email_domain te d'"
    using dom [of d] dom [of d'] assms(1,2,4) by (simp add: plain_address_def)
  moreover have "before 43 (map ascii_lower x) = map ascii_lower (before 43 x)" for x
    by (rule before_map) simp
  ultimately show ?thesis
    using assms(3) unfolding email_key_plain [OF assms(1)] email_key_plain [OF assms(2)]
    by (auto simp: Let_def DOTLESS_DOMAINS_def split: option.splits)
qed

theorem email_key_variants_witness:
  "email_key te_ascii (lit ''Vic.Tim+1@Gmail.com'') = email_key te_ascii (lit ''victim@gmail.COM'')"
proof -
  have v: "plain_address (lit ''Vic.Tim+1'') (lit ''Gmail.com'')" "plain_address (lit ''victim'') (lit ''gmail.COM'')"
    by code_simp+
  have "email_domain te_ascii (lit ''Gmail.com'') = lit ''gmail.com''" by code_simp
  then have "email_domain te_ascii (lit ''Gmail.com'') \<in> fst ` set DOTLESS_DOMAINS" by (simp add: DOTLESS_DOMAINS_def)
  moreover have "filter (\<lambda>c. c \<noteq> 46) (map ascii_lower (before 43 (lit ''Vic.Tim+1''))) =
      filter (\<lambda>c. c \<noteq> 46) (map ascii_lower (before 43 (lit ''victim'')))"
    and "map ascii_lower (lit ''Gmail.com'') = map ascii_lower (lit ''gmail.COM'')"
    by code_simp+
  ultimately have "email_key te_ascii (lit ''Vic.Tim+1'' @ [64] @ lit ''Gmail.com'') = email_key te_ascii (lit ''victim'' @ [64] @ lit ''gmail.COM'')"
    by (intro email_key_variants [OF v]) simp_all
  then show ?thesis by (simp add: lit_def)
qed

section \<open>Spellings of one endpoint\<close>

lemma norm_segments_ok:
  assumes "list_all (\<lambda>c. c \<notin> {[], lit ''.'', lit ''..''} \<and> 47 \<notin> set c) acc" and "list_all (\<lambda>c. 47 \<notin> set c) cs"
  shows "list_all (\<lambda>c. c \<notin> {[], lit ''.'', lit ''..''} \<and> 47 \<notin> set c) (norm_segments acc cs)"
  using assms
proof (induction acc cs rule: norm_segments.induct)
  case (2 acc c cs)
  then show ?case by (cases acc) auto
qed auto

lemma normpath_segments:
  "\<exists>segs. normpath_abs path = lit ''/'' @ join (lit ''/'') segs
     \<and> list_all (\<lambda>c. c \<notin> {[], lit ''.'', lit ''..''} \<and> 47 \<notin> set c) segs"
proof -
  have "list_all (\<lambda>c. 47 \<notin> set c) (split_on 47 path)" by (auto simp: list_all_iff dest: split_on_no_sep)
  then have "list_all (\<lambda>c. c \<notin> {[], lit ''.'', lit ''..''} \<and> 47 \<notin> set c) (norm_segments [] (split_on 47 path))"
    by (intro norm_segments_ok) simp_all
  then show ?thesis unfolding normpath_abs_def by blast
qed

end
