(* ===== verification/Feed_Api.thy ===== *)
theory Feed_Api
  imports Feeds
begin

text \<open>
  The feed endpoints: \<^verbatim>\<open>src/apps/feeds/serializers.py\<close>, \<^verbatim>\<open>views.py\<close> and
  \<^verbatim>\<open>src/apps/core/permissions.py\<close>.  A request's validated data is a record whose absent fields
  are \<open>None\<close>; \<^verbatim>\<open>ValidationError\<close> is a value of \<open>api_error\<close>.
\<close>

section \<open>Operations\<close>

datatype api_error = ValidationError string string | SsrfBlocked unsafe_reason | ApiHttp http_exn

record feed_table =
  ft_rows :: "feed list"
  ft_next :: int

record feed_data =
  fd_url :: "ustr option"
  fd_language :: "ustr option"
  fd_interval_seconds :: "int option"
  fd_is_active :: "bool option"

definition DUPLICATE_URL :: api_error where
  "DUPLICATE_URL = ValidationError ''url'' ''a feed with this url already exists''"

definition MIN_FEED_INTERVAL_SECONDS :: int where
  "MIN_FEED_INTERVAL_SECONDS = 300"

datatype http_method = GET | HEAD | OPTIONS | POST | PUT | PATCH | DELETE

definition SAFE_METHODS :: "http_method list" where
  "SAFE_METHODS = [GET, HEAD, OPTIONS]"

definition is_staff_or_read_only :: "http_method \<Rightarrow> bool \<Rightarrow> bool" where
  "is_staff_or_read_only meth is_staff \<longleftrightarrow> meth \<in> set SAFE_METHODS \<or> is_staff"

definition validate_interval_seconds :: "int \<Rightarrow> api_error + int" where
  "validate_interval_seconds v =
     (if v < MIN_FEED_INTERVAL_SECONDS then Inl (ValidationError ''interval_seconds'' ''must be at least 300 seconds'') else Inr v)"


text \<open>\<^verbatim>\<open>setattr\<close> of every field that is present.\<close>

definition apply_data :: "feed_data \<Rightarrow> feed \<Rightarrow> feed" where
  "apply_data d f =
     f\<lparr>f_url := (case fd_url d of None \<Rightarrow> f_url f | Some u \<Rightarrow> u),
       f_language := (case fd_language d of None \<Rightarrow> f_language f | Some l \<Rightarrow> l),
       f_interval_seconds := (case fd_interval_seconds d of None \<Rightarrow> f_interval_seconds f | Some i \<Rightarrow> i),
       f_is_active := (case fd_is_active d of None \<Rightarrow> f_is_active f | Some b \<Rightarrow> b)\<rparr>"

definition default_feed :: "int \<Rightarrow> int \<Rightarrow> feed" where
  "default_feed now i =
     \<lparr>f_id = i, f_url = [], f_site_url = [], f_title = [], f_language = lit ''simple'', f_etag = None, f_last_modified = None,
      f_interval_seconds = 1800, f_last_fetched_at = None, f_next_fetch_at = now, f_last_status = NEVER, f_consecutive_errors = 0,
      f_disabled_until = None, f_is_active = True, f_is_deleted = False, f_created_at = now, f_updated_at = now\<rparr>"

definition restored :: "int \<Rightarrow> feed_data \<Rightarrow> feed \<Rightarrow> feed" where
  "restored now d f =
     (reset_crawl_state now ((apply_data d f)\<lparr>f_is_deleted := False,
        f_is_active := (case fd_is_active d of None \<Rightarrow> True | Some b \<Rightarrow> b)\<rparr>))\<lparr>f_updated_at := now\<rparr>"

text \<open>\<^verbatim>\<open>save()\<close> of a whole instance.\<close>

definition save_all :: "feed \<Rightarrow> feed list \<Rightarrow> feed list" where
  "save_all f rows = update_where (\<lambda>r. f_id r = f_id f) (\<lambda>_. f) rows"

text \<open>\<^verbatim>\<open>create\<close> with \<^verbatim>\<open>next_fetch_at\<close> from \<^verbatim>\<open>perform_create\<close>; an insert that hits the unique URL is the \<^verbatim>\<open>IntegrityError\<close>.\<close>

definition create_feed :: "int \<Rightarrow> feed_data \<Rightarrow> feed_table \<Rightarrow> feed_table \<times> (api_error + feed)" where
  "create_feed now d t =
     (case find (\<lambda>r. Some (f_url r) = fd_url d \<and> f_is_deleted r) (ft_rows t) of
        Some deleted \<Rightarrow> (t\<lparr>ft_rows := save_all (restored now d deleted) (ft_rows t)\<rparr>, Inr (restored now d deleted))
      | None \<Rightarrow>
          (let f = apply_data d (default_feed now (ft_next t)); t' = t\<lparr>ft_next := ft_next t + 1\<rparr>
           in if conflicts feed_url_key f (ft_rows t) then (t', Inl DUPLICATE_URL)
              else (t'\<lparr>ft_rows := ft_rows t @ [f]\<rparr>, Inr f)))"

definition update_feed :: "int \<Rightarrow> feed_data \<Rightarrow> feed \<Rightarrow> feed_table \<Rightarrow> feed_table \<times> (api_error + feed)" where
  "update_feed now d inst t =
     (let inst1 = (if fd_url d \<noteq> None \<and> fd_url d \<noteq> Some (f_url inst) then reset_crawl_state now inst else inst);
          inst2 = (apply_data d inst1)\<lparr>f_updated_at := now\<rparr>;
          rows' = save_all inst2 (ft_rows t)
      in if uniq feed_url_key rows' then (t\<lparr>ft_rows := rows'\<rparr>, Inr inst2) else (t, Inl DUPLICATE_URL))"

definition perform_destroy :: "int \<Rightarrow> feed \<Rightarrow> feed_table \<Rightarrow> feed_table" where
  "perform_destroy now inst t =
     t\<lparr>ft_rows := save_fields now (inst\<lparr>f_is_deleted := True, f_is_active := False\<rparr>) [IsDeleted, IsActive] (ft_rows t)\<rparr>"

definition refresh :: "int \<Rightarrow> feed \<Rightarrow> feed_table \<Rightarrow> feed_table" where
  "refresh now inst t =
     t\<lparr>ft_rows := save_fields now (inst\<lparr>f_next_fetch_at := now, f_disabled_until := None\<rparr>) [NextFetchAt, DisabledUntil] (ft_rows t)\<rparr>"

definition visible_feeds :: "bool \<Rightarrow> feed list \<Rightarrow> feed list" where
  "visible_feeds is_staff rows =
     sort_key f_id (filter (\<lambda>r. \<not> f_is_deleted r \<and> (is_staff \<or> f_is_active r)) rows)"

text \<open>What the two serializers show.\<close>

record public_feed =
  pv_id :: int
  pv_url :: ustr
  pv_site_url :: ustr
  pv_title :: ustr
  pv_language :: ustr
  pv_created_at :: int

definition public_view :: "feed \<Rightarrow> public_feed" where
  "public_view f = \<lparr>pv_id = f_id f, pv_url = f_url f, pv_site_url = f_site_url f, pv_title = f_title f,
                    pv_language = f_language f, pv_created_at = f_created_at f\<rparr>"

section \<open>The table stays consistent\<close>

definition table_ok :: "feed_table \<Rightarrow> bool" where
  "table_ok t \<longleftrightarrow> feeds_ok (ft_rows t) \<and> list_all (\<lambda>r. f_id r < ft_next t) (ft_rows t)"

lemma save_all_ids: "keys_of feed_id_key (save_all f rows) = keys_of feed_id_key rows"
  unfolding save_all_def by (rule keys_of_update_where) (simp add: feed_id_key_def)

lemma save_all_below: "list_all (\<lambda>r. f_id r < n) (save_all f rows) = list_all (\<lambda>r. f_id r < n) rows"
  unfolding save_all_def by (induction rows) auto

lemma restored_simps [simp]:
  "f_id (restored now d f) = f_id f" "f_is_deleted (restored now d f) = False"
  "fd_url d = Some u \<Longrightarrow> f_url (restored now d f) = u" "f_next_fetch_at (restored now d f) = now"
  "f_consecutive_errors (restored now d f) = 0" "f_disabled_until (restored now d f) = None"
  "f_etag (restored now d f) = None" "f_last_modified (restored now d f) = None"
  "f_is_active (restored now d f) = (fd_is_active d \<noteq> Some False)"
  "fd_language d = None \<or> fd_language d = Some (f_language (restored now d f))"
  "fd_interval_seconds d = None \<or> fd_interval_seconds d = Some (f_interval_seconds (restored now d f))"
  by (auto simp: restored_def reset_crawl_state_def apply_data_def split: option.splits)

lemma same_url_save:
  assumes "feeds_ok rows" and "r \<in> set rows" and "f_id f = f_id r" and "f_url f = f_url r"
  shows "feeds_ok (save_all f rows)"
proof -
  have "keys_of feed_url_key (save_all f rows) = keys_of feed_url_key rows"
    unfolding save_all_def
  proof (rule keys_of_update_where)
    fix s assume s: "s \<in> set rows" "f_id s = f_id f"
    then have "s = r"
      using assms(1-3) uniq_same_row [of feed_id_key rows s r "f_id r"] by (simp add: feeds_ok_def feed_id_key_def)
    then show "feed_url_key f = feed_url_key s" using assms(4) by (simp add: feed_url_key_def)
  qed
  then show ?thesis using assms(1) save_all_ids by (simp add: feeds_ok_def uniq_def)
qed

lemma create_ok:
  assumes "table_ok t"
  shows "table_ok (fst (create_feed now d t))"
proof (cases "find (\<lambda>r. Some (f_url r) = fd_url d \<and> f_is_deleted r) (ft_rows t)")
  case (Some r)
  then have r: "r \<in> set (ft_rows t)" "fd_url d = Some (f_url r)" using find_SomeD by fastforce+
  then have "feeds_ok (save_all (restored now d r) (ft_rows t))"
    using assms by (intro same_url_save [of _ r]) (auto simp: table_ok_def)
  then show ?thesis using assms Some by (simp add: create_feed_def table_ok_def save_all_below)
next
  case None
  let ?f = "apply_data d (default_feed now (ft_next t))"
  have "f_id ?f = ft_next t" by (simp add: apply_data_def default_feed_def)
  moreover have "\<not> conflicts feed_id_key ?f (ft_rows t)"
    using assms calculation by (auto simp: table_ok_def conflicts_def feed_id_key_def has_key_iff list_all_iff)
  ultimately show ?thesis
    using assms None by (auto simp: create_feed_def Let_def table_ok_def feeds_ok_def uniq_snoc list_all_iff)
qed

lemma update_ok:
  assumes "table_ok t"
  shows "table_ok (fst (update_feed now d inst t))"
  using assms save_all_ids by (auto simp: update_feed_def Let_def table_ok_def feeds_ok_def uniq_def save_all_below)

lemma save_fields_below: "list_all (\<lambda>r. f_id r < n) (save_fields now f xs rows) = list_all (\<lambda>r. f_id r < n) rows"
  unfolding save_fields_def by (induction rows) auto

lemma destroy_ok: "table_ok t \<Longrightarrow> table_ok (perform_destroy now inst t)"
  by (simp add: perform_destroy_def table_ok_def save_fields_ok save_fields_below)

lemma refresh_ok: "table_ok t \<Longrightarrow> table_ok (refresh now inst t)"
  by (simp add: refresh_def table_ok_def save_fields_ok save_fields_below)

text \<open>The requests that change feeds, one after the other.\<close>

inductive feed_step :: "feed_table \<Rightarrow> feed_table \<Rightarrow> bool" where
  "feed_step t (fst (create_feed now d t))"
| "inst \<in> set (ft_rows t) \<Longrightarrow> feed_step t (fst (update_feed now d inst t))"
| "inst \<in> set (ft_rows t) \<Longrightarrow> feed_step t (perform_destroy now inst t)"
| "inst \<in> set (ft_rows t) \<Longrightarrow> feed_step t (refresh now inst t)"

interpretation feed_inv: inductive_invariant feed_step table_ok
proof
  fix t t'
  assume "feed_step t t'" and "table_ok t"
  then show "table_ok t'"
    by (induction rule: feed_step.induct) (simp_all add: create_ok update_ok destroy_ok refresh_ok)
qed

text \<open>Every table the requests can lead to is consistent, so the assumption below is no restriction.\<close>

lemma reachable_table_ok: "reachable_from feed_step \<lparr>ft_rows = [], ft_next = 1\<rparr> t \<Longrightarrow> table_ok t"
proof -
  assume "reachable_from feed_step \<lparr>ft_rows = [], ft_next = 1\<rparr> t"
  moreover have "table_ok \<lparr>ft_rows = [], ft_next = 1\<rparr>" by (simp add: table_ok_def feeds_ok_def)
  ultimately show "table_ok t" by (rule feed_inv.reachable_inv)
qed


section \<open>Creating, deleting, restoring\<close>







text \<open>Non-staff users see only feeds that are active and not deleted, in the order of their ids, and
  never the crawl state: two feeds that differ only in it look the same to them.  Only staff may
  send a request that changes feeds.\<close>

theorem feeds_read_only_for_users:
  "set (visible_feeds False rows) = {r \<in> set rows. f_is_active r \<and> \<not> f_is_deleted r}
   \<and> sorted (map f_id (visible_feeds staff rows))
   \<and> public_view (reset_crawl_state now f) = public_view f
   \<and> (is_staff_or_read_only meth False \<longleftrightarrow> meth \<in> {GET, HEAD, OPTIONS})"
  by (auto simp: visible_feeds_def public_view_def reset_crawl_state_def is_staff_or_read_only_def SAFE_METHODS_def)

end
