(* ===== verification/Subscriptions.thy ===== *)
theory Subscriptions
  imports Targets Feed_Api
begin

text \<open>
  Subscriptions: \<^verbatim>\<open>src/apps/subscriptions/models.py\<close>, \<^verbatim>\<open>serializers.py\<close> and \<^verbatim>\<open>views.py\<close>,
  with the page bounds of \<^verbatim>\<open>src/apps/core/pagination.py\<close>.

  A request body is the record \<open>sub_data\<close>: an absent field is \<open>None\<close>; the two fields that may be
  null have a second option inside.  \<^verbatim>\<open>secrets.token_urlsafe\<close>, Django's e-mail validator and the
  name resolver are parameters.  A transaction that raises leaves the store as it was.
\<close>

section \<open>Models\<close>

datatype interval = INSTANT | DAILY

record subscription =
  s_id :: int
  s_owner :: int
  s_name :: ustr
  s_q :: ustr
  s_feeds :: "int list"
  s_tag_ids :: "int list"
  s_delivery :: delivery
  s_webhook_url :: "ustr option"
  s_email_to :: "ustr option"
  s_target_key :: ustr
  s_webhook_secret :: "ustr option"
  s_interval :: interval
  s_last_notified_at :: "int option"
  s_is_active :: bool
  s_created_at :: int

record delivery_log =
  dl_id :: int
  dl_subscription :: int
  dl_article :: int
  dl_delivered_at :: int
  dl_succeeded :: bool
  dl_attempts :: int
  dl_http_status :: "int option"
  dl_error :: "ustr option"
  dl_leased_until :: "int option"

record sub_store =
  ss_rows :: "subscription list"
  ss_next :: int
  ss_log :: "delivery_log list"
  ss_log_next :: int

definition sub_id_key :: "subscription \<Rightarrow> int option" where
  "sub_id_key s = Some (s_id s)"

definition log_id_key :: "delivery_log \<Rightarrow> int option" where
  "log_id_key l = Some (dl_id l)"

text \<open>\<^verbatim>\<open>delivery_log_unique\<close>.\<close>

definition log_key :: "delivery_log \<Rightarrow> (int \<times> int) option" where
  "log_key l = Some (dl_subscription l, dl_article l)"

definition sub_target :: "subscription \<Rightarrow> ustr option" where
  "sub_target s = (case s_delivery s of EMAIL \<Rightarrow> s_email_to s | WEBHOOK \<Rightarrow> s_webhook_url s)"

datatype sub_field = WebhookSecret | TargetKey | LastNotifiedAt

fun copy_sub_field :: "subscription \<Rightarrow> sub_field \<Rightarrow> subscription \<Rightarrow> subscription" where
  "copy_sub_field inst WebhookSecret r = r\<lparr>s_webhook_secret := s_webhook_secret inst\<rparr>"
| "copy_sub_field inst TargetKey r = r\<lparr>s_target_key := s_target_key inst\<rparr>"
| "copy_sub_field inst LastNotifiedAt r = r\<lparr>s_last_notified_at := s_last_notified_at inst\<rparr>"

text \<open>\<^verbatim>\<open>save\<close>: \<open>None\<close> writes every column, \<open>Some fields\<close> is \<^verbatim>\<open>update_fields\<close>.\<close>

definition sub_save :: "text_env \<Rightarrow> subscription \<Rightarrow> sub_field list option \<Rightarrow> subscription list
    \<Rightarrow> http_exn + (subscription \<times> subscription list)" where
  "sub_save te inst names rows =
     ebind (target_key te (s_delivery inst) (sub_target inst)) (\<lambda>key.
       let inst' = inst\<lparr>s_target_key := key\<rparr>;
           write = (case names of
               None \<Rightarrow> (\<lambda>_. inst')
             | Some fs \<Rightarrow> fold (copy_sub_field inst') (if TargetKey \<in> set fs then fs else fs @ [TargetKey]))
       in Inr (inst', update_where (\<lambda>r. s_id r = s_id inst) write rows))"

text \<open>The insert of \<^verbatim>\<open>Subscription.objects.create\<close>.\<close>

definition sub_insert :: "text_env \<Rightarrow> subscription \<Rightarrow> sub_store \<Rightarrow> http_exn + (subscription \<times> sub_store)" where
  "sub_insert te inst st =
     ebind (target_key te (s_delivery inst) (sub_target inst)) (\<lambda>key.
       let inst' = inst\<lparr>s_id := ss_next st, s_target_key := key\<rparr>
       in Inr (inst', st\<lparr>ss_rows := ss_rows st @ [inst'], ss_next := ss_next st + 1\<rparr>))"

section \<open>Serializer\<close>

definition MAX_FILTER_IDS :: int where
  "MAX_FILTER_IDS = 100"

definition MAX_ID :: int where
  "MAX_ID = 2 ^ 63 - 1"

datatype sub_reason =
    Required | Blank | TooLong | OutOfRange | InvalidEmail | Ssrf unsafe_reason | QuotedOrLiteral
  | UnknownFeeds "int list" | UnknownTags "int list" | WebhookUrlRequired | EmailToRequired | TargetBusy
  | TooManySubscriptions | NoSecret | OffsetTooLarge

datatype sub_error = Invalid "(string \<times> sub_reason) list" | SubHttp http_exn | NotFound

record sub_data =
  sd_name :: "ustr option"
  sd_q :: "ustr option"
  sd_feeds :: "int list option"
  sd_tag_ids :: "int list option"
  sd_delivery :: "delivery option"
  sd_webhook_url :: "ustr option option"
  sd_email_to :: "ustr option option"
  sd_interval :: "interval option"
  sd_is_active :: "bool option"

record sub_settings =
  MAX_SUBSCRIPTIONS_PER_USER :: int
  MAX_ACCOUNTS_PER_TARGET :: int

text \<open>What the validation reads besides the request.\<close>

record sub_env =
  se_te :: text_env
  se_getaddrinfo :: "ustr \<Rightarrow> int \<Rightarrow> ustr list option"
  se_cfg :: settings
  se_valid_email :: "ustr \<Rightarrow> bool"
  se_feeds :: "feed list"
  se_tags :: "int list"

definition target_field :: "delivery \<Rightarrow> string" where
  "target_field d = (case d of EMAIL \<Rightarrow> ''email_to'' | WEBHOOK \<Rightarrow> ''webhook_url'')"

text \<open>The field declarations: trimmed text with its bounds, bounded lists of ids.\<close>

definition char_field :: "string \<Rightarrow> bool \<Rightarrow> int \<Rightarrow> ustr \<Rightarrow> sub_error + ustr" where
  "char_field name allow_blank max_length v =
     (let t = strip v in
      if t = [] \<and> \<not> allow_blank then Inl (Invalid [(name, Blank)])
      else if max_length < int (length t) then Inl (Invalid [(name, TooLong)]) else Inr t)"

definition id_list_field :: "string \<Rightarrow> int list \<Rightarrow> sub_error + int list" where
  "id_list_field name v =
     (if MAX_FILTER_IDS < int (length v) then Inl (Invalid [(name, TooLong)])
      else if list_all (\<lambda>i. 1 \<le> i \<and> i \<le> MAX_ID) v then Inr v else Inl (Invalid [(name, OutOfRange)]))"

definition email_field :: "(ustr \<Rightarrow> bool) \<Rightarrow> ustr \<Rightarrow> sub_error + ustr" where
  "email_field valid v =
     (let t = strip v in if t = [] \<or> valid t then Inr t else Inl (Invalid [(''email_to'', InvalidEmail)]))"

definition validate_webhook_url :: "sub_env \<Rightarrow> ustr option \<Rightarrow> sub_error + ustr option" where
  "validate_webhook_url E v =
     (case v of
        None \<Rightarrow> Inr None
      | Some u \<Rightarrow>
          if u = [] then Inr None
          else (case assert_public_url (se_te E) (se_getaddrinfo E) (se_cfg E) u None of
                  Inl (UnsafeURLError why) \<Rightarrow> Inl (Invalid [(''webhook_url'', Ssrf why)])
                | Inl e \<Rightarrow> Inl (SubHttp e)
                | Inr _ \<Rightarrow> Inr (Some u)))"

definition validate_email_to :: "ustr option \<Rightarrow> sub_error + ustr option" where
  "validate_email_to v =
     (case v of
        None \<Rightarrow> Inr None
      | Some a \<Rightarrow>
          if a = [] then Inr None
          else (case rpartition_at 64 a of
                  (local, _, domain) \<Rightarrow>
                    if 34 \<in> set local \<or> take 1 domain = [91] then Inl (Invalid [(''email_to'', QuotedOrLiteral)])
                    else Inr (Some a)))"

definition missing_ids :: "int list \<Rightarrow> int list \<Rightarrow> int list" where
  "missing_ids value found = sort (remdups (filter (\<lambda>i. i \<notin> set found) value))"

definition validate_feeds :: "feed list \<Rightarrow> int list \<Rightarrow> sub_error + int list" where
  "validate_feeds feeds value =
     (let found = map f_id (filter (\<lambda>f. f_id f \<in> set value \<and> \<not> f_is_deleted f) feeds);
          missing = missing_ids value found
      in if missing \<noteq> [] then Inl (Invalid [(''feeds'', UnknownFeeds missing)]) else Inr (sort (remdups value)))"

definition validate_tag_ids :: "int list \<Rightarrow> int list \<Rightarrow> sub_error + int list" where
  "validate_tag_ids tags value =
     (let missing = missing_ids value (filter (\<lambda>t. t \<in> set value) tags)
      in if missing \<noteq> [] then Inl (Invalid [(''tag_ids'', UnknownTags missing)]) else Inr (sort (remdups value)))"

text \<open>The errors of all the fields are reported together; an exception of another kind ends the request.\<close>

fun both :: "sub_error + 'a \<Rightarrow> sub_error + 'b \<Rightarrow> sub_error + ('a \<times> 'b)" where
  "both (Inr x) (Inr y) = Inr (x, y)"
| "both (Inr x) (Inl e) = Inl e"
| "both (Inl (Invalid es)) (Inl (Invalid fs)) = Inl (Invalid (es @ fs))"
| "both (Inl (Invalid es)) (Inl e) = Inl e"
| "both (Inl (Invalid es)) (Inr y) = Inl (Invalid es)"
| "both (Inl e) _ = Inl e"

definition present :: "bool \<Rightarrow> string \<Rightarrow> ('a \<Rightarrow> sub_error + 'b) \<Rightarrow> 'a option \<Rightarrow> sub_error + 'b option" where
  "present required name f v =
     (case v of
        None \<Rightarrow> if required then Inl (Invalid [(name, Required)]) else Inr None
      | Some x \<Rightarrow> ebind (f x) (\<lambda>y. Inr (Some y)))"

definition nullable :: "('a \<Rightarrow> sub_error + 'b) \<Rightarrow> 'a option \<Rightarrow> sub_error + 'b option" where
  "nullable f v = (case v of None \<Rightarrow> Inr None | Some x \<Rightarrow> ebind (f x) (\<lambda>y. Inr (Some y)))"

definition run_fields :: "sub_env \<Rightarrow> bool \<Rightarrow> sub_data \<Rightarrow> sub_error + sub_data" where
  "run_fields E partial d =
     ebind
       (both (present (\<not> partial) ''name'' (char_field ''name'' False 120) (sd_name d))
       (both (present (\<not> partial) ''q'' (char_field ''q'' False 256) (sd_q d))
       (both (present False ''feeds'' (\<lambda>v. ebind (id_list_field ''feeds'' v) (validate_feeds (se_feeds E))) (sd_feeds d))
       (both (present False ''tag_ids'' (\<lambda>v. ebind (id_list_field ''tag_ids'' v) (validate_tag_ids (se_tags E))) (sd_tag_ids d))
       (both (present (\<not> partial) ''delivery'' Inr (sd_delivery d))
       (both (present False ''webhook_url''
                (\<lambda>v. ebind (nullable (char_field ''webhook_url'' True 2048) v) (validate_webhook_url E)) (sd_webhook_url d))
             (present False ''email_to''
                (\<lambda>v. ebind (nullable (email_field (se_valid_email E)) v) validate_email_to) (sd_email_to d))))))))
       (\<lambda>(name, q, feeds, tags, delivery, url, mail).
          Inr (d\<lparr>sd_name := name, sd_q := q, sd_feeds := feeds, sd_tag_ids := tags, sd_delivery := delivery,
                 sd_webhook_url := url, sd_email_to := mail\<rparr>))"

text \<open>\<^verbatim>\<open>validate\<close>, over the validated attributes and the instance of an update.\<close>

definition current :: "('d \<Rightarrow> 'a option) \<Rightarrow> (subscription \<Rightarrow> 'a) \<Rightarrow> 'd \<Rightarrow> subscription option \<Rightarrow> 'a option" where
  "current field attr d inst = (case field d of Some v \<Rightarrow> Some v | None \<Rightarrow> map_option attr inst)"

definition validate :: "bool \<Rightarrow> subscription option \<Rightarrow> sub_data \<Rightarrow> sub_error + sub_data" where
  "validate partial inst d0 =
     (let d = (if partial then d0
               else d0\<lparr>sd_feeds := Some (case sd_feeds d0 of None \<Rightarrow> [] | Some v \<Rightarrow> v),
                       sd_tag_ids := Some (case sd_tag_ids d0 of None \<Rightarrow> [] | Some v \<Rightarrow> v)\<rparr>);
          delivery = current sd_delivery s_delivery d inst;
          url = (case current sd_webhook_url s_webhook_url d inst of None \<Rightarrow> None | Some v \<Rightarrow> v);
          mail = (case current sd_email_to s_email_to d inst of None \<Rightarrow> None | Some v \<Rightarrow> v)
      in if delivery = Some WEBHOOK \<and> \<not> truthy url then Inl (Invalid [(''webhook_url'', WebhookUrlRequired)])
         else if delivery = Some EMAIL \<and> \<not> truthy mail then Inl (Invalid [(''email_to'', EmailToRequired)])
         else Inr d)"

definition is_valid :: "sub_env \<Rightarrow> bool \<Rightarrow> subscription option \<Rightarrow> sub_data \<Rightarrow> sub_error + sub_data" where
  "is_valid E partial inst d = ebind (run_fields E partial d) (validate partial inst)"

text \<open>\<^verbatim>\<open>_check_target\<close>; the advisory lock makes the count and the write one step.\<close>

definition other_owners :: "int \<Rightarrow> ustr \<Rightarrow> subscription list \<Rightarrow> int list" where
  "other_owners owner key rows = remdups (map s_owner (filter (\<lambda>s. s_owner s \<noteq> owner \<and> s_target_key s = key) rows))"

definition check_target :: "text_env \<Rightarrow> sub_settings \<Rightarrow> int \<Rightarrow> delivery \<Rightarrow> ustr option \<Rightarrow> subscription list \<Rightarrow> sub_error + unit" where
  "check_target te lims owner d target rows =
     (case target_key te d target of
        Inl e \<Rightarrow> Inl (SubHttp e)
      | Inr key \<Rightarrow>
          if key = [] then Inr ()
          else if MAX_ACCOUNTS_PER_TARGET lims \<le> int (length (other_owners owner key rows))
            then Inl (Invalid [(target_field d, TargetBusy)])
          else Inr ())"

definition lift_http :: "http_exn + 'a \<Rightarrow> sub_error + 'a" where
  "lift_http r = (case r of Inl e \<Rightarrow> Inl (SubHttp e) | Inr x \<Rightarrow> Inr x)"

text \<open>\<^verbatim>\<open>transaction.atomic\<close>: an exception rolls the store back.\<close>

definition atomic :: "'s \<Rightarrow> 'e + ('a \<times> 's) \<Rightarrow> 's \<times> ('e + 'a)" where
  "atomic st r = (case r of Inl e \<Rightarrow> (st, Inl e) | Inr (x, st') \<Rightarrow> (st', Inr x))"

text \<open>\<^verbatim>\<open>_ensure_secret\<close>; the result has the secret that was issued.\<close>

definition ensure_secret :: "text_env \<Rightarrow> ustr \<Rightarrow> subscription \<Rightarrow> sub_store \<Rightarrow> sub_error + ((subscription \<times> ustr option) \<times> sub_store)" where
  "ensure_secret te token inst st =
     (if s_delivery inst = WEBHOOK \<and> \<not> truthy (s_webhook_secret inst)
      then ebind (lift_http (sub_save te (inst\<lparr>s_webhook_secret := Some token\<rparr>) (Some [WebhookSecret]) (ss_rows st)))
             (\<lambda>(inst', rows). Inr ((inst', Some token), st\<lparr>ss_rows := rows\<rparr>))
      else Inr ((inst, None), st))"

definition set_fields :: "sub_data \<Rightarrow> subscription \<Rightarrow> subscription" where
  "set_fields d s =
     s\<lparr>s_name := (case sd_name d of None \<Rightarrow> s_name s | Some v \<Rightarrow> v),
       s_q := (case sd_q d of None \<Rightarrow> s_q s | Some v \<Rightarrow> v),
       s_feeds := (case sd_feeds d of None \<Rightarrow> s_feeds s | Some v \<Rightarrow> v),
       s_tag_ids := (case sd_tag_ids d of None \<Rightarrow> s_tag_ids s | Some v \<Rightarrow> v),
       s_delivery := (case sd_delivery d of None \<Rightarrow> s_delivery s | Some v \<Rightarrow> v),
       s_webhook_url := (case sd_webhook_url d of None \<Rightarrow> s_webhook_url s | Some v \<Rightarrow> v),
       s_email_to := (case sd_email_to d of None \<Rightarrow> s_email_to s | Some v \<Rightarrow> v),
       s_interval := (case sd_interval d of None \<Rightarrow> s_interval s | Some v \<Rightarrow> v),
       s_is_active := (case sd_is_active d of None \<Rightarrow> s_is_active s | Some v \<Rightarrow> v)\<rparr>"

definition blank_sub :: "int \<Rightarrow> int \<Rightarrow> delivery \<Rightarrow> subscription" where
  "blank_sub now owner d =
     \<lparr>s_id = 0, s_owner = owner, s_name = [], s_q = [], s_feeds = [], s_tag_ids = [], s_delivery = d, s_webhook_url = None,
      s_email_to = None, s_target_key = [], s_webhook_secret = None, s_interval = INSTANT, s_last_notified_at = None,
      s_is_active = True, s_created_at = now\<rparr>"

definition data_target :: "delivery \<Rightarrow> sub_data \<Rightarrow> ustr option option" where
  "data_target d v = (case d of EMAIL \<Rightarrow> sd_email_to v | WEBHOOK \<Rightarrow> sd_webhook_url v)"

definition inst_target :: "delivery \<Rightarrow> subscription \<Rightarrow> ustr option" where
  "inst_target d s = (case d of EMAIL \<Rightarrow> s_email_to s | WEBHOOK \<Rightarrow> s_webhook_url s)"

text \<open>\<^verbatim>\<open>create\<close>; a full body has a delivery, the missing one was refused by its field.\<close>

definition create_sub :: "text_env \<Rightarrow> sub_settings \<Rightarrow> int \<Rightarrow> ustr \<Rightarrow> int \<Rightarrow> sub_data \<Rightarrow> sub_store
    \<Rightarrow> sub_store \<times> (sub_error + (subscription \<times> ustr option))" where
  "create_sub te lims now token owner d st =
     atomic st
       (if MAX_SUBSCRIPTIONS_PER_USER lims \<le> int (length (filter (\<lambda>s. s_owner s = owner) (ss_rows st)))
        then Inl (Invalid [(''non_field_errors'', TooManySubscriptions)])
        else (case sd_delivery d of
                None \<Rightarrow> Inl (Invalid [(''delivery'', Required)])
              | Some dv \<Rightarrow>
                  ebind (check_target te lims owner dv (case data_target dv d of None \<Rightarrow> None | Some t \<Rightarrow> t) (ss_rows st)) (\<lambda>_.
                  ebind (lift_http (sub_insert te (set_fields d (blank_sub now owner dv)) st)) (\<lambda>(inst, st1).
                    ensure_secret te token inst st1))))"

definition update_sub :: "text_env \<Rightarrow> sub_settings \<Rightarrow> ustr \<Rightarrow> sub_data \<Rightarrow> subscription \<Rightarrow> sub_store
    \<Rightarrow> sub_store \<times> (sub_error + (subscription \<times> ustr option))" where
  "update_sub te lims token d inst st =
     (let dv = (case sd_delivery d of None \<Rightarrow> s_delivery inst | Some v \<Rightarrow> v);
          target = (case data_target dv d of None \<Rightarrow> inst_target dv inst | Some t \<Rightarrow> t);
          cur = inst_target (s_delivery inst) inst
      in atomic st
           (ebind (if (dv, target) \<noteq> (s_delivery inst, cur) then check_target te lims (s_owner inst) dv target (ss_rows st) else Inr ()) (\<lambda>_.
            ebind (lift_http (sub_save te (set_fields d inst) None (ss_rows st))) (\<lambda>(inst', rows).
              ensure_secret te token inst' (st\<lparr>ss_rows := rows\<rparr>)))))"

text \<open>\<^verbatim>\<open>to_representation\<close>: what a response shows.\<close>

record sub_view =
  v_id :: int
  v_name :: ustr
  v_q :: ustr
  v_feeds :: "int list"
  v_tag_ids :: "int list"
  v_delivery :: delivery
  v_webhook_url :: "ustr option"
  v_email_to :: "ustr option"
  v_interval :: interval
  v_is_active :: bool
  v_last_notified_at :: "int option"
  v_created_at :: int
  v_webhook_secret :: "ustr option"

definition to_representation :: "ustr option \<Rightarrow> subscription \<Rightarrow> sub_view" where
  "to_representation issued s =
     \<lparr>v_id = s_id s, v_name = s_name s, v_q = s_q s, v_feeds = s_feeds s, v_tag_ids = s_tag_ids s, v_delivery = s_delivery s,
      v_webhook_url = s_webhook_url s, v_email_to = s_email_to s, v_interval = s_interval s, v_is_active = s_is_active s,
      v_last_notified_at = s_last_notified_at s, v_created_at = s_created_at s,
      v_webhook_secret = (if truthy issued then issued else None)\<rparr>"

section \<open>Views\<close>

definition get_queryset :: "int \<Rightarrow> sub_store \<Rightarrow> subscription list" where
  "get_queryset user st = sort_key (\<lambda>s. - s_created_at s) (filter (\<lambda>s. s_owner s = user) (ss_rows st))"

definition get_object :: "int \<Rightarrow> int \<Rightarrow> sub_store \<Rightarrow> sub_error + subscription" where
  "get_object user pk st = of_option NotFound (find (\<lambda>s. s_id s = pk) (get_queryset user st))"

text \<open>\<^verbatim>\<open>POST\<close>, \<^verbatim>\<open>PUT\<close>/\<^verbatim>\<open>PATCH\<close> and \<^verbatim>\<open>DELETE\<close>; deleting cascades to the log.\<close>

definition show_result :: "sub_store \<times> (sub_error + (subscription \<times> ustr option)) \<Rightarrow> sub_store \<times> (sub_error + sub_view)" where
  "show_result r = (fst r, ebind (snd r) (\<lambda>(inst, issued). Inr (to_representation issued inst)))"

definition post_sub :: "sub_env \<Rightarrow> sub_settings \<Rightarrow> int \<Rightarrow> ustr \<Rightarrow> int \<Rightarrow> sub_data \<Rightarrow> sub_store \<Rightarrow> sub_store \<times> (sub_error + sub_view)" where
  "post_sub E lims now token user d st =
     (case is_valid E False None d of
        Inl e \<Rightarrow> (st, Inl e)
      | Inr v \<Rightarrow> show_result (create_sub (se_te E) lims now token user v st))"

definition put_sub :: "sub_env \<Rightarrow> sub_settings \<Rightarrow> bool \<Rightarrow> ustr \<Rightarrow> int \<Rightarrow> int \<Rightarrow> sub_data \<Rightarrow> sub_store \<Rightarrow> sub_store \<times> (sub_error + sub_view)" where
  "put_sub E lims partial token user pk d st =
     (case ebind (get_object user pk st) (\<lambda>inst. ebind (is_valid E partial (Some inst) d) (\<lambda>v. Inr (inst, v))) of
        Inl e \<Rightarrow> (st, Inl e)
      | Inr (inst, v) \<Rightarrow> show_result (update_sub (se_te E) lims token v inst st))"

definition delete_sub :: "int \<Rightarrow> int \<Rightarrow> sub_store \<Rightarrow> sub_store \<times> (sub_error + unit)" where
  "delete_sub user pk st =
     (case get_object user pk st of
        Inl e \<Rightarrow> (st, Inl e)
      | Inr inst \<Rightarrow> (st\<lparr>ss_rows := filter (\<lambda>s. s_id s \<noteq> s_id inst) (ss_rows st),
                        ss_log := filter (\<lambda>l. dl_subscription l \<noteq> s_id inst) (ss_log st)\<rparr>, Inr ()))"

definition rotate_secret :: "text_env \<Rightarrow> ustr \<Rightarrow> int \<Rightarrow> int \<Rightarrow> sub_store \<Rightarrow> sub_store \<times> (sub_error + ustr option)" where
  "rotate_secret te token user pk st =
     atomic st
       (ebind (get_object user pk st) (\<lambda>sub.
        ebind (raise_if (s_delivery sub \<noteq> WEBHOOK) (Invalid [(''delivery'', NoSecret)])) (\<lambda>_.
        ebind (lift_http (sub_save te (sub\<lparr>s_webhook_secret := Some token\<rparr>) (Some [WebhookSecret]) (ss_rows st))) (\<lambda>(sub', rows).
          Inr (s_webhook_secret sub', st\<lparr>ss_rows := rows\<rparr>)))))"

text \<open>The delivery log of a subscription, newest row first, one page; the client's limit and offset are parsed by the framework.\<close>

definition MAX_OFFSET :: int where
  "MAX_OFFSET = 10000"

definition max_limit :: int where
  "max_limit = 100"

definition get_offset :: "int \<Rightarrow> sub_error + int" where
  "get_offset offset = (if MAX_OFFSET < offset then Inl (Invalid [(''offset'', OffsetTooLarge)]) else Inr offset)"

definition paginate :: "int \<Rightarrow> int \<Rightarrow> 'a list \<Rightarrow> sub_error + 'a list" where
  "paginate limit offset rows =
     ebind (get_offset offset) (\<lambda>off. Inr (take (nat (min limit max_limit)) (drop (nat off) rows)))"

record log_view =
  lv_article_id :: int
  lv_delivered_at :: int
  lv_succeeded :: bool
  lv_attempts :: int
  lv_http_status :: "int option"
  lv_error :: "ustr option"

definition log_representation :: "delivery_log \<Rightarrow> log_view" where
  "log_representation l =
     \<lparr>lv_article_id = dl_article l, lv_delivered_at = dl_delivered_at l, lv_succeeded = dl_succeeded l,
      lv_attempts = dl_attempts l, lv_http_status = dl_http_status l, lv_error = dl_error l\<rparr>"

definition deliveries :: "int \<Rightarrow> int \<Rightarrow> int \<Rightarrow> int \<Rightarrow> sub_store \<Rightarrow> sub_error + log_view list" where
  "deliveries user pk limit offset st =
     ebind (get_object user pk st) (\<lambda>sub.
     ebind (paginate limit offset (sort_key (\<lambda>l. - dl_id l) (filter (\<lambda>l. dl_subscription l = s_id sub) (ss_log st)))) (\<lambda>page.
       Inr (map log_representation page)))"

end
