(* ===== verification/Subscription_Rules.thy ===== *)
theory Subscription_Rules
  imports Subscriptions
begin

text \<open>
  What holds of the subscription table whatever requests arrive: the bounds per account and per
  receiver, keys in step with targets, a secret on every webhook; and who sees a secret.
\<close>

section \<open>The invariant\<close>

definition key_owners :: "ustr \<Rightarrow> subscription list \<Rightarrow> int set" where
  "key_owners k rows = s_owner ` {s \<in> set rows. s_target_key s = k}"

definition row_ok :: "text_env \<Rightarrow> subscription \<Rightarrow> bool" where
  "row_ok te s \<longleftrightarrow> target_key te (s_delivery s) (sub_target s) = Inr (s_target_key s) \<and> truthy (sub_target s)
     \<and> (s_delivery s = WEBHOOK \<longrightarrow> truthy (s_webhook_secret s))"

definition owned :: "int \<Rightarrow> subscription list \<Rightarrow> int" where
  "owned i rows = int (length (filter (\<lambda>s. s_owner s = i) rows))"

lemma owned_map: "owned i rows = int (length (filter (\<lambda>j. j = i) (map s_owner rows)))"
  by (simp add: owned_def filter_map comp_def)

definition log_ok :: "sub_store \<Rightarrow> bool" where
  "log_ok st \<longleftrightarrow> uniq log_key (ss_log st) \<and> uniq log_id_key (ss_log st) \<and> (\<forall>l \<in> set (ss_log st). dl_id l < ss_log_next st)
     \<and> (\<forall>l \<in> set (ss_log st). dl_subscription l \<in> s_id ` set (ss_rows st))"

definition subs_ok :: "text_env \<Rightarrow> sub_settings \<Rightarrow> sub_store \<Rightarrow> bool" where
  "subs_ok te lims st \<longleftrightarrow>
     uniq sub_id_key (ss_rows st) \<and> (\<forall>s \<in> set (ss_rows st). s_id s < ss_next st) \<and> (\<forall>s \<in> set (ss_rows st). row_ok te s)
     \<and> (\<forall>s \<in> set (ss_rows st). owned (s_owner s) (ss_rows st) \<le> MAX_SUBSCRIPTIONS_PER_USER lims)
     \<and> (\<forall>s \<in> set (ss_rows st). s_target_key s \<noteq> [] \<longrightarrow>
          int (card (key_owners (s_target_key s) (ss_rows st))) \<le> MAX_ACCOUNTS_PER_TARGET lims)
     \<and> log_ok st"

lemma subs_okE:
  assumes "subs_ok te lims st"
  shows "uniq sub_id_key (ss_rows st)" "\<And>s. s \<in> set (ss_rows st) \<Longrightarrow> s_id s < ss_next st"
    "\<And>s. s \<in> set (ss_rows st) \<Longrightarrow> row_ok te s" "log_ok st"
  using assms by (auto simp: subs_ok_def)

lemma finite_key_owners [simp]: "finite (key_owners k rows)"
  by (simp add: key_owners_def)

lemma length_other_owners: "length (other_owners i k rows) = card (key_owners k rows - {i})"
proof -
  have "set (map s_owner (filter (\<lambda>s. s_owner s \<noteq> i \<and> s_target_key s = k) rows)) = key_owners k rows - {i}"
    by (auto simp: key_owners_def)
  then show ?thesis unfolding other_owners_def length_remdups_card_conv by simp
qed

lemma card_with_owner:
  assumes "A \<subseteq> insert i (key_owners k rows)"
  shows "card A \<le> Suc (length (other_owners i k rows))"
proof -
  have "card A \<le> card (insert i (key_owners k rows))" using assms by (intro card_mono) auto
  then show ?thesis by (simp add: length_other_owners card.insert_remove)
qed

lemma card_key_owners_le:
  assumes "A \<subseteq> key_owners k rows" and "A \<noteq> {}" and "k \<noteq> []"
    and "\<forall>s \<in> set rows. s_target_key s \<noteq> [] \<longrightarrow> int (card (key_owners (s_target_key s) rows)) \<le> m"
  shows "int (card A) \<le> m"
proof -
  obtain s where "s \<in> set rows" "s_target_key s = k" using assms(1,2) by (auto simp: key_owners_def)
  then have "int (card (key_owners k rows)) \<le> m" using assms(3,4) by blast
  moreover have "card A \<le> card (key_owners k rows)" using assms(1) by (intro card_mono) auto
  ultimately show ?thesis by linarith
qed

text \<open>A row may enter under a key when few enough other accounts have it.\<close>

definition key_free :: "sub_settings \<Rightarrow> int \<Rightarrow> ustr \<Rightarrow> subscription list \<Rightarrow> bool" where
  "key_free lims i k rows \<longleftrightarrow> k = [] \<or> int (length (other_owners i k rows)) < MAX_ACCOUNTS_PER_TARGET lims"

lemma subs_ok_append:
  assumes ok: "subs_ok te lims st" and row: "row_ok te s" and free: "key_free lims (s_owner s) (s_target_key s) (ss_rows st)"
    and room: "owned (s_owner s) (ss_rows st) < MAX_SUBSCRIPTIONS_PER_USER lims" and new: "s_id s = ss_next st"
  shows "subs_ok te lims (st\<lparr>ss_rows := ss_rows st @ [s], ss_next := ss_next st + 1\<rparr>)"
proof -
  let ?rows = "ss_rows st @ [s]"
  have "uniq sub_id_key ?rows"
    using subs_okE(1,2) [OF ok] new by (fastforce simp: uniq_snoc conflicts_def sub_id_key_def has_key_iff)
  moreover have "owned (s_owner r) ?rows \<le> MAX_SUBSCRIPTIONS_PER_USER lims" if "r \<in> set ?rows" for r
    using that ok room by (auto simp: subs_ok_def owned_def)
  moreover have "int (card (key_owners k ?rows)) \<le> MAX_ACCOUNTS_PER_TARGET lims" if "k \<noteq> []" "k \<in> s_target_key ` set ?rows" for k
  proof (cases "k = s_target_key s")
    case True
    then have "card (key_owners k ?rows) \<le> Suc (length (other_owners (s_owner s) k (ss_rows st)))"
      by (intro card_with_owner) (auto simp: key_owners_def)
    then show ?thesis using free that True by (simp add: key_free_def)
  next
    case False
    then have "key_owners k ?rows \<subseteq> key_owners k (ss_rows st)" "key_owners k ?rows \<noteq> {}" using that by (auto simp: key_owners_def)
    then show ?thesis using that(1) ok by (intro card_key_owners_le [of _ k "ss_rows st"]) (auto simp: subs_ok_def)
  qed
  ultimately show ?thesis
    using subs_okE(2,3,4) [OF ok] row new by (force simp: subs_ok_def log_ok_def)
qed

abbreviation replace_sub :: "subscription \<Rightarrow> subscription list \<Rightarrow> subscription list" where
  "replace_sub s rows \<equiv> update_where (\<lambda>r. s_id r = s_id s) (\<lambda>_. s) rows"

lemma subs_ok_replace:
  assumes ok: "subs_ok te lims st" and row: "row_ok te s" and old: "old \<in> set (ss_rows st)"
    and same: "s_id s = s_id old" "s_owner s = s_owner old"
    and free: "s_target_key s = s_target_key old \<or> key_free lims (s_owner s) (s_target_key s) (ss_rows st)"
  shows "subs_ok te lims (st\<lparr>ss_rows := replace_sub s (ss_rows st)\<rparr>)"
proof -
  define R where R: "R = replace_sub s (ss_rows st)"
  have only: "r = old" if "r \<in> set (ss_rows st)" "s_id r = s_id s" for r
    using uniq_same_row [OF subs_okE(1) [OF ok], of r old "s_id old"] that old same by (simp add: sub_id_key_def)
  have rows: "set R = insert s (set (ss_rows st) - {old})"
    using only old same by (force simp: R set_update_where)
  have "keys_of sub_id_key R = keys_of sub_id_key (ss_rows st)"
    unfolding R by (rule keys_of_update_where) (simp add: sub_id_key_def)
  then have "uniq sub_id_key R" using subs_okE(1) [OF ok] by (simp add: uniq_def)
  moreover have "map s_owner R = map s_owner (ss_rows st)"
    unfolding R by (rule map_update_where) (use only same in auto)
  then have own: "owned i R = owned i (ss_rows st)" for i
    using owned_map [of i R] owned_map [of i "ss_rows st"] by simp
  moreover have "int (card (key_owners k R)) \<le> MAX_ACCOUNTS_PER_TARGET lims" if "k \<noteq> []" "k \<in> s_target_key ` set R" for k
  proof (cases "k = s_target_key s \<and> s_target_key s \<noteq> s_target_key old")
    case True
    then have "card (key_owners k R) \<le> Suc (length (other_owners (s_owner s) k (ss_rows st)))"
      unfolding key_owners_def rows by (intro card_with_owner) (auto simp: key_owners_def)
    then show ?thesis using free that True by (auto simp: key_free_def)
  next
    case False
    then have "key_owners k R \<subseteq> key_owners k (ss_rows st)" "key_owners k R \<noteq> {}"
      using that old same unfolding key_owners_def rows by auto
    then show ?thesis using that(1) ok by (intro card_key_owners_le [of _ k "ss_rows st"]) (auto simp: subs_ok_def)
  qed
  moreover have "s_id ` set R = s_id ` set (ss_rows st)" unfolding rows using old same by auto
  ultimately show ?thesis
    using ok row old same own unfolding subs_ok_def log_ok_def R [symmetric] by (simp add: rows)
qed

section \<open>Requests keep it\<close>

definition with_secret :: "ustr \<Rightarrow> subscription \<Rightarrow> subscription" where
  "with_secret token s = (if s_delivery s = WEBHOOK \<and> \<not> truthy (s_webhook_secret s) then s\<lparr>s_webhook_secret := Some token\<rparr> else s)"

lemma sub_target_updates [simp]:
  "sub_target (s\<lparr>s_webhook_secret := x\<rparr>) = sub_target s" "sub_target (s\<lparr>s_target_key := k\<rparr>) = sub_target s"
  "sub_target (s\<lparr>s_id := i\<rparr>) = sub_target s" "sub_target (s\<lparr>s_last_notified_at := t\<rparr>) = sub_target s"
  by (cases "s_delivery s"; simp add: sub_target_def)+

lemma with_secret_simps [simp]:
  "s_id (with_secret token s) = s_id s" "s_owner (with_secret token s) = s_owner s"
  "s_target_key (with_secret token s) = s_target_key s" "s_delivery (with_secret token s) = s_delivery s"
  "sub_target (with_secret token s) = sub_target s"
  by (simp_all add: with_secret_def)

lemma set_fields_delivery: "s_delivery (set_fields d s) = (case sd_delivery d of None \<Rightarrow> s_delivery s | Some v \<Rightarrow> v)"
  by (simp add: set_fields_def)

lemma set_fields_target:
  "sub_target (set_fields d s) =
     (let dv = case sd_delivery d of None \<Rightarrow> s_delivery s | Some v \<Rightarrow> v
      in case data_target dv d of None \<Rightarrow> inst_target dv s | Some t \<Rightarrow> t)"
proof -
  have "s_webhook_url (set_fields d s) = (case sd_webhook_url d of None \<Rightarrow> s_webhook_url s | Some v \<Rightarrow> v)"
    "s_email_to (set_fields d s) = (case sd_email_to d of None \<Rightarrow> s_email_to s | Some v \<Rightarrow> v)"
    by (simp_all add: set_fields_def)
  then show ?thesis
    by (cases "case sd_delivery d of None \<Rightarrow> s_delivery s | Some v \<Rightarrow> v")
      (simp_all add: sub_target_def set_fields_delivery data_target_def inst_target_def split: option.split)
qed

lemma secret_then_key: "s\<lparr>s_webhook_secret := x, s_target_key := s_target_key s\<rparr> = s\<lparr>s_webhook_secret := x\<rparr>"
  by (cases s) simp

lemma set_fields_simps [simp]:
  "s_id (set_fields d s) = s_id s" "s_owner (set_fields d s) = s_owner s"
  "s_webhook_secret (set_fields d s) = s_webhook_secret s"
  by (simp_all add: set_fields_def)

text \<open>Writing a new secret to the row as it is stored.\<close>

lemma save_secret:
  assumes "\<And>r. r \<in> set rows \<Longrightarrow> s_id r = s_id s \<Longrightarrow> r = s"
    and "target_key te (s_delivery s) (sub_target s) = Inr (s_target_key s)"
  shows "sub_save te (s\<lparr>s_webhook_secret := Some token\<rparr>) (Some [WebhookSecret]) rows =
    Inr (s\<lparr>s_webhook_secret := Some token\<rparr>, replace_sub (s\<lparr>s_webhook_secret := Some token\<rparr>) rows)"
proof -
  have "update_where (\<lambda>r. s_id r = s_id s) (\<lambda>r. r\<lparr>s_webhook_secret := Some token, s_target_key := s_target_key s\<rparr>) rows
      = replace_sub (s\<lparr>s_webhook_secret := Some token\<rparr>) rows"
    unfolding update_where_def
  proof (rule map_cong [OF refl])
    fix r assume "r \<in> set rows"
    then have "s_id r = s_id s \<Longrightarrow> r = s" by (rule assms(1))
    then show "(if s_id r = s_id s then r\<lparr>s_webhook_secret := Some token, s_target_key := s_target_key s\<rparr> else r)
        = (if s_id r = s_id (s\<lparr>s_webhook_secret := Some token\<rparr>) then s\<lparr>s_webhook_secret := Some token\<rparr> else r)"
      by (cases "s_id r = s_id s") (simp_all add: secret_then_key)
  qed
  then show ?thesis using assms(2) by (simp add: sub_save_def Let_def comp_def secret_then_key)
qed

text \<open>The second write of a request finds the row it has just written.\<close>

lemma ensure_secret_shape:
  assumes "\<And>r. r \<in> set (ss_rows st) \<Longrightarrow> s_id r = s_id s \<Longrightarrow> r = s"
    and "target_key te (s_delivery s) (sub_target s) = Inr (s_target_key s)"
  shows "ensure_secret te token s st =
    Inr ((with_secret token s, if s_delivery s = WEBHOOK \<and> \<not> truthy (s_webhook_secret s) then Some token else None),
         st\<lparr>ss_rows := replace_sub (with_secret token s) (ss_rows st)\<rparr>)"
proof -
  have "replace_sub s (ss_rows st) = ss_rows st" unfolding update_where_def by (intro map_idI) (use assms(1) in metis)
  then show ?thesis
    using save_secret [OF assms] by (auto simp: ensure_secret_def with_secret_def lift_http_def)
qed

lemma atomic_fst: "fst (atomic st r) = (case r of Inl e \<Rightarrow> st | Inr (x, st') \<Rightarrow> st')"
  by (simp add: atomic_def split: sum.split prod.split)

lemma lift_http_Inr [simp]: "lift_http r = Inr x \<longleftrightarrow> r = Inr x"
  by (simp add: lift_http_def split: sum.split)

lemma check_target_free:
  assumes "check_target te lims i d t rows = Inr u" and "target_key te d t = Inr k"
  shows "key_free lims i k rows"
  using assms by (auto simp: check_target_def key_free_def split: if_splits)

lemma valid_target:
  assumes "validate partial inst d = Inr v" and "s_delivery s = the (current sd_delivery s_delivery v inst)"
    and "current sd_delivery s_delivery v inst \<noteq> None"
    and "s_webhook_url s = (case current sd_webhook_url s_webhook_url v inst of None \<Rightarrow> None | Some x \<Rightarrow> x)"
    and "s_email_to s = (case current sd_email_to s_email_to v inst of None \<Rightarrow> None | Some x \<Rightarrow> x)"
  shows "truthy (sub_target s)"
proof -
  have "current sd_delivery s_delivery v inst = Some WEBHOOK \<Longrightarrow> truthy (s_webhook_url s)"
    and "current sd_delivery s_delivery v inst = Some EMAIL \<Longrightarrow> truthy (s_email_to s)"
    using assms(1,4,5) by (auto simp: validate_def Let_def current_def split: if_splits)
  then show ?thesis using assms(2,3) by (cases "the (current sd_delivery s_delivery v inst)") (auto simp: sub_target_def)
qed

lemma create_shape:
  assumes ok: "subs_ok te lims st" and r: "create_sub te lims now token owner d st = (st', Inr (inst, issued))"
  obtains dv key s where "sd_delivery d = Some dv"
    "owned owner (ss_rows st) < MAX_SUBSCRIPTIONS_PER_USER lims"
    "s = (set_fields d (blank_sub now owner dv))\<lparr>s_id := ss_next st, s_target_key := key\<rparr>"
    "target_key te (s_delivery s) (sub_target s) = Inr key" "key_free lims owner key (ss_rows st)"
    "inst = with_secret token s" "st' = st\<lparr>ss_rows := ss_rows st @ [inst], ss_next := ss_next st + 1\<rparr>"
    "issued = (if s_delivery s = WEBHOOK then Some token else None)"
proof -
  obtain dv where room: "owned owner (ss_rows st) < MAX_SUBSCRIPTIONS_PER_USER lims" and dv: "sd_delivery d = Some dv"
    using r by (auto simp: create_sub_def atomic_def owned_def split: if_splits option.splits)
  let ?s0 = "set_fields d (blank_sub now owner dv)" and ?t = "case data_target dv d of None \<Rightarrow> None | Some t \<Rightarrow> t"
  have dl: "s_delivery ?s0 = dv" using dv by (simp add: set_fields_def)
  have "inst_target dv (blank_sub now owner dv) = None" by (cases dv) (simp_all add: inst_target_def blank_sub_def)
  then have tgt: "sub_target ?s0 = ?t" using set_fields_target [of d "blank_sub now owner dv"] dv by (simp split: option.split)
  obtain key where chk: "check_target te lims owner dv ?t (ss_rows st) = Inr ()" and key: "target_key te dv ?t = Inr key"
    using r room dv by (cases "check_target te lims owner dv ?t (ss_rows st)"; cases "target_key te dv ?t")
      (auto simp: create_sub_def atomic_def owned_def check_target_def)
  define s where s: "s = ?s0\<lparr>s_id := ss_next st, s_target_key := key\<rparr>"
  have st: "sub_target s = ?t" "s_delivery s = dv" "s_webhook_secret s = None" using tgt dl by (simp_all add: s blank_sub_def)
  let ?st1 = "st\<lparr>ss_rows := ss_rows st @ [s], ss_next := ss_next st + 1\<rparr>"
  have ins: "sub_insert te ?s0 st = Inr (s, ?st1)" using tgt dl key by (simp add: sub_insert_def s Let_def)
  have fresh: "\<And>r. r \<in> set (ss_rows st) \<Longrightarrow> s_id r \<noteq> s_id s" using subs_okE(2) [OF ok] by (fastforce simp: s)
  have rep: "replace_sub (with_secret token s) (ss_rows st) = ss_rows st" using fresh by (intro update_where_none) simp
  have "ensure_secret te token s ?st1 = Inr ((with_secret token s, if s_delivery s = WEBHOOK \<and> \<not> truthy (s_webhook_secret s) then Some token else None),
      ?st1\<lparr>ss_rows := replace_sub (with_secret token s) (ss_rows ?st1)\<rparr>)"
    using fresh key st by (intro ensure_secret_shape) (auto simp: s)
  then have "inst = with_secret token s \<and> st' = st\<lparr>ss_rows := ss_rows st @ [inst], ss_next := ss_next st + 1\<rparr>
      \<and> issued = (if s_delivery s = WEBHOOK then Some token else None)"
    using r room dv chk ins st rep by (auto simp: create_sub_def atomic_def owned_def lift_http_def update_where_append truthy_def split: if_splits)
  with that [OF dv room s, of] show ?thesis using key st check_target_free [OF chk key] by (auto simp: s)
qed

lemma replace_twice:
  "s_id s = i \<Longrightarrow> update_where (\<lambda>r. s_id r = i) (\<lambda>_. t) (update_where (\<lambda>r. s_id r = i) (\<lambda>_. s) rows) = update_where (\<lambda>r. s_id r = i) (\<lambda>_. t) rows"
  by (induction rows) auto

lemma row_ok_with_secret:
  assumes "target_key te (s_delivery s) (sub_target s) = Inr (s_target_key s)" and "truthy (sub_target s)" and "token \<noteq> []"
  shows "row_ok te (with_secret token s)"
  using assms by (auto simp: row_ok_def with_secret_def truthy_def)

lemma create_keeps:
  assumes ok: "subs_ok te lims st" and "token \<noteq> []" and "\<And>dv. sd_delivery d = Some dv \<Longrightarrow> truthy (sub_target (set_fields d (blank_sub now owner dv)))"
  shows "subs_ok te lims (fst (create_sub te lims now token owner d st))"
proof (cases "snd (create_sub te lims now token owner d st)")
  case (Inl e)
  then show ?thesis using ok by (auto simp: create_sub_def atomic_def split: sum.splits if_splits)
next
  case (Inr x)
  obtain st' inst issued where r: "create_sub te lims now token owner d st = (st', Inr (inst, issued))" using Inr by (metis prod.collapse)
  from ok r obtain dv key s where sh: "sd_delivery d = Some dv" "owned owner (ss_rows st) < MAX_SUBSCRIPTIONS_PER_USER lims"
    "s = (set_fields d (blank_sub now owner dv))\<lparr>s_id := ss_next st, s_target_key := key\<rparr>"
    "target_key te (s_delivery s) (sub_target s) = Inr key" "key_free lims owner key (ss_rows st)"
    "inst = with_secret token s" "st' = st\<lparr>ss_rows := ss_rows st @ [inst], ss_next := ss_next st + 1\<rparr>"
    by (rule create_shape)
  have flds: "s_owner s = owner" "s_id s = ss_next st" "s_target_key s = key" "truthy (sub_target s)"
    using assms(3) [OF sh(1)] by (simp_all add: sh(3) blank_sub_def)
  then have "row_ok te inst" using sh(4,6) assms(2) by (simp add: row_ok_with_secret)
  then show ?thesis using ok sh(2,5,6) flds unfolding r sh(7) by (simp add: subs_ok_append)
qed

lemma update_sub_alt:
  "update_sub te lims token d inst st =
     (let s = set_fields d inst in atomic st
        (ebind (if (s_delivery s, sub_target s) \<noteq> (s_delivery inst, sub_target inst)
                then check_target te lims (s_owner inst) (s_delivery s) (sub_target s) (ss_rows st) else Inr ()) (\<lambda>_.
         ebind (lift_http (sub_save te s None (ss_rows st))) (\<lambda>(s', rows). ensure_secret te token s' (st\<lparr>ss_rows := rows\<rparr>)))))"
proof -
  have "inst_target (s_delivery inst) inst = sub_target inst" by (simp add: inst_target_def sub_target_def)
  then show ?thesis by (simp only: update_sub_def Let_def set_fields_target set_fields_delivery)
qed

lemma update_shape:
  assumes ok: "subs_ok te lims st" and old: "inst \<in> set (ss_rows st)" and r: "update_sub te lims token d inst st = (st', Inr (new, issued))"
  obtains s key where "s = (set_fields d inst)\<lparr>s_target_key := key\<rparr>" "new = with_secret token s"
    "st' = st\<lparr>ss_rows := replace_sub new (ss_rows st)\<rparr>"
    "target_key te (s_delivery s) (sub_target s) = Inr key"
    "key = s_target_key inst \<or> key_free lims (s_owner inst) key (ss_rows st)"
    "issued = (if s_delivery s = WEBHOOK \<and> \<not> truthy (s_webhook_secret inst) then Some token else None)"
proof -
  let ?s0 = "set_fields d inst"
  define chk where chk: "chk = (if (s_delivery ?s0, sub_target ?s0) \<noteq> (s_delivery inst, sub_target inst)
      then check_target te lims (s_owner inst) (s_delivery ?s0) (sub_target ?s0) (ss_rows st) else Inr ())"
  have upd: "update_sub te lims token d inst st = atomic st (ebind chk (\<lambda>_.
      ebind (lift_http (sub_save te ?s0 None (ss_rows st))) (\<lambda>(s', rows). ensure_secret te token s' (st\<lparr>ss_rows := rows\<rparr>))))"
    by (simp only: update_sub_alt Let_def chk)
  obtain key where key: "target_key te (s_delivery ?s0) (sub_target ?s0) = Inr key" and ok1: "chk = Inr ()"
    using r by (cases chk; cases "target_key te (s_delivery ?s0) (sub_target ?s0)")
      (auto simp: upd atomic_def sub_save_def lift_http_def)
  define s where s: "s = ?s0\<lparr>s_target_key := key\<rparr>"
  let ?st1 = "st\<lparr>ss_rows := replace_sub s (ss_rows st)\<rparr>"
  have s_simps: "s_id s = s_id inst" "s_owner s = s_owner inst" "s_target_key s = key" "s_webhook_secret s = s_webhook_secret inst"
    "target_key te (s_delivery s) (sub_target s) = Inr key"
    using key by (simp_all add: s)
  have save: "sub_save te ?s0 None (ss_rows st) = Inr (s, replace_sub s (ss_rows st))"
    using key by (simp add: sub_save_def s Let_def)
  have ens: "ensure_secret te token s ?st1 = Inr ((with_secret token s, if s_delivery s = WEBHOOK \<and> \<not> truthy (s_webhook_secret s) then Some token else None),
      ?st1\<lparr>ss_rows := replace_sub (with_secret token s) (ss_rows ?st1)\<rparr>)"
    using s_simps by (intro ensure_secret_shape) (auto simp: set_update_where)
  have "new = with_secret token s" "st' = st\<lparr>ss_rows := replace_sub new (ss_rows st)\<rparr>"
    "issued = (if s_delivery s = WEBHOOK \<and> \<not> truthy (s_webhook_secret inst) then Some token else None)"
    using r s_simps(4) by (auto simp: upd ok1 atomic_def save lift_http_def ens replace_twice)
  moreover have "key = s_target_key inst \<or> key_free lims (s_owner inst) key (ss_rows st)"
    using ok1 key subs_okE(3) [OF ok old] check_target_free [of te lims "s_owner inst" "s_delivery ?s0" "sub_target ?s0" "ss_rows st"]
    by (auto simp: chk row_ok_def split: if_splits)
  ultimately show ?thesis using that s s_simps(5) by blast
qed

lemma update_error: "update_sub te lims token d inst st = (st', Inl e) \<Longrightarrow> st' = st"
  by (auto simp: update_sub_def Let_def atomic_def split: sum.splits)

lemma update_keeps:
  assumes ok: "subs_ok te lims st" and old: "inst \<in> set (ss_rows st)" and "token \<noteq> []" and tr: "truthy (sub_target (set_fields d inst))"
  shows "subs_ok te lims (fst (update_sub te lims token d inst st))"
proof (cases "update_sub te lims token d inst st")
  case (Pair st' res)
  show ?thesis
  proof (cases res)
    case (Inl e)
    then show ?thesis using ok Pair update_error by fastforce
  next
    case (Inr x)
    obtain new issued where r: "update_sub te lims token d inst st = (st', Inr (new, issued))" using Inr Pair by (cases x) auto
    from ok old r obtain s key where sh: "s = (set_fields d inst)\<lparr>s_target_key := key\<rparr>" "new = with_secret token s"
      "st' = st\<lparr>ss_rows := replace_sub new (ss_rows st)\<rparr>" "target_key te (s_delivery s) (sub_target s) = Inr key"
      "key = s_target_key inst \<or> key_free lims (s_owner inst) key (ss_rows st)"
      by (rule update_shape)
    have flds: "s_id s = s_id inst" "s_owner s = s_owner inst" "s_target_key s = key" "truthy (sub_target s)"
      using tr by (simp_all add: sh(1))
    then have "row_ok te new" using sh(2,4) assms(3) by (simp add: row_ok_with_secret)
    then have "subs_ok te lims (st\<lparr>ss_rows := replace_sub new (ss_rows st)\<rparr>)"
      using flds sh(2,5) by (intro subs_ok_replace [OF ok _ old]) simp_all
    then show ?thesis using sh(3) Pair by simp
  qed
qed

lemma find_sort: "find p (sort_key f xs) = Some x \<Longrightarrow> x \<in> set xs \<and> p x"
  using find_SomeD [of p "sort_key f xs" x] by simp

lemma get_object_Inr: "get_object user pk st = Inr s \<Longrightarrow> s \<in> set (ss_rows st) \<and> s_owner s = user \<and> s_id s = pk"
  by (auto simp: get_object_def get_queryset_def dest!: find_sort)

lemma fst_show_result [simp]: "fst (show_result r) = fst r"
  by (simp add: show_result_def)

lemma post_keeps:
  assumes "subs_ok te lims st" and "se_te E = te" and "token \<noteq> []"
  shows "subs_ok te lims (fst (post_sub E lims now token user d st))"
proof (cases "is_valid E False None d")
  case (Inr v)
  then obtain d0 where "validate False None d0 = Inr v" by (auto simp: is_valid_def result_simps)
  then have "truthy (sub_target (set_fields v (blank_sub now user dv)))" if "sd_delivery v = Some dv" for dv
    using that by (intro valid_target [of False None d0 v]) (auto simp: current_def set_fields_def blank_sub_def split: option.splits)
  then show ?thesis using assms Inr by (simp add: post_sub_def create_keeps)
qed (use assms in \<open>simp add: post_sub_def\<close>)

lemma put_keeps:
  assumes "subs_ok te lims st" and "se_te E = te" and "token \<noteq> []"
  shows "subs_ok te lims (fst (put_sub E lims partial token user pk d st))"
proof (cases "ebind (get_object user pk st) (\<lambda>inst. ebind (is_valid E partial (Some inst) d) (\<lambda>v. Inr (inst, v)))")
  case (Inr x)
  then obtain inst v where x: "x = (inst, v)" and inst: "inst \<in> set (ss_rows st)" and v: "is_valid E partial (Some inst) d = Inr v"
    using get_object_Inr by (fastforce simp: result_simps)
  from v obtain d0 where "validate partial (Some inst) d0 = Inr v" by (auto simp: is_valid_def result_simps)
  then have "truthy (sub_target (set_fields v inst))"
    by (rule valid_target) (auto simp: current_def set_fields_def split: option.splits)
  then show ?thesis using assms Inr x inst by (simp add: put_sub_def update_keeps)
qed (use assms in \<open>simp add: put_sub_def\<close>)

lemma delete_keeps:
  assumes "subs_ok te lims st"
  shows "subs_ok te lims (fst (delete_sub user pk st))"
proof (cases "get_object user pk st")
  case (Inr inst)
  define R where R: "R = filter (\<lambda>s. s_id s \<noteq> s_id inst) (ss_rows st)"
  define L where L: "L = filter (\<lambda>l. dl_subscription l \<noteq> s_id inst) (ss_log st)"
  have own: "owned i R \<le> owned i (ss_rows st)" for i
    using length_filter_le [of "\<lambda>s. s_id s \<noteq> s_id inst" "filter (\<lambda>s. s_owner s = i) (ss_rows st)"]
    by (simp add: R owned_def conj_commute)
  have sub: "set R \<subseteq> set (ss_rows st)" by (auto simp: R)
  have "key_owners k R \<subseteq> key_owners k (ss_rows st)" for k using sub by (auto simp: key_owners_def)
  then have card: "int (card (key_owners k R)) \<le> int (card (key_owners k (ss_rows st)))" for k by (simp add: card_mono)
  have "log_ok (st\<lparr>ss_rows := R, ss_log := L\<rparr>)"
    using subs_okE(4) [OF assms] uniq_filter [of log_key "ss_log st"] uniq_filter [of log_id_key "ss_log st"] by (auto simp: log_ok_def L R)
  moreover have "uniq sub_id_key R" using subs_okE(1) [OF assms] uniq_filter [of sub_id_key "ss_rows st"] by (simp add: R)
  ultimately have "subs_ok te lims (st\<lparr>ss_rows := R, ss_log := L\<rparr>)"
    using assms sub order_trans [OF own] order_trans [OF card] unfolding subs_ok_def by (simp add: subset_iff)
  then show ?thesis using Inr by (simp add: delete_sub_def R L)
qed (use assms in \<open>simp add: delete_sub_def\<close>)

lemma rotate_shape:
  assumes "subs_ok te lims st" and "get_object user pk st = Inr s" and "s_delivery s = WEBHOOK"
  shows "rotate_secret te token user pk st =
     (st\<lparr>ss_rows := replace_sub (s\<lparr>s_webhook_secret := Some token\<rparr>) (ss_rows st)\<rparr>, Inr (Some token))"
proof -
  have s: "s \<in> set (ss_rows st)" using assms(2) get_object_Inr by blast
  then have "\<And>r. r \<in> set (ss_rows st) \<Longrightarrow> s_id r = s_id s \<Longrightarrow> r = s"
    using uniq_same_row [OF subs_okE(1) [OF assms(1)]] by (auto simp: sub_id_key_def)
  then have "sub_save te (s\<lparr>s_webhook_secret := Some token\<rparr>) (Some [WebhookSecret]) (ss_rows st) =
      Inr (s\<lparr>s_webhook_secret := Some token\<rparr>, replace_sub (s\<lparr>s_webhook_secret := Some token\<rparr>) (ss_rows st))"
    using subs_okE(3) [OF assms(1) s] by (intro save_secret) (auto simp: row_ok_def)
  then show ?thesis using assms(2,3) by (simp add: rotate_secret_def atomic_def lift_http_def)
qed

lemma rotate_keeps:
  assumes "subs_ok te lims st" and "token \<noteq> []"
  shows "subs_ok te lims (fst (rotate_secret te token user pk st))"
proof (cases "\<exists>s. get_object user pk st = Inr s \<and> s_delivery s = WEBHOOK")
  case True
  then obtain s where s: "get_object user pk st = Inr s" "s_delivery s = WEBHOOK" by blast
  then have "s \<in> set (ss_rows st)" using get_object_Inr by blast
  then show ?thesis
    using subs_ok_replace [of te lims st "s\<lparr>s_webhook_secret := Some token\<rparr>" s] subs_okE(3) [OF assms(1)] assms
    unfolding rotate_shape [OF assms(1) s] by (auto simp: row_ok_def truthy_def)
next
  case False
  then show ?thesis using assms by (cases "get_object user pk st") (auto simp: rotate_secret_def atomic_def)
qed

text \<open>The requests of all users, one after the other.\<close>

inductive sub_step :: "text_env \<Rightarrow> sub_settings \<Rightarrow> int \<Rightarrow> sub_store \<Rightarrow> sub_store \<Rightarrow> bool" for te lims user where
  "se_te E = te \<Longrightarrow> token \<noteq> [] \<Longrightarrow> sub_step te lims user st (fst (post_sub E lims now token user d st))"
| "se_te E = te \<Longrightarrow> token \<noteq> [] \<Longrightarrow> sub_step te lims user st (fst (put_sub E lims partial token user pk d st))"
| "sub_step te lims user st (fst (delete_sub user pk st))"
| "token \<noteq> [] \<Longrightarrow> sub_step te lims user st (fst (rotate_secret te token user pk st))"

definition any_sub_step :: "text_env \<Rightarrow> sub_settings \<Rightarrow> sub_store \<Rightarrow> sub_store \<Rightarrow> bool" where
  "any_sub_step te lims st st' \<longleftrightarrow> (\<exists>user. sub_step te lims user st st')"

lemma sub_step_keeps: "sub_step te lims user st st' \<Longrightarrow> subs_ok te lims st \<Longrightarrow> subs_ok te lims st'"
  by (induction rule: sub_step.induct) (auto intro: post_keeps put_keeps delete_keeps rotate_keeps)

interpretation sub_inv: inductive_invariant "any_sub_step te lims" "subs_ok te lims" for te lims
  by unfold_locales (auto simp: any_sub_step_def intro: sub_step_keeps)

definition no_subs :: sub_store where
  "no_subs = \<lparr>ss_rows = [], ss_next = 1, ss_log = [], ss_log_next = 1\<rparr>"

lemma no_subs_ok: "subs_ok te lims no_subs"
  by (simp add: subs_ok_def log_ok_def no_subs_def)

text \<open>A small run: user 7 subscribes by e-mail, then switches the subscription to a webhook.\<close>

definition lims_example :: sub_settings where
  "lims_example = \<lparr>MAX_SUBSCRIPTIONS_PER_USER = 20, MAX_ACCOUNTS_PER_TARGET = 5\<rparr>"

definition sub_env_example :: sub_env where
  "sub_env_example = \<lparr>se_te = te_ascii, se_getaddrinfo = \<lambda>_ _. Some [lit ''93.184.216.34''], se_cfg = cfg_example,
     se_valid_email = \<lambda>_. True, se_feeds = [], se_tags = []\<rparr>"

definition body_mail :: sub_data where
  "body_mail = \<lparr>sd_name = Some (lit ''news''), sd_q = Some (lit ''rust''), sd_feeds = None, sd_tag_ids = None, sd_delivery = Some EMAIL,
     sd_webhook_url = None, sd_email_to = Some (Some (lit ''a@b.org'')), sd_interval = None, sd_is_active = None\<rparr>"

definition body_hook :: sub_data where
  "body_hook = \<lparr>sd_name = None, sd_q = None, sd_feeds = None, sd_tag_ids = None, sd_delivery = Some WEBHOOK,
     sd_webhook_url = Some (Some (lit ''https://hooks.example.org/in'')), sd_email_to = None, sd_interval = None, sd_is_active = None\<rparr>"

definition st_mail :: sub_store where
  "st_mail = fst (post_sub sub_env_example lims_example 1000 (lit ''tok1'') 7 body_mail no_subs)"

definition put_hook :: "sub_store \<times> (sub_error + sub_view)" where
  "put_hook = put_sub sub_env_example lims_example True (lit ''tok2'') 7 1 body_hook st_mail"

lemma st_mail_step: "sub_step te_ascii lims_example 7 no_subs st_mail"
  unfolding st_mail_def by (rule sub_step.intros) (simp_all add: sub_env_example_def lit_def)

lemma put_hook_step: "sub_step te_ascii lims_example 7 st_mail (fst put_hook)"
  unfolding put_hook_def by (rule sub_step.intros) (simp_all add: sub_env_example_def lit_def)

lemma st_mail_ok: "subs_ok te_ascii lims_example st_mail"
  using sub_step_keeps [OF st_mail_step no_subs_ok] .

text \<open>C1: Whatever requests the users send, in any order: an account never has more subscriptions than the
  limit, no receiver (counted by its key, so by all its spellings) is the target of more accounts than the
  limit, every key is the key of the row's current target, and every webhook subscription has a secret.\<close>

theorem subscription_limits:
  assumes "reachable_from (any_sub_step te lims) no_subs st" and "s \<in> set (ss_rows st)"
  shows "owned (s_owner s) (ss_rows st) \<le> MAX_SUBSCRIPTIONS_PER_USER lims
    \<and> (s_target_key s \<noteq> [] \<longrightarrow> int (card (key_owners (s_target_key s) (ss_rows st))) \<le> MAX_ACCOUNTS_PER_TARGET lims)
    \<and> target_key te (s_delivery s) (sub_target s) = Inr (s_target_key s)
    \<and> truthy (sub_target s)
    \<and> (s_delivery s = WEBHOOK \<longrightarrow> truthy (s_webhook_secret s))"
proof -
  have "subs_ok te lims st" using sub_inv.reachable_inv [OF assms(1)] no_subs_ok by blast
  then show ?thesis using assms(2) unfolding subs_ok_def row_ok_def by blast
qed

theorem subscription_limits_witness:
  "target_key te_ascii WEBHOOK (Some (lit ''https://hooks.example.org/in'')) = Inr (s_target_key (hd (ss_rows (fst put_hook))))
   \<and> truthy (s_webhook_secret (hd (ss_rows (fst put_hook))))"
proof -
  have r: "reachable_from (any_sub_step te_ascii lims_example) no_subs (fst put_hook)"
    by (rule reachable_from.step [OF reachable_from.step [OF reachable_from.start]])
      (use st_mail_step put_hook_step in \<open>auto simp: any_sub_step_def\<close>)
  have h: "ss_rows (fst put_hook) \<noteq> []" "s_delivery (hd (ss_rows (fst put_hook))) = WEBHOOK"
    "sub_target (hd (ss_rows (fst put_hook))) = Some (lit ''https://hooks.example.org/in'')"
  proof -
    have "case ss_rows (fst put_hook) of [] \<Rightarrow> False
      | s # _ \<Rightarrow> s_delivery s = WEBHOOK \<and> sub_target s = Some (lit ''https://hooks.example.org/in'')"
      by code_simp
    then show "ss_rows (fst put_hook) \<noteq> []" "s_delivery (hd (ss_rows (fst put_hook))) = WEBHOOK"
      "sub_target (hd (ss_rows (fst put_hook))) = Some (lit ''https://hooks.example.org/in'')"
      by (cases "ss_rows (fst put_hook)"; simp)+
  qed
  then show ?thesis using subscription_limits [OF r hd_in_set [OF h(1)]] by simp
qed

section \<open>Accounts do not touch each other\<close>

text \<open>Nothing of another account differs between two stores.\<close>

definition isolated :: "int \<Rightarrow> sub_store \<Rightarrow> sub_store \<Rightarrow> bool" where
  "isolated user st st' \<longleftrightarrow>
     filter (\<lambda>s. s_owner s \<noteq> user) (ss_rows st') = filter (\<lambda>s. s_owner s \<noteq> user) (ss_rows st)
     \<and> (\<forall>l. l \<in> set (ss_log st) \<and> (\<forall>s \<in> set (ss_rows st). s_owner s = user \<longrightarrow> s_id s \<noteq> dl_subscription l) \<longrightarrow> l \<in> set (ss_log st'))
     \<and> set (ss_log st') \<subseteq> set (ss_log st)"

lemma isolated_refl [simp]: "isolated user st st"
  by (simp add: isolated_def)

lemma filter_update_where:
  assumes "\<And>r. r \<in> set rows \<Longrightarrow> q r \<Longrightarrow> \<not> p r \<and> \<not> p (f r)"
  shows "filter p (update_where q f rows) = filter p rows"
  using assms by (induction rows) auto

lemma filter_replace_own:
  assumes "subs_ok te lims st" and "old \<in> set (ss_rows st)" and "s_id s = s_id old" and "s_owner s = user" "s_owner old = user"
  shows "filter (\<lambda>r. s_owner r \<noteq> user) (replace_sub s (ss_rows st)) = filter (\<lambda>r. s_owner r \<noteq> user) (ss_rows st)"
proof (rule filter_update_where)
  fix r assume "r \<in> set (ss_rows st)" "s_id r = s_id s"
  then have "r = old" using uniq_same_row [OF subs_okE(1) [OF assms(1)], of r old] assms(2,3) by (simp add: sub_id_key_def)
  then show "\<not> s_owner r \<noteq> user \<and> \<not> s_owner s \<noteq> user" using assms(4,5) by simp
qed

lemma post_isolated:
  assumes "subs_ok (se_te E) lims st" and "post_sub E lims now token user d st = (st', res)"
  shows "isolated user st st'"
proof (cases "is_valid E False None d")
  case (Inr v)
  obtain st2 res2 where c: "create_sub (se_te E) lims now token user v st = (st2, res2)" by fastforce
  have st2: "st' = st2" using assms(2) Inr c by (simp add: post_sub_def show_result_def)
  show ?thesis
  proof (cases res2)
    case (Inl e)
    then have "st2 = st" using c by (auto simp: create_sub_def atomic_def split: sum.splits if_splits)
    then show ?thesis using st2 by simp
  next
    case (Inr x)
    then obtain inst issued where "create_sub (se_te E) lims now token user v st = (st2, Inr (inst, issued))" using c by (cases x) auto
    from assms(1) this show ?thesis by (rule create_shape) (simp add: st2 blank_sub_def isolated_def)
  qed
qed (use assms in \<open>simp add: post_sub_def\<close>)

lemma put_shape:
  assumes "subs_ok (se_te E) lims st" and "put_sub E lims partial token user pk d st = (st', res)"
  shows "(st' = st \<and> (\<exists>e. res = Inl e))
    \<or> (\<exists>old new issued. get_object user pk st = Inr old \<and> s_id new = s_id old \<and> s_owner new = s_owner old
          \<and> st' = st\<lparr>ss_rows := replace_sub new (ss_rows st)\<rparr> \<and> res = Inr (to_representation issued new)
          \<and> (issued = None \<and> s_webhook_secret new = s_webhook_secret old
             \<or> issued = Some token \<and> s_webhook_secret new = Some token \<and> \<not> truthy (s_webhook_secret old)))"
proof (cases "ebind (get_object user pk st) (\<lambda>inst. ebind (is_valid E partial (Some inst) d) (\<lambda>v. Inr (inst, v)))")
  case (Inl e)
  then show ?thesis using assms(2) by (auto simp: put_sub_def)
next
  case (Inr x)
  then obtain old v where x: "x = (old, v)" and g: "get_object user pk st = Inr old" by (auto simp: result_simps)
  obtain st2 res2 where u: "update_sub (se_te E) lims token v old st = (st2, res2)" by fastforce
  have out: "st' = st2" "res = ebind res2 (\<lambda>(inst, issued). Inr (to_representation issued inst))"
    using assms(2) Inr x u by (simp_all add: put_sub_def show_result_def)
  show ?thesis
  proof (cases res2)
    case (Inl e)
    then show ?thesis using out u update_error by fastforce
  next
    case (Inr y)
    then obtain new issued where r: "update_sub (se_te E) lims token v old st = (st2, Inr (new, issued))" using u by (cases y) auto
    have old: "old \<in> set (ss_rows st)" using g get_object_Inr by blast
    from assms(1) old r obtain s key where sh: "s = (set_fields v old)\<lparr>s_target_key := key\<rparr>" "new = with_secret token s"
      "st2 = st\<lparr>ss_rows := replace_sub new (ss_rows st)\<rparr>"
      "issued = (if s_delivery s = WEBHOOK \<and> \<not> truthy (s_webhook_secret old) then Some token else None)"
      by (rule update_shape)
    have "s_id new = s_id old" "s_owner new = s_owner old" by (simp_all add: sh(1,2))
    moreover have "s_webhook_secret new = (if issued = None then s_webhook_secret old else Some token)"
      unfolding sh(2,4) by (simp add: with_secret_def sh(1))
    ultimately show ?thesis
      using g out r u sh(3,4) by (intro disjI2 exI [of _ old] exI [of _ new] exI [of _ issued]) (auto split: if_splits)
  qed
qed

lemma replace_isolated:
  assumes "subs_ok te lims st" and "get_object user pk st = Inr old" and "s_id new = s_id old" and "s_owner new = s_owner old"
  shows "isolated user st (st\<lparr>ss_rows := replace_sub new (ss_rows st)\<rparr>)"
proof -
  have "old \<in> set (ss_rows st)" "s_owner old = user" using get_object_Inr [OF assms(2)] by simp_all
  then have "filter (\<lambda>r. s_owner r \<noteq> user) (replace_sub new (ss_rows st)) = filter (\<lambda>r. s_owner r \<noteq> user) (ss_rows st)"
    using assms(3,4) by (intro filter_replace_own [OF assms(1)]) simp_all
  then show ?thesis by (simp add: isolated_def)
qed

lemma put_isolated:
  assumes "subs_ok (se_te E) lims st"
  shows "isolated user st (fst (put_sub E lims partial token user pk d st))"
proof (cases "put_sub E lims partial token user pk d st")
  case (Pair st' res)
  consider "st' = st"
    | old new where "get_object user pk st = Inr old" "s_id new = s_id old" "s_owner new = s_owner old" "st' = st\<lparr>ss_rows := replace_sub new (ss_rows st)\<rparr>"
    using put_shape [OF assms Pair] by blast
  then show ?thesis
  proof cases
    case 2
    show ?thesis using replace_isolated [OF assms 2(1,2,3)] 2(4) Pair by simp
  qed (use Pair in simp)
qed

lemma delete_isolated:
  assumes "subs_ok te lims st"
  shows "isolated user st (fst (delete_sub user pk st))"
proof (cases "get_object user pk st")
  case (Inr old)
  then have old: "old \<in> set (ss_rows st)" "s_owner old = user" using get_object_Inr by blast+
  have "s_owner r = user" if "r \<in> set (ss_rows st)" "s_id r = s_id old" for r
    using uniq_same_row [OF subs_okE(1) [OF assms], of r old] that old by (simp add: sub_id_key_def)
  then have "filter (\<lambda>r. s_owner r \<noteq> user \<and> s_id r \<noteq> s_id old) (ss_rows st) = filter (\<lambda>r. s_owner r \<noteq> user) (ss_rows st)"
    by (intro filter_cong) auto
  then show ?thesis using Inr old by (auto simp: delete_sub_def isolated_def conj_commute)
qed (simp add: delete_sub_def)

lemma rotate_isolated:
  assumes "subs_ok te lims st"
  shows "isolated user st (fst (rotate_secret te token user pk st))"
proof (cases "\<exists>s. get_object user pk st = Inr s \<and> s_delivery s = WEBHOOK")
  case True
  then obtain s where s: "get_object user pk st = Inr s" "s_delivery s = WEBHOOK" by blast
  show ?thesis using replace_isolated [OF assms s(1)] unfolding rotate_shape [OF assms s] by simp
next
  case False
  then show ?thesis by (cases "get_object user pk st") (auto simp: rotate_secret_def atomic_def)
qed

text \<open>C23: A request changes only the sender's own subscriptions, and removes log rows only of these.\<close>

theorem requests_stay_in_account:
  assumes "sub_step te lims user st st'" and "subs_ok te lims st"
  shows "isolated user st st'"
  using assms
  by (induction rule: sub_step.induct)
    (auto intro: put_isolated delete_isolated rotate_isolated post_isolated [OF _ prod.collapse [symmetric]])

theorem requests_stay_in_account_witness: "isolated 7 st_mail (fst put_hook)"
  by (rule requests_stay_in_account [OF put_hook_step st_mail_ok])

text \<open>C24: A response to an update shows a secret only when that request has issued it: it is the new random token, the
  stored row had none before and has this one now.\<close>

theorem secret_shown_when_issued:
  assumes "subs_ok (se_te E) lims st" and "put_sub E lims partial token user pk d st = (st', Inr v)" and "v_webhook_secret v = Some t"
  shows "t = token \<and> (\<exists>old new. old \<in> set (ss_rows st) \<and> s_id old = pk \<and> s_owner old = user \<and> \<not> truthy (s_webhook_secret old)
     \<and> new \<in> set (ss_rows st') \<and> s_id new = pk \<and> s_webhook_secret new = Some t)"
proof -
  from put_shape [OF assms(1,2)] obtain old new issued where sh: "get_object user pk st = Inr old" "s_id new = s_id old"
    "st' = st\<lparr>ss_rows := replace_sub new (ss_rows st)\<rparr>" "v = to_representation issued new"
    "issued = None \<or> issued = Some token \<and> s_webhook_secret new = Some token \<and> \<not> truthy (s_webhook_secret old)"
    by auto
  have "t = token" "s_webhook_secret new = Some t" "\<not> truthy (s_webhook_secret old)"
    using assms(3) sh(4,5) by (auto simp: to_representation_def truthy_def split: if_splits)
  moreover have "old \<in> set (ss_rows st)" "s_owner old = user" "s_id old = pk" using get_object_Inr [OF sh(1)] by simp_all
  moreover from this have "new \<in> set (ss_rows st')" using sh(2) unfolding sh(3) by (force simp: set_update_where)
  ultimately show ?thesis using sh(2) by metis
qed

theorem secret_shown_when_issued_witness:
  "v_webhook_secret (projr (snd put_hook)) = Some (lit ''tok2'') \<and> (\<exists>new. new \<in> set (ss_rows (fst put_hook)) \<and> s_webhook_secret new = Some (lit ''tok2''))"
proof -
  have "case snd put_hook of Inl _ \<Rightarrow> False | Inr v \<Rightarrow> v_webhook_secret v = Some (lit ''tok2'')" by code_simp
  then have "\<not> isl (snd put_hook)" and t: "v_webhook_secret (projr (snd put_hook)) = Some (lit ''tok2'')"
    by (cases "snd put_hook"; simp)+
  then have "put_sub sub_env_example lims_example True (lit ''tok2'') 7 1 body_hook st_mail = (fst put_hook, Inr (projr (snd put_hook)))"
    by (simp add: put_hook_def prod_eq_iff)
  moreover have "subs_ok (se_te sub_env_example) lims_example st_mail" using st_mail_ok by (simp add: sub_env_example_def)
  ultimately show ?thesis using secret_shown_when_issued t by blast
qed

end
