(* ===== verification/Json.thy ===== *)
theory Json
  imports Py_Str
begin

text \<open>
  \<^verbatim>\<open>json.dumps\<close> as the notifications use it: an object of integers, strings and nulls, written with
  \<^verbatim>\<open>separators=(",", ":")\<close> and the default \<^verbatim>\<open>ensure_ascii\<close>; and a reader of such objects, the reference
  for the round trip.
\<close>

section \<open>Writing\<close>

datatype json_value = JNull | JInt int | JStr ustr

definition hex_lower :: "int \<Rightarrow> int" where
  "hex_lower d = (if d < 10 then 48 + d else 87 + d)"

definition hex4 :: "int \<Rightarrow> ustr" where
  "hex4 n = [hex_lower (n div 4096 mod 16), hex_lower (n div 256 mod 16), hex_lower (n div 16 mod 16), hex_lower (n mod 16)]"

definition u_escape :: "int \<Rightarrow> ustr" where
  "u_escape n = 92 # 117 # hex4 n"

definition SHORT_ESCAPES :: "(int \<times> int) list" where
  "SHORT_ESCAPES = [(34, 34), (92, 92), (10, 110), (13, 114), (9, 116), (12, 102), (8, 98)]"

definition json_char :: "int \<Rightarrow> ustr" where
  "json_char c =
     (case map_of SHORT_ESCAPES c of
        Some e \<Rightarrow> [92, e]
      | None \<Rightarrow>
          if 32 \<le> c \<and> c \<le> 126 then [c]
          else if c < 65536 then u_escape c
          else u_escape (55296 + (c - 65536) div 1024) @ u_escape (56320 + (c - 65536) mod 1024))"

definition json_str :: "ustr \<Rightarrow> ustr" where
  "json_str s = 34 # concat (map json_char s) @ [34]"

definition int_str :: "int \<Rightarrow> ustr" where
  "int_str i = (if i < 0 then 45 # nat_str (nat (- i)) else nat_str (nat i))"

fun dumps_value :: "json_value \<Rightarrow> ustr" where
  "dumps_value JNull = lit ''null''"
| "dumps_value (JInt i) = int_str i"
| "dumps_value (JStr s) = json_str s"

definition dumps_field :: "ustr \<times> json_value \<Rightarrow> ustr" where
  "dumps_field f = json_str (fst f) @ [58] @ dumps_value (snd f)"

definition dumps_object :: "(ustr \<times> json_value) list \<Rightarrow> ustr" where
  "dumps_object fs = [123] @ join [44] (map dumps_field fs) @ [125]"

section \<open>Reading\<close>

definition hexval :: "int \<Rightarrow> int option" where
  "hexval x = (if 48 \<le> x \<and> x \<le> 57 then Some (x - 48) else if 97 \<le> x \<and> x \<le> 102 then Some (x - 87)
               else if 65 \<le> x \<and> x \<le> 70 then Some (x - 55) else None)"

definition unhex4 :: "ustr \<Rightarrow> int option" where
  "unhex4 s =
     (case map hexval (take 4 s) of
        [Some a, Some b, Some c, Some d] \<Rightarrow> Some (((a * 16 + b) * 16 + c) * 16 + d)
      | _ \<Rightarrow> None)"

definition unescape :: "int \<Rightarrow> int option" where
  "unescape e = map_of (map prod.swap SHORT_ESCAPES @ [(47, 47)]) e"

definition is_high :: "int \<Rightarrow> bool" where
  "is_high n \<longleftrightarrow> 55296 \<le> n \<and> n < 56320"

definition is_low :: "int \<Rightarrow> bool" where
  "is_low n \<longleftrightarrow> 56320 \<le> n \<and> n < 57344"

definition push :: "int \<Rightarrow> (ustr \<times> ustr) option \<Rightarrow> (ustr \<times> ustr) option" where
  "push c r = map_option (\<lambda>(s, t). (c # s, t)) r"

text \<open>The text of a string up to its closing quote, and what follows.\<close>

function parse_str :: "ustr \<Rightarrow> (ustr \<times> ustr) option" where
  "parse_str s =
     (case s of
        [] \<Rightarrow> None
      | c # t \<Rightarrow>
          if c = 34 then Some ([], t)
          else if c \<noteq> 92 then push c (parse_str t)
          else (case t of
                  [] \<Rightarrow> None
                | e # u \<Rightarrow>
                    if e \<noteq> 117 then (case unescape e of None \<Rightarrow> None | Some x \<Rightarrow> push x (parse_str u))
                    else (case unhex4 u of
                            None \<Rightarrow> None
                          | Some n \<Rightarrow>
                              if is_high n \<and> take 2 (drop 4 u) = [92, 117] \<and> (\<exists>m \<in> set_option (unhex4 (drop 6 u)). is_low m)
                              then push (65536 + (n - 55296) * 1024 + (the (unhex4 (drop 6 u)) - 56320)) (parse_str (drop 10 u))
                              else push n (parse_str (drop 4 u)))))"
  by pat_completeness auto
termination by (relation "measure length") auto

declare parse_str.simps [simp del]

definition parse_value :: "ustr \<Rightarrow> (json_value \<times> ustr) option" where
  "parse_value s =
     (if take 1 s = [34] then map_option (\<lambda>(x, r). (JStr x, r)) (parse_str (tl s))
      else if take 4 s = lit ''null'' then Some (JNull, drop 4 s)
      else let neg = (take 1 s = [45]); t = (if neg then tl s else s);
               ds = takeWhile is_digit_ascii t
           in if ds = [] then None
              else Some (JInt (if neg then - digits_value 10 ds else digits_value 10 ds), dropWhile is_digit_ascii t))"

definition parse_field :: "ustr \<Rightarrow> ((ustr \<times> json_value) \<times> ustr) option" where
  "parse_field s =
     (if take 1 s \<noteq> [34] then None
      else (case parse_str (tl s) of
              None \<Rightarrow> None
            | Some (k, r) \<Rightarrow>
                if take 1 r \<noteq> [58] then None else map_option (\<lambda>(v, t). ((k, v), t)) (parse_value (tl r))))"

fun parse_fields :: "nat \<Rightarrow> ustr \<Rightarrow> ((ustr \<times> json_value) list \<times> ustr) option" where
  "parse_fields 0 s = None"
| "parse_fields (Suc n) s =
     (case parse_field s of
        None \<Rightarrow> None
      | Some (f, r) \<Rightarrow>
          if take 1 r = [125] then Some ([f], tl r)
          else if take 1 r = [44] then map_option (\<lambda>(fs, t). (f # fs, t)) (parse_fields n (tl r))
          else None)"

text \<open>A field has at least one character, so the length of the text bounds their number.\<close>

definition loads_object :: "ustr \<Rightarrow> (ustr \<times> json_value) list option" where
  "loads_object s =
     (if take 1 s \<noteq> [123] then None
      else (case parse_fields (length s) (tl s) of Some (fs, []) \<Rightarrow> Some fs | _ \<Rightarrow> None))"

section \<open>Round trip\<close>

definition scalar :: "int \<Rightarrow> bool" where
  "scalar c \<longleftrightarrow> 0 \<le> c \<and> c < 1114112 \<and> \<not> (55296 \<le> c \<and> c < 57344)"

lemma hexval_hex_lower [simp]: "0 \<le> d \<Longrightarrow> d < 16 \<Longrightarrow> hexval (hex_lower d) = Some d"
  by (auto simp: hexval_def hex_lower_def)

lemma hexval_mod [simp]: "hexval (hex_lower (n mod 16)) = Some (n mod 16)"
  by (rule hexval_hex_lower) simp_all

lemma unhex4_digits:
  "unhex4 (hex4 n @ r) = Some (((n div 4096 mod 16 * 16 + n div 256 mod 16) * 16 + n div 16 mod 16) * 16 + n mod 16)"
  by (simp add: unhex4_def hex4_def)

lemma unhex4_hex4:
  assumes "0 \<le> n" and "n < 65536"
  shows "unhex4 (hex4 n @ r) = Some n"
proof -
  have d: "n div 256 = n div 16 div 16" "n div 4096 = n div 256 div 16"
    using zdiv_zmult2_eq [of 16 n 16] zdiv_zmult2_eq [of 16 n 256] by simp_all
  have top: "n div 4096 mod 16 = n div 4096" using assms by (intro mod_pos_pos_trivial) auto
  have "((n div 4096 mod 16 * 16 + n div 256 mod 16) * 16 + n div 16 mod 16) * 16 + n mod 16 = n"
    by (simp only: top) (simp only: d div_mult_mod_eq)
  with unhex4_digits [of n r] show ?thesis by (simp only:)
qed

lemma parse_plain: "c \<noteq> 34 \<Longrightarrow> c \<noteq> 92 \<Longrightarrow> parse_str (c # r) = push c (parse_str r)"
  by (simp add: parse_str.simps [of "c # r"])

lemma parse_short: "e \<noteq> 117 \<Longrightarrow> unescape e = Some c \<Longrightarrow> parse_str (92 # e # r) = push c (parse_str r)"
  by (simp add: parse_str.simps [of "92 # e # r"])

lemma parse_u:
  assumes "0 \<le> n" and "n < 65536" and "\<not> is_high n"
  shows "parse_str (u_escape n @ r) = push n (parse_str r)"
proof -
  have "drop 4 (hex4 n @ r) = r" by (simp add: hex4_def)
  then show ?thesis
    using assms unhex4_hex4 [of n r] by (simp add: u_escape_def parse_str.simps [of "92 # 117 # hex4 n @ r"])
qed

lemma parse_pair:
  assumes "is_high h" and "is_low l"
  shows "parse_str (u_escape h @ u_escape l @ r) = push (65536 + (h - 55296) * 1024 + (l - 56320)) (parse_str r)"
proof -
  let ?u = "hex4 h @ 92 # 117 # hex4 l @ r"
  have "0 \<le> h" "h < 65536" "0 \<le> l" "l < 65536" using assms by (auto simp: is_high_def is_low_def)
  then have "unhex4 ?u = Some h" "unhex4 (hex4 l @ r) = Some l" by (simp_all add: unhex4_hex4)
  moreover have "take 2 (drop 4 ?u) = [92, 117]" "drop 6 ?u = hex4 l @ r" "drop 10 ?u = r" by (simp_all add: hex4_def)
  ultimately show ?thesis
    using assms by (simp add: u_escape_def parse_str.simps [of "92 # 117 # ?u"])
qed

lemma parse_json_char:
  assumes "scalar c"
  shows "parse_str (json_char c @ r) = push c (parse_str r)"
proof (cases "map_of SHORT_ESCAPES c")
  case (Some e)
  then have "e \<noteq> 117 \<and> unescape e = Some c" by (auto simp: SHORT_ESCAPES_def unescape_def split: if_splits)
  then show ?thesis using Some by (simp add: json_char_def parse_short)
next
  case None
  then have c: "c \<noteq> 34" "c \<noteq> 92" by (auto simp: SHORT_ESCAPES_def split: if_splits)
  let ?h = "55296 + (c - 65536) div 1024" and ?l = "56320 + (c - 65536) mod 1024"
  show ?thesis
  proof (cases "c < 65536")
    case True
    then show ?thesis using None c assms parse_u [of c r] by (auto simp: json_char_def parse_plain scalar_def is_high_def)
  next
    case False
    have "(c - 65536) div 1024 \<le> 1048575 div 1024" using assms by (intro zdiv_mono1) (simp_all add: scalar_def)
    then have "is_high ?h" using False by (simp add: is_high_def)
    moreover have "is_low ?l" by (simp add: is_low_def)
    moreover have "65536 + (?h - 55296) * 1024 + (?l - 56320) = 65536 + ((c - 65536) div 1024 * 1024 + (c - 65536) mod 1024)" by simp
    then have "65536 + (?h - 55296) * 1024 + (?l - 56320) = c" by (simp only: div_mult_mod_eq)
    ultimately show ?thesis using None False parse_pair [of ?h ?l r] by (simp add: json_char_def)
  qed
qed

lemma parse_json_str:
  assumes "list_all scalar s"
  shows "parse_str (concat (map json_char s) @ 34 # r) = Some (s, r)"
  using assms
proof (induction s)
  case Nil
  then show ?case by (simp add: parse_str.simps [of "34 # r"])
next
  case (Cons c s)
  then show ?case by (simp add: parse_json_char push_def)
qed

fun value_ok :: "json_value \<Rightarrow> bool" where
  "value_ok (JStr s) = list_all scalar s"
| "value_ok v = True"

lemma takeWhile_all_then:
  assumes "list_all p xs" and "\<not> p y"
  shows "takeWhile p (xs @ y # r) = xs \<and> dropWhile p (xs @ y # r) = y # r"
  using assms by (induction xs) auto

lemma nat_str_head: "\<exists>c cs. nat_str n = c # cs \<and> is_digit_ascii c"
  using nat_str_digits [of n] nat_str_nonempty [of n] by (cases "nat_str n") auto

lemma parse_dumps_value:
  assumes "value_ok v" and "\<not> is_digit_ascii y"
  shows "parse_value (dumps_value v @ y # r) = Some (v, y # r)"
proof (cases v)
  case JNull
  then show ?thesis by (simp add: parse_value_def lit_def)
next
  case (JStr s)
  then show ?thesis using assms parse_json_str [of s "y # r"] by (simp add: parse_value_def json_str_def)
next
  case (JInt i)
  obtain c cs where n: "nat_str (nat \<bar>i\<bar>) = c # cs" "is_digit_ascii c" using nat_str_head by blast
  then have c: "48 \<le> c" "c \<le> 57" by (simp_all add: is_digit_ascii_def)
  have tw: "takeWhile is_digit_ascii (nat_str (nat \<bar>i\<bar>) @ y # r) = nat_str (nat \<bar>i\<bar>)"
    "dropWhile is_digit_ascii (nat_str (nat \<bar>i\<bar>) @ y # r) = y # r"
    using takeWhile_all_then [OF nat_str_digits assms(2)] by blast+
  show ?thesis
  proof (cases "i < 0")
    case True
    then have "dumps_value v @ y # r = 45 # nat_str (nat \<bar>i\<bar>) @ y # r" using JInt by (simp add: int_str_def)
    then show ?thesis using tw True JInt by (simp add: parse_value_def lit_def Let_def)
  next
    case False
    then have "dumps_value v @ y # r = nat_str (nat \<bar>i\<bar>) @ y # r" using JInt by (simp add: int_str_def)
    moreover have "digits_value 10 (nat_str (nat \<bar>i\<bar>)) = i" using False by simp
    then have "digits_value 10 (c # cs) = i" by (simp only: n(1))
    ultimately show ?thesis using tw JInt c n by (simp add: parse_value_def lit_def Let_def)
  qed
qed

lemma parse_dumps_field:
  assumes "list_all scalar (fst f)" and "value_ok (snd f)" and "\<not> is_digit_ascii y"
  shows "parse_field (dumps_field f @ y # r) = Some (f, y # r)"
  using parse_json_str [OF assms(1)] parse_dumps_value [OF assms(2,3)]
  by (simp add: parse_field_def dumps_field_def json_str_def)

definition field_ok :: "ustr \<times> json_value \<Rightarrow> bool" where
  "field_ok f \<longleftrightarrow> list_all scalar (fst f) \<and> value_ok (snd f)"

lemma parse_fields_dumps:
  assumes "fs \<noteq> []" and "list_all field_ok fs" and "length fs \<le> n"
  shows "parse_fields n (join [44] (map dumps_field fs) @ 125 # r) = Some (fs, r)"
  using assms
proof (induction fs arbitrary: n)
  case (Cons f fs)
  then obtain m where n: "n = Suc m" by (cases n) auto
  have f: "list_all scalar (fst f)" "value_ok (snd f)" using Cons.prems by (simp_all add: field_ok_def)
  show ?case
  proof (cases fs)
    case Nil
    then show ?thesis using n f parse_dumps_field [of f 125 r] by (simp add: is_digit_ascii_def)
  next
    case (Cons g gs)
    then have "parse_fields m (join [44] (map dumps_field fs) @ 125 # r) = Some (fs, r)"
      using Cons.prems n by (intro Cons.IH) auto
    then show ?thesis
      using n f Cons parse_dumps_field [of f 44 "join [44] (map dumps_field fs) @ 125 # r"] by (simp add: is_digit_ascii_def)
  qed
qed simp

lemma length_join: "length xs \<le> Suc (length (join [s] xs))"
proof (induction xs)
  case (Cons x xs)
  then show ?case by (cases xs) auto
qed simp

lemma loads_dumps:
  assumes "fs \<noteq> []" and "list_all field_ok fs"
  shows "loads_object (dumps_object fs) = Some fs"
proof -
  have "length fs \<le> length (dumps_object fs)"
    using length_join [of "map dumps_field fs" 44] by (simp add: dumps_object_def)
  then show ?thesis
    using parse_fields_dumps [OF assms, of "length (dumps_object fs)" "[]"] by (simp add: loads_object_def dumps_object_def)
qed

lemma hex_lower_ascii: "32 \<le> hex_lower (k mod 16) \<and> hex_lower (k mod 16) \<le> 126"
  using pos_mod_bound [of 16 k] pos_mod_sign [of 16 k] by (auto simp: hex_lower_def)

lemma u_escape_ascii: "x \<in> set (u_escape n) \<Longrightarrow> 32 \<le> x \<and> x \<le> 126"
  using hex_lower_ascii by (auto simp: u_escape_def hex4_def)

lemma json_char_ascii: "x \<in> set (json_char c) \<Longrightarrow> 32 \<le> x \<and> x \<le> 126"
  using u_escape_ascii by (auto simp: json_char_def SHORT_ESCAPES_def split: option.splits if_splits)

lemma json_str_ascii: "x \<in> set (json_str s) \<Longrightarrow> 32 \<le> x \<and> x \<le> 126"
  using json_char_ascii by (auto simp: json_str_def)

lemma dumps_value_ascii: "x \<in> set (dumps_value v) \<Longrightarrow> 32 \<le> x \<and> x \<le> 126"
proof (cases v)
  case (JInt i)
  moreover have "x \<in> set (nat_str n) \<Longrightarrow> 32 \<le> x \<and> x \<le> 126" for n
    using nat_str_digits [of n] by (auto simp: list_all_iff is_digit_ascii_def)
  ultimately show "x \<in> set (dumps_value v) \<Longrightarrow> 32 \<le> x \<and> x \<le> 126" by (auto simp: int_str_def split: if_splits)
qed (auto simp: lit_def dest: json_str_ascii)

lemma set_join: "set (join sep xs) \<subseteq> set sep \<union> (\<Union>x \<in> set xs. set x)"
  by (induction sep xs rule: join.induct) auto

lemma dumps_object_ascii:
  assumes "x \<in> set (dumps_object fs)"
  shows "32 \<le> x \<and> x \<le> 126"
proof -
  have "x \<in> {123, 125, 44} \<or> (\<exists>f. x \<in> set (dumps_field f))"
    using assms set_join [of "[44]" "map dumps_field fs"] by (auto simp: dumps_object_def)
  then show ?thesis using json_str_ascii dumps_value_ascii by (auto simp: dumps_field_def)
qed

end
