(* ===== verification/Notifications.thy ===== *)
theory Notifications
  imports Subscription_Rules Article_Store Json
begin

text \<open>
  Delivery of matched articles: \<^verbatim>\<open>src/tasks/notifications.py\<close>.

  The record \<open>dv_env\<close> holds what a run of \<^verbatim>\<open>deliver\<close> reads from outside: the network, the mail
  transport (\<^verbatim>\<open>send_mail\<close>), \<^verbatim>\<open>hmac\<close> and \<^verbatim>\<open>hashlib\<close>, the clock at each reading.  A run
  returns the store, the requests put on the wire, the mails handed over and its result; an exception that
  leaves the task is a value of \<open>delivery_exn\<close>.
\<close>

section \<open>Messages\<close>

definition MAX_SUBJECT_CHARS :: int where
  "MAX_SUBJECT_CHARS = 200"

definition MAX_ERROR_CHARS :: int where
  "MAX_ERROR_CHARS = 1000"

definition LEASE :: int where
  "LEASE = seconds 120"

text \<open>The default \<^verbatim>\<open>max_bytes\<close> of \<^verbatim>\<open>safe_http.request\<close>.\<close>

definition DEFAULT_MAX_BYTES :: nat where
  "DEFAULT_MAX_BYTES = 5 * 1024 * 1024"

datatype mail_exn =
    SMTPRecipientsRefused "(ustr \<times> int) list" | SMTPDataError int | OtherSMTPException | MailTimeout | OtherOSError
  | OtherMailException

datatype delivery_exn =
    RetryableDeliveryError int | DeliveryInFlightError | SendHttp http_exn | SendMail mail_exn | LogIntegrityError

record mail =
  ml_subject :: ustr
  ml_message :: ustr
  ml_from :: ustr
  ml_to :: "ustr list"

record 'z dv_env =
  de_te :: text_env
  de_z :: "'z zlib"
  de_net :: net_env
  de_cfg :: settings
  de_from_email :: ustr
  de_send_mail :: "mail \<Rightarrow> mail_exn option"
  de_hmac_sha256 :: "int list \<Rightarrow> int list \<Rightarrow> ustr"
  de_sha256_hex :: "int list \<Rightarrow> ustr"
  de_isoformat :: "int \<Rightarrow> ustr"
  de_unsafe_str :: "unsafe_reason \<Rightarrow> ustr"
  de_claim_at :: int
  de_time :: int
  de_request_at :: int
  de_record_at :: int
  de_notified_at :: int

definition sign :: "(int list \<Rightarrow> int list \<Rightarrow> ustr) \<Rightarrow> ustr \<Rightarrow> int \<Rightarrow> int list \<Rightarrow> ustr" where
  "sign hmac secret timestamp body = lit ''sha256='' @ hmac (utf8 secret) (utf8 (int_str timestamp @ lit ''.'') @ body)"

definition idempotency_key :: "(int list \<Rightarrow> ustr) \<Rightarrow> int \<Rightarrow> int \<Rightarrow> ustr" where
  "idempotency_key sha sid aid = sha (utf8 (int_str sid @ lit '':'' @ int_str aid))"

definition payload :: "(int \<Rightarrow> ustr) \<Rightarrow> article \<Rightarrow> (ustr \<times> json_value) list" where
  "payload isof a =
     [(lit ''id'', JInt (a_id a)), (lit ''title'', JStr (a_title a)), (lit ''url'', JStr (a_url a)),
      (lit ''summary'', JStr (a_summary a)), (lit ''feed_id'', JInt (a_feed a)),
      (lit ''published_at'', case a_published_at a of None \<Rightarrow> JNull | Some t \<Rightarrow> JStr (isof t))]"

definition subject :: "ustr \<Rightarrow> ustr" where
  "subject title = slice_to MAX_SUBJECT_CHARS (lit ''[newsforge] '' @ join (lit '' '') (split_ws title))"

section \<open>The lease\<close>

text \<open>\<^verbatim>\<open>_claim\<close>: \<open>get_or_create\<close> under a row lock, then the lease.  The foreign key refuses a row of a
  subscription that is gone.\<close>

definition claim :: "int \<Rightarrow> int \<Rightarrow> int \<Rightarrow> sub_store \<Rightarrow> sub_store \<times> (delivery_exn + bool)" where
  "claim now sid aid st =
     (let found = find (\<lambda>l. log_key l = Some (sid, aid)) (ss_log st);
          fresh = \<lparr>dl_id = ss_log_next st, dl_subscription = sid, dl_article = aid, dl_delivered_at = now, dl_succeeded = False,
                   dl_attempts = 0, dl_http_status = None, dl_error = None, dl_leased_until = None\<rparr>;
          st1 = (case found of Some _ \<Rightarrow> st | None \<Rightarrow> st\<lparr>ss_log := ss_log st @ [fresh], ss_log_next := ss_log_next st + 1\<rparr>);
          log = (case found of Some l \<Rightarrow> l | None \<Rightarrow> fresh)
      in if found = None \<and> sid \<notin> s_id ` set (ss_rows st) then (st, Inl LogIntegrityError)
         else if dl_succeeded log then (st1, Inr False)
         else if (case dl_leased_until log of None \<Rightarrow> False | Some t \<Rightarrow> now < t) then (st, Inl DeliveryInFlightError)
         else (st1\<lparr>ss_log := update_where (\<lambda>l. dl_id l = dl_id log) (\<lambda>l. l\<lparr>dl_leased_until := Some (now + LEASE)\<rparr>) (ss_log st1)\<rparr>, Inr True))"

definition record_row :: "int \<Rightarrow> bool \<Rightarrow> int option \<Rightarrow> ustr option \<Rightarrow> delivery_log \<Rightarrow> delivery_log" where
  "record_row now succeeded http_status error l =
     l\<lparr>dl_http_status := http_status,
       dl_error := (if truthy error then map_option (slice_to MAX_ERROR_CHARS) error else None),
       dl_leased_until := None, dl_succeeded := (succeeded \<or> dl_succeeded l), dl_attempts := dl_attempts l + 1, dl_delivered_at := now\<rparr>"

definition record_attempt :: "int \<Rightarrow> int \<Rightarrow> int \<Rightarrow> bool \<Rightarrow> int option \<Rightarrow> ustr option \<Rightarrow> sub_store \<Rightarrow> sub_store" where
  "record_attempt now sid aid succeeded http_status error st =
     st\<lparr>ss_log := update_where (\<lambda>l. dl_subscription l = sid \<and> dl_article l = aid \<and> \<not> dl_succeeded l)
                    (record_row now succeeded http_status error) (ss_log st)\<rparr>"

section \<open>Sending\<close>

definition answered :: "int \<Rightarrow> ustr" where
  "answered status = lit ''receiver answered '' @ int_str status"

fun failure :: "delivery_exn \<Rightarrow> ustr" where
  "failure (RetryableDeliveryError status) = answered status"
| "failure (SendHttp (HttpxError TimeoutException)) = lit ''timeout''"
| "failure (SendHttp DeadlineExceededError) = lit ''timeout''"
| "failure (SendMail MailTimeout) = lit ''timeout''"
| "failure (SendHttp (HttpxError _)) = lit ''connection failed''"
| "failure (SendMail (SMTPRecipientsRefused _)) = lit ''mail server unavailable''"
| "failure (SendMail (SMTPDataError _)) = lit ''mail server unavailable''"
| "failure (SendMail OtherSMTPException) = lit ''mail server unavailable''"
| "failure (SendMail OtherOSError) = lit ''connection failed''"
| "failure _ = lit ''internal error''"

definition webhook_headers :: "'z dv_env \<Rightarrow> subscription \<Rightarrow> int list \<Rightarrow> ustr \<Rightarrow> ustr \<rightharpoonup> ustr" where
  "webhook_headers E sub body key =
     [lit ''Content-Type'' \<mapsto> lit ''application/json'', lit ''User-Agent'' \<mapsto> USER_AGENT (de_cfg E),
      lit ''X-NF-Timestamp'' \<mapsto> int_str (de_time E),
      lit ''X-NF-Signature'' \<mapsto> sign (de_hmac_sha256 E) (case s_webhook_secret sub of None \<Rightarrow> [] | Some s \<Rightarrow> s) (de_time E) body,
      lit ''X-Idempotency-Key'' \<mapsto> key]"

definition send_webhook :: "'z dv_env \<Rightarrow> subscription \<Rightarrow> int list \<Rightarrow> ustr \<Rightarrow> wire_request list \<times> (delivery_exn + int)" where
  "send_webhook E sub body key =
     (case request (de_te E) (de_z E) (de_net E)
             \<lparr>cf_headers = webhook_headers E sub body key, cf_max_bytes = DEFAULT_MAX_BYTES,
              cf_allow_http = ALLOW_PLAIN_HTTP (de_cfg E), cf_truncate = False, cf_discard_body = True\<rparr>
             (de_request_at E) (seconds 10) 0 (lit ''POST'') (case s_webhook_url sub of None \<Rightarrow> [] | Some u \<Rightarrow> u)
             (Some (map word_of_int body)) of
        (wire, Inl e) \<Rightarrow> (wire, Inl (SendHttp e))
      | (wire, Inr resp) \<Rightarrow>
          (wire, if status_code resp \<ge> 500 \<or> status_code resp \<in> {408, 429} then Inl (RetryableDeliveryError (status_code resp))
                 else Inr (status_code resp)))"

definition email_message :: "'z dv_env \<Rightarrow> subscription \<Rightarrow> article \<Rightarrow> mail" where
  "email_message E sub a =
     \<lparr>ml_subject = subject (a_title a), ml_message = a_url a, ml_from = de_from_email E,
      ml_to = [case s_email_to sub of None \<Rightarrow> [] | Some t \<Rightarrow> t]\<rparr>"

definition send_email :: "'z dv_env \<Rightarrow> subscription \<Rightarrow> article \<Rightarrow> mail list \<times> (delivery_exn + int)" where
  "send_email E sub a =
     ([email_message E sub a],
      case de_send_mail E (email_message E sub a) of
        None \<Rightarrow> Inr 250
      | Some (SMTPRecipientsRefused rs) \<Rightarrow>
          if rs \<noteq> [] \<and> list_all (\<lambda>r. 500 \<le> snd r) rs then Inr (snd (hd rs)) else Inl (SendMail (SMTPRecipientsRefused rs))
      | Some (SMTPDataError c) \<Rightarrow> if 500 \<le> c then Inr c else Inl (SendMail (SMTPDataError c))
      | Some e \<Rightarrow> Inl (SendMail e))"

section \<open>The task\<close>

datatype deliver_result = DeliveryGone | Deduped | NotSent ustr | Sent int bool

text \<open>\<^verbatim>\<open>autoretry_for\<close>: what Celery queues again.\<close>

fun autoretry :: "delivery_exn \<Rightarrow> bool" where
  "autoretry (SendHttp (HttpxError _)) = True"
| "autoretry (SendHttp DeadlineExceededError) = True"
| "autoretry (SendHttp _) = False"
| "autoretry (RetryableDeliveryError _) = True"
| "autoretry DeliveryInFlightError = True"
| "autoretry (SendMail OtherMailException) = False"
| "autoretry (SendMail _) = True"
| "autoretry LogIntegrityError = False"

definition live_article :: "feed list \<Rightarrow> article list \<Rightarrow> int \<Rightarrow> article option" where
  "live_article feeds arts aid =
     find (\<lambda>a. a_id a = aid \<and> \<not> a_is_deleted a \<and> list_ex (\<lambda>f. f_id f = a_feed a \<and> \<not> f_is_deleted f) feeds) arts"

definition touch_notified :: "int \<Rightarrow> subscription \<Rightarrow> subscription list \<Rightarrow> subscription list" where
  "touch_notified now sub rows =
     update_where (\<lambda>s. s_id s = s_id sub \<and> s_interval s = s_interval sub) (\<lambda>s. s\<lparr>s_last_notified_at := Some now\<rparr>) rows"

text \<open>What follows the send: \<^verbatim>\<open>_record\<close> on every path.\<close>

definition conclude :: "'z dv_env \<Rightarrow> subscription \<Rightarrow> int \<Rightarrow> delivery_exn + int \<Rightarrow> sub_store \<Rightarrow> sub_store \<times> (delivery_exn + deliver_result)" where
  "conclude E sub aid res st =
     (let rec = (\<lambda>ok status err. record_attempt (de_record_at E) (s_id sub) aid ok status err st) in
      case res of
        Inl (SendHttp (UnsafeURLError why)) \<Rightarrow>
          (rec False None (Some (lit ''blocked: '' @ de_unsafe_str E why)), Inr (NotSent (lit ''blocked'')))
      | Inl e \<Rightarrow>
          (rec False (case e of RetryableDeliveryError c \<Rightarrow> Some c | _ \<Rightarrow> None) (Some (failure e)), Inl e)
      | Inr status \<Rightarrow>
          (let ok = (200 \<le> status \<and> status < 300);
               st1 = rec ok (Some status) (if ok then None else Some (answered status))
           in (if ok \<and> s_interval sub = INSTANT
               then st1\<lparr>ss_rows := touch_notified (de_notified_at E) sub (ss_rows st1)\<rparr> else st1,
               Inr (Sent status ok))))"

definition attempt :: "'z dv_env \<Rightarrow> subscription \<Rightarrow> article \<Rightarrow> sub_store
    \<Rightarrow> sub_store \<times> wire_request list \<times> mail list \<times> (delivery_exn + deliver_result)" where
  "attempt E sub a st =
     (let rec = (\<lambda>err. record_attempt (de_record_at E) (s_id sub) (a_id a) False None (Some err) st) in
      if s_delivery sub = WEBHOOK \<and> truthy (s_webhook_url sub) then
        if \<not> truthy (s_webhook_secret sub) then (rec (lit ''no secret''), [], [], Inr (NotSent (lit ''no secret'')))
        else (case send_webhook E sub (utf8 (dumps_object (payload (de_isoformat E) a)))
                     (idempotency_key (de_sha256_hex E) (s_id sub) (a_id a)) of
                (wire, res) \<Rightarrow> (case conclude E sub (a_id a) res st of (st', r) \<Rightarrow> (st', wire, [], r)))
      else if s_delivery sub = EMAIL \<and> truthy (s_email_to sub) then
        (case send_email E sub a of
           (mails, res) \<Rightarrow> (case conclude E sub (a_id a) res st of (st', r) \<Rightarrow> (st', [], mails, r)))
      else (rec (lit ''no target''), [], [], Inr (NotSent (lit ''no target''))))"

definition deliver :: "'z dv_env \<Rightarrow> feed list \<Rightarrow> article list \<Rightarrow> int \<Rightarrow> int \<Rightarrow> sub_store
    \<Rightarrow> sub_store \<times> wire_request list \<times> mail list \<times> (delivery_exn + deliver_result)" where
  "deliver E feeds arts sid aid st =
     (case (find (\<lambda>s. s_id s = sid \<and> s_is_active s) (ss_rows st), live_article feeds arts aid) of
        (Some sub, Some a) \<Rightarrow>
          (case claim (de_claim_at E) sid aid st of
             (st1, Inl e) \<Rightarrow> (st1, [], [], Inl e)
           | (st1, Inr False) \<Rightarrow> (st1, [], [], Inr Deduped)
           | (st1, Inr True) \<Rightarrow> attempt E sub a st1)
      | _ \<Rightarrow> (st, [], [], Inr DeliveryGone))"

section \<open>Fan-out\<close>

text \<open>\<open>fts a q\<close> is \<^verbatim>\<open>a.tsv @@ websearch_to_tsquery(a.language, unaccent(q))\<close>.\<close>

definition filters_match :: "(article \<Rightarrow> ustr \<Rightarrow> bool) \<Rightarrow> (int \<times> int) list \<Rightarrow> article \<Rightarrow> subscription \<Rightarrow> bool" where
  "filters_match fts article_tags a s \<longleftrightarrow>
     fts a (s_q s) \<and> (s_feeds s = [] \<or> a_feed a \<in> set (s_feeds s))
     \<and> (s_tag_ids s = [] \<or> list_ex (\<lambda>t. (a_id a, t) \<in> set article_tags) (s_tag_ids s))"

definition match_instant :: "(article \<Rightarrow> ustr \<Rightarrow> bool) \<Rightarrow> (int \<times> int) list \<Rightarrow> feed list \<Rightarrow> article list \<Rightarrow> int \<Rightarrow> subscription list \<Rightarrow> int list" where
  "match_instant fts article_tags feeds arts aid rows =
     (case live_article feeds arts aid of
        None \<Rightarrow> []
      | Some a \<Rightarrow> map s_id (filter (\<lambda>s. s_is_active s \<and> s_interval s = INSTANT \<and> filters_match fts article_tags a s) rows))"

definition fanout_instant :: "(article \<Rightarrow> ustr \<Rightarrow> bool) \<Rightarrow> (int \<times> int) list \<Rightarrow> feed list \<Rightarrow> article list \<Rightarrow> int \<Rightarrow> subscription list
    \<Rightarrow> (int \<times> int) list \<times> int" where
  "fanout_instant fts article_tags feeds arts aid rows =
     (let ids = match_instant fts article_tags feeds arts aid rows in (map (\<lambda>sid. (sid, aid)) ids, int (length ids)))"

section \<open>What is sent\<close>

text \<open>The subject of a mail is at most 200 characters and has no line break or any other white space but
  blanks, whatever the title of the article, so a title cannot add headers.\<close>

theorem subject_no_header_injection:
  "int (length (subject title)) \<le> MAX_SUBJECT_CHARS \<and> set (filter is_space (subject title)) \<subseteq> {32}"
proof -
  have "set (join (lit '' '') (split_ws title)) \<subseteq> {32} \<union> (\<Union>w \<in> set (split_ws title). set w)"
    using set_join [of "lit '' ''" "split_ws title"] by (simp add: lit_def)
  then have "is_space c \<Longrightarrow> c = 32" if "c \<in> set (join (lit '' '') (split_ws title))" for c
    using that split_ws_word by blast
  moreover have "is_space c \<Longrightarrow> c = 32" if "c \<in> set (lit ''[newsforge] '')" for c
    using that by (auto simp: lit_def is_space_def)
  ultimately have "is_space c \<longrightarrow> c = 32" if "c \<in> set (subject title)" for c
    using that set_slice_to unfolding subject_def by fastforce
  moreover have "int (length (subject title)) \<le> MAX_SUBJECT_CHARS"
    by (simp add: subject_def MAX_SUBJECT_CHARS_def slice_to_take)
  ultimately show ?thesis by auto
qed

definition text_ok :: "(int \<Rightarrow> ustr) \<Rightarrow> article \<Rightarrow> bool" where
  "text_ok isof a \<longleftrightarrow> list_all scalar (a_title a) \<and> list_all scalar (a_url a) \<and> list_all scalar (a_summary a)
     \<and> (\<forall>t \<in> set_option (a_published_at a). list_all scalar (isof t))"

lemma utf8_ascii: "(\<And>c. c \<in> set s \<Longrightarrow> 0 \<le> c \<and> c < 128) \<Longrightarrow> utf8 s = s"
  by (induction s) (auto simp: utf8_def utf8_char_def)

lemma payload_bytes:
  "map uint (map word_of_int (utf8 (dumps_object fs)) :: bytes) = dumps_object fs"
proof -
  have asc: "32 \<le> c \<and> c \<le> 126" if "c \<in> set (dumps_object fs)" for c using dumps_object_ascii [OF that] .
  then have "utf8 (dumps_object fs) = dumps_object fs" by (intro utf8_ascii) force
  moreover have "uint (word_of_int c :: 8 word) = c" if "c \<in> set (dumps_object fs)" for c
    using asc [OF that] by (simp add: uint_word_of_int)
  ultimately show ?thesis by (simp add: map_idI)
qed

lemma payload_reads_back:
  assumes "text_ok isof a"
  shows "loads_object (dumps_object (payload isof a)) = Some (payload isof a)"
proof -
  have "list_all field_ok (payload isof a)"
    using assms by (auto simp: payload_def field_ok_def text_ok_def lit_def scalar_def split: option.split)
  then show ?thesis by (intro loads_dumps) (simp_all add: payload_def)
qed

text \<open>C11: The body of a webhook request is printable ASCII, and a receiver that parses it as JSON gets
  one object with the members \<^verbatim>\<open>id\<close>, \<^verbatim>\<open>title\<close>, \<^verbatim>\<open>url\<close>, \<^verbatim>\<open>summary\<close>, \<^verbatim>\<open>feed_id\<close> and \<^verbatim>\<open>published_at\<close>, in this
  order and no others, whose values are the id, title, link, summary and feed of the article and its
  time of publication in ISO form, or null without one, whatever characters the texts have.\<close>

theorem payload_roundtrip:
  assumes "text_ok isof a"
  shows "\<exists>obj body. body = (map word_of_int (utf8 (dumps_object (payload isof a))) :: bytes)
    \<and> list_all (\<lambda>b. 32 \<le> b \<and> b \<le> 126) body
    \<and> loads_object (map uint body) = Some obj
    \<and> map fst obj = map lit [''id'', ''title'', ''url'', ''summary'', ''feed_id'', ''published_at'']
    \<and> map_of obj (lit ''id'') = Some (JInt (a_id a))
    \<and> map_of obj (lit ''title'') = Some (JStr (a_title a))
    \<and> map_of obj (lit ''url'') = Some (JStr (a_url a))
    \<and> map_of obj (lit ''summary'') = Some (JStr (a_summary a))
    \<and> map_of obj (lit ''feed_id'') = Some (JInt (a_feed a))
    \<and> map_of obj (lit ''published_at'') =
         Some (if a_published_at a = None then JNull else JStr (isof (the (a_published_at a))))"
proof -
  let ?body = "map word_of_int (utf8 (dumps_object (payload isof a))) :: bytes"
  have "32 \<le> b \<and> b \<le> 126" if "b \<in> set ?body" for b
  proof -
    have "uint b \<in> set (dumps_object (payload isof a))"
      using that payload_bytes [of "payload isof a"] by (metis imageI set_map)
    then show ?thesis using dumps_object_ascii [of "uint b"] by (simp add: word_le_def)
  qed
  then have "list_all (\<lambda>b. 32 \<le> b \<and> b \<le> 126) ?body" by (simp only: list_all_iff) blast
  moreover have "loads_object (map uint ?body) = Some (payload isof a)"
    unfolding payload_bytes by (rule payload_reads_back [OF assms])
  ultimately show ?thesis
    by (intro exI [of _ "payload isof a"] exI [of _ ?body] conjI)
      (simp_all add: payload_def lit_def split: option.split)
qed

definition article_plain :: article where
  "article_plain = \<lparr>a_id = 5, a_feed = 2, a_guid = [], a_canonical_url = [], a_url = lit ''https://x.org/a'', a_title = [72, 233, 128512, 10, 34],
     a_summary = [], a_body = [], a_author = None, a_language = lit ''simple'', a_content_hash = [], a_published_at = None, a_fetched_at = 0,
     a_last_seen_at = 0, a_is_deleted = False, a_created_at = 0, a_processed_at = None\<rparr>"

theorem payload_roundtrip_witness:
  "\<exists>obj. loads_object (map uint (map word_of_int (utf8 (dumps_object (payload (\<lambda>_. []) article_plain))) :: bytes)) = Some obj
     \<and> map_of obj (lit ''title'') = Some (JStr [72, 233, 128512, 10, 34]) \<and> map_of obj (lit ''feed_id'') = Some (JInt 2)
     \<and> map_of obj (lit ''published_at'') = Some JNull"
proof -
  have "text_ok (\<lambda>_. []) article_plain" by (simp add: text_ok_def article_plain_def lit_def scalar_def)
  from payload_roundtrip [OF this] show ?thesis by (auto simp: article_plain_def)
qed

text \<open>One connection at most, built from the arguments of the call.\<close>

lemma request_without_redirects:
  assumes "wr \<in> set (fst (request te z net cf now timeout 0 meth url body))"
  shows "fst (request te z net cf now timeout 0 meth url body) = [wr] \<and>
    (\<exists>t remaining. target_ok (cf_allow_http cf) t \<and> wr = build_request cf
       \<lparr>rq_url = url, rq_method = map ascii_upper meth, rq_content = body, rq_permanent = True\<rparr> t remaining)"
  using assms
  by (auto simp: request_def request_loop.simps [of te z net cf "now + timeout" 0] prepare_hop_def result_simps Let_def
      dest: resolve_target_ok split: sum.splits if_splits)

lemma send_webhook_wire:
  assumes "wr \<in> set (fst (send_webhook E sub body key))"
  shows "fst (send_webhook E sub body key) = [wr] \<and> is_public (t_address (wr_target wr)) \<and> wr_method wr = lit ''POST''
    \<and> wr_content wr = Some (map word_of_int body)
    \<and> (\<forall>h. h \<notin> {lit ''Host'', lit ''Accept-Encoding''} \<longrightarrow> wr_headers wr h = webhook_headers E sub body key h)"
proof -
  let ?cf = "\<lparr>cf_headers = webhook_headers E sub body key, cf_max_bytes = DEFAULT_MAX_BYTES,
              cf_allow_http = ALLOW_PLAIN_HTTP (de_cfg E), cf_truncate = False, cf_discard_body = True\<rparr>"
  let ?r = "request (de_te E) (de_z E) (de_net E) ?cf (de_request_at E) (seconds 10) 0 (lit ''POST'')
     (case s_webhook_url sub of None \<Rightarrow> [] | Some u \<Rightarrow> u) (Some (map word_of_int body))"
  have same: "fst (send_webhook E sub body key) = fst ?r" by (simp add: send_webhook_def split: prod.split sum.split)
  have "map ascii_upper (lit ''POST'') = lit ''POST''" by code_simp
  then show ?thesis
    using request_without_redirects [OF assms [unfolded same]] unfolding same by (auto simp: build_request_def target_ok_def)
qed

text \<open>C10: A webhook delivery makes at most one connection, a POST to a checked public address, never following a
  redirect; the body is the JSON of the article, and the signature header is the HMAC of the timestamp header and
  that body under the subscription's secret, which is not empty.\<close>

theorem webhook_request_signed:
  assumes "deliver E feeds arts sid aid st = (st', wire, mails, res)" and "wr \<in> set wire"
  shows "wire = [wr] \<and> is_public (t_address (wr_target wr)) \<and> wr_method wr = lit ''POST''
    \<and> (\<exists>sub a secret body. sub \<in> set (ss_rows st) \<and> s_id sub = sid \<and> s_is_active sub \<and> s_webhook_secret sub = Some secret \<and> secret \<noteq> []
         \<and> a \<in> set arts \<and> a_id a = aid \<and> body = utf8 (dumps_object (payload (de_isoformat E) a))
         \<and> wr_content wr = Some (map word_of_int body)
         \<and> wr_headers wr (lit ''X-NF-Timestamp'') = Some (int_str (de_time E))
         \<and> wr_headers wr (lit ''X-NF-Signature'') = Some (sign (de_hmac_sha256 E) secret (de_time E) body)
         \<and> wr_headers wr (lit ''X-Idempotency-Key'') = Some (idempotency_key (de_sha256_hex E) sid aid))"
proof -
  obtain sub a st1 where sub: "find (\<lambda>s. s_id s = sid \<and> s_is_active s) (ss_rows st) = Some sub"
    and a: "live_article feeds arts aid = Some a" and at: "attempt E sub a st1 = (st', wire, mails, res)"
    using assms by (auto simp: deliver_def split: option.splits prod.splits sum.splits bool.splits)
  have sa: "sub \<in> set (ss_rows st)" "s_id sub = sid" "s_is_active sub" "a \<in> set arts" "a_id a = aid"
    using find_SomeD [OF sub] find_SomeD [OF a [unfolded live_article_def]] by auto
  let ?body = "utf8 (dumps_object (payload (de_isoformat E) a))" and ?key = "idempotency_key (de_sha256_hex E) sid aid"
  have tr: "truthy (s_webhook_secret sub)" and w: "wire = fst (send_webhook E sub ?body ?key)"
    using at assms(2) sa by (auto simp: attempt_def Let_def split: if_splits prod.splits)
  obtain secret where sec: "s_webhook_secret sub = Some secret" "secret \<noteq> []" using tr by (auto simp: truthy_def split: option.splits)
  have heads: "webhook_headers E sub ?body ?key (lit ''X-NF-Timestamp'') = Some (int_str (de_time E))"
    "webhook_headers E sub ?body ?key (lit ''X-NF-Signature'') = Some (sign (de_hmac_sha256 E) secret (de_time E) ?body)"
    "webhook_headers E sub ?body ?key (lit ''X-Idempotency-Key'') = Some ?key"
    using sec by (simp_all add: webhook_headers_def)
  show ?thesis using send_webhook_wire [OF assms(2) [unfolded w]] heads sec sa unfolding w
    by (intro conjI exI [of _ sub] exI [of _ a] exI [of _ secret] exI [of _ ?body]) simp_all
qed

end
