(* ===== verification/Delivery_Log.thy ===== *)
theory Delivery_Log
  imports Notifications
begin

text \<open>
  The delivery log: what \<^verbatim>\<open>_claim\<close> and \<^verbatim>\<open>_record\<close> do to the row of a pair, what a run of
  \<^verbatim>\<open>deliver\<close> leaves there, and that a delivered pair is final.
\<close>

section \<open>One row per pair\<close>

lemma set_update_one:
  assumes "l \<in> set rows" and "p l" and "\<And>r. r \<in> set rows \<Longrightarrow> p r \<Longrightarrow> r = l"
  shows "set (update_where p f rows) = insert (f l) (set rows - {l})"
proof -
  have "(\<lambda>r. if p r then f r else r) ` set rows = insert (f l) ((\<lambda>r. if p r then f r else r) ` (set rows - {l}))"
    using assms(1,2) by (auto simp: image_iff)
  also have "(\<lambda>r. if p r then f r else r) ` (set rows - {l}) = (\<lambda>r. r) ` (set rows - {l})"
    using assms(3) by (intro image_cong) auto
  finally show ?thesis by (simp add: set_update_where)
qed

lemma log_same_row: "log_ok st \<Longrightarrow> l \<in> set (ss_log st) \<Longrightarrow> r \<in> set (ss_log st) \<Longrightarrow> log_key l = log_key r \<Longrightarrow> l = r"
  using uniq_same_row [of log_key "ss_log st" l r] by (auto simp: log_ok_def log_key_def)

lemma log_same_id: "log_ok st \<Longrightarrow> l \<in> set (ss_log st) \<Longrightarrow> r \<in> set (ss_log st) \<Longrightarrow> dl_id l = dl_id r \<Longrightarrow> l = r"
  using uniq_same_row [of log_id_key "ss_log st" l r] by (auto simp: log_ok_def log_id_key_def)

interpretation lease_key: key_preserving log_key "\<lambda>l. l\<lparr>dl_leased_until := t\<rparr>" for t
  by unfold_locales (simp add: log_key_def)

interpretation lease_id: key_preserving log_id_key "\<lambda>l. l\<lparr>dl_leased_until := t\<rparr>" for t
  by unfold_locales (simp add: log_id_key_def)

interpretation rec_key: key_preserving log_key "record_row now ok status err" for now ok status err
  by unfold_locales (simp add: log_key_def record_row_def)

interpretation rec_id: key_preserving log_id_key "record_row now ok status err" for now ok status err
  by unfold_locales (simp add: log_id_key_def record_row_def)

lemma log_ok_update:
  assumes "log_ok st" and "uniq log_key (update_where p f (ss_log st)) = uniq log_key (ss_log st)"
    and "uniq log_id_key (update_where p f (ss_log st)) = uniq log_id_key (ss_log st)"
    and "\<And>l. dl_id (f l) = dl_id l" and "\<And>l. dl_subscription (f l) = dl_subscription l"
  shows "log_ok (st\<lparr>ss_log := update_where p f (ss_log st)\<rparr>)"
  using assms by (auto simp: log_ok_def set_update_where)

lemma record_keeps_log: "log_ok st \<Longrightarrow> log_ok (record_attempt now sid aid ok status err st)"
  unfolding record_attempt_def
  by (rule log_ok_update) (auto simp: rec_key.uniq_kept rec_id.uniq_kept record_row_def)

lemma record_set:
  assumes "log_ok st" and "l \<in> set (ss_log st)" and "log_key l = Some (sid, aid)" and "\<not> dl_succeeded l"
  shows "set (ss_log (record_attempt now sid aid ok status err st)) =
    insert (record_row now ok status err l) {r \<in> set (ss_log st). log_key r \<noteq> Some (sid, aid)}"
proof -
  have only: "r = l" if "r \<in> set (ss_log st)" "log_key r = Some (sid, aid)" for r using log_same_row [OF assms(1) that(1) assms(2)] that assms(3) by simp
  have "set (update_where (\<lambda>l. dl_subscription l = sid \<and> dl_article l = aid \<and> \<not> dl_succeeded l) (record_row now ok status err) (ss_log st))
      = insert (record_row now ok status err l) (set (ss_log st) - {l})"
  proof (rule set_update_one [OF assms(2)])
    show "dl_subscription l = sid \<and> dl_article l = aid \<and> \<not> dl_succeeded l" using assms(3,4) by (simp add: log_key_def)
    show "r = l" if "r \<in> set (ss_log st)" "dl_subscription r = sid \<and> dl_article r = aid \<and> \<not> dl_succeeded r" for r
      by (rule only) (use that in \<open>simp_all add: log_key_def\<close>)
  qed
  also have "set (ss_log st) - {l} = {r \<in> set (ss_log st). log_key r \<noteq> Some (sid, aid)}" using only assms(3) by blast
  finally show ?thesis by (simp add: record_attempt_def)
qed

definition fresh_log :: "int \<Rightarrow> int \<Rightarrow> int \<Rightarrow> int \<Rightarrow> delivery_log" where
  "fresh_log i now sid aid = \<lparr>dl_id = i, dl_subscription = sid, dl_article = aid, dl_delivered_at = now, dl_succeeded = False,
     dl_attempts = 0, dl_http_status = None, dl_error = None, dl_leased_until = None\<rparr>"

abbreviation find_log :: "int \<Rightarrow> int \<Rightarrow> sub_store \<Rightarrow> delivery_log option" where
  "find_log sid aid st \<equiv> find (\<lambda>l. log_key l = Some (sid, aid)) (ss_log st)"

definition log_or_fresh :: "int \<Rightarrow> int \<Rightarrow> int \<Rightarrow> sub_store \<Rightarrow> delivery_log" where
  "log_or_fresh now sid aid st = (case find_log sid aid st of Some l \<Rightarrow> l | None \<Rightarrow> fresh_log (ss_log_next st) now sid aid)"

lemma log_or_fresh_key [simp]: "log_key (log_or_fresh now sid aid st) = Some (sid, aid)"
  by (auto simp: log_or_fresh_def fresh_log_def log_key_def dest: find_SomeD split: option.split)

lemma claim_cases:
  "claim now sid aid st =
     (let l = log_or_fresh now sid aid st;
          st1 = (if find_log sid aid st = None then st\<lparr>ss_log := ss_log st @ [l], ss_log_next := ss_log_next st + 1\<rparr> else st)
      in if find_log sid aid st = None \<and> sid \<notin> s_id ` set (ss_rows st) then (st, Inl LogIntegrityError)
         else if dl_succeeded l then (st1, Inr False)
         else if (case dl_leased_until l of None \<Rightarrow> False | Some t \<Rightarrow> now < t) then (st, Inl DeliveryInFlightError)
         else (st1\<lparr>ss_log := update_where (\<lambda>r. dl_id r = dl_id l) (\<lambda>r. r\<lparr>dl_leased_until := Some (now + LEASE)\<rparr>) (ss_log st1)\<rparr>, Inr True))"
  by (auto simp: claim_def log_or_fresh_def fresh_log_def Let_def split: option.split)

lemma append_fresh_ok:
  assumes "log_ok st" and "find_log sid aid st = None" and "sid \<in> s_id ` set (ss_rows st)"
  shows "log_ok (st\<lparr>ss_log := ss_log st @ [fresh_log (ss_log_next st) now sid aid], ss_log_next := ss_log_next st + 1\<rparr>)"
  using assms unfolding log_ok_def
  by (fastforce simp: uniq_snoc conflicts_def has_key_iff log_id_key_def fresh_log_def find_None_iff log_key_def)

lemma claim_True:
  assumes ok: "log_ok st" and c: "claim now sid aid st = (st1, Inr True)"
  defines "l \<equiv> (log_or_fresh now sid aid st)\<lparr>dl_leased_until := Some (now + LEASE)\<rparr>"
  shows "log_ok st1 \<and> ss_rows st1 = ss_rows st \<and> ss_next st1 = ss_next st \<and> \<not> dl_succeeded l
    \<and> (case dl_leased_until (log_or_fresh now sid aid st) of None \<Rightarrow> True | Some t \<Rightarrow> t \<le> now)
    \<and> sid \<in> s_id ` set (ss_rows st)
    \<and> set (ss_log st1) = insert l {r \<in> set (ss_log st). log_key r \<noteq> Some (sid, aid)}"
proof -
  let ?l0 = "log_or_fresh now sid aid st" and ?f = "\<lambda>r. r\<lparr>dl_leased_until := Some (now + LEASE)\<rparr>"
  define st0 where st0: "st0 = (if find_log sid aid st = None then st\<lparr>ss_log := ss_log st @ [?l0], ss_log_next := ss_log_next st + 1\<rparr> else st)"
  have run: "\<not> (find_log sid aid st = None \<and> sid \<notin> s_id ` set (ss_rows st))" "\<not> dl_succeeded ?l0"
      "\<not> (case dl_leased_until ?l0 of None \<Rightarrow> False | Some t \<Rightarrow> now < t)"
      "st1 = st0\<lparr>ss_log := update_where (\<lambda>r. dl_id r = dl_id ?l0) ?f (ss_log st0)\<rparr>"
    using c unfolding claim_cases Let_def st0 [symmetric] by (auto split: if_splits)
  have found: "r \<in> set (ss_log st) \<and> log_key r = Some (sid, aid)" if "find_log sid aid st = Some r" for r
    using find_SomeD [OF that] .
  have st0_alt: "st0 = st \<and> ?l0 \<in> set (ss_log st) \<or>
      st0 = st\<lparr>ss_log := ss_log st @ [?l0], ss_log_next := ss_log_next st + 1\<rparr> \<and> log_ok st0"
  proof (cases "find_log sid aid st")
    case None
    then show ?thesis using append_fresh_ok [OF ok None, of now] run(1) by (simp add: st0 log_or_fresh_def)
  next
    case (Some r)
    then show ?thesis using found by (simp add: st0 log_or_fresh_def)
  qed
  then have ok0: "log_ok st0" and l0: "?l0 \<in> set (ss_log st0)" using ok by auto
  have rest: "{r \<in> set (ss_log st0). log_key r \<noteq> Some (sid, aid)} = {r \<in> set (ss_log st). log_key r \<noteq> Some (sid, aid)}"
    using st0_alt by auto
  have only: "r = ?l0" if "r \<in> set (ss_log st0)" "dl_id r = dl_id ?l0 \<or> log_key r = Some (sid, aid)" for r
    using log_same_id [OF ok0 that(1) l0] log_same_row [OF ok0 that(1) l0] that(2) by auto
  have "set (update_where (\<lambda>r. dl_id r = dl_id ?l0) ?f (ss_log st0)) = insert (?f ?l0) (set (ss_log st0) - {?l0})"
    by (rule set_update_one [OF l0]) (simp, rule only, simp_all)
  also have "set (ss_log st0) - {?l0} = {r \<in> set (ss_log st0). log_key r \<noteq> Some (sid, aid)}"
    using only log_or_fresh_key [of now sid aid st] by blast
  finally have "set (ss_log st1) = insert l {r \<in> set (ss_log st). log_key r \<noteq> Some (sid, aid)}"
    unfolding run(4) l_def rest by simp
  moreover have "log_ok st1" unfolding run(4)
    by (rule log_ok_update [OF ok0]) (simp_all add: lease_key.uniq_kept lease_id.uniq_kept)
  moreover have "sid \<in> s_id ` set (ss_rows st)"
  proof (cases "find_log sid aid st")
    case (Some r)
    then show ?thesis using found [OF Some] ok by (auto simp: log_ok_def log_key_def)
  qed (use run(1) in simp)
  ultimately show ?thesis using run(2,3) unfolding run(4) by (auto simp: st0 l_def split: option.splits)
qed

section \<open>Runs of the task\<close>

lemma find_log_known:
  assumes "log_ok st" and "l \<in> set (ss_log st)" and "log_key l = Some (sid, aid)"
  shows "find_log sid aid st = Some l"
proof (cases "find_log sid aid st")
  case None
  then show ?thesis using assms by (auto simp: find_None_iff)
next
  case (Some r)
  then show ?thesis using log_same_row [OF assms(1) _ assms(2), of r] find_SomeD [OF Some] assms(3) by auto
qed

text \<open>A delivered pair is final: a further task for it, whatever happens on the network, sends nothing,
  changes nothing and reports that.\<close>

theorem delivered_is_final:
  assumes "log_ok st" and "l \<in> set (ss_log st)" and "log_key l = Some (sid, aid)" and "dl_succeeded l"
  shows "deliver E feeds arts sid aid st = (st, [], [], Inr Deduped) \<or> deliver E feeds arts sid aid st = (st, [], [], Inr DeliveryGone)"
proof -
  have "claim now sid aid st = (st, Inr False)" for now
    using assms(4) find_log_known [OF assms(1,2,3)] unfolding claim_cases Let_def log_or_fresh_def by simp
  then show ?thesis by (simp add: deliver_def split: option.split)
qed

definition attempt_row :: "delivery_exn + deliver_result \<Rightarrow> bool \<Rightarrow> int option \<Rightarrow> bool" where
  "attempt_row res ok status \<longleftrightarrow>
     (ok \<longleftrightarrow> (\<exists>c. res = Inr (Sent c True)))
     \<and> (\<forall>c b. res = Inr (Sent c b) \<longrightarrow> status = Some c \<and> b = (200 \<le> c \<and> c < 300))
     \<and> (\<forall>c. res = Inl (RetryableDeliveryError c) \<longrightarrow> status = Some c)"

lemma conclude_shape:
  assumes "conclude E sub aid res st = (st', r)"
  shows "\<exists>ok status err. ss_log st' = ss_log (record_attempt (de_record_at E) (s_id sub) aid ok status err st)
    \<and> (ss_rows st' = ss_rows st \<or> ss_rows st' = touch_notified (de_notified_at E) sub (ss_rows st))
    \<and> ss_next st' = ss_next st \<and> ss_log_next st' = ss_log_next st \<and> attempt_row r ok status
    \<and> r \<notin> {Inr DeliveryGone, Inr Deduped}"
proof (cases res)
  case (Inr status)
  let ?ok = "200 \<le> status \<and> status < 300"
  show ?thesis using assms Inr
    by (intro exI [of _ ?ok] exI [of _ "Some status"] exI [of _ "if ?ok then None else Some (answered status)"])
      (auto simp: conclude_def Let_def attempt_row_def record_attempt_def split: if_splits)
next
  case (Inl e)
  show ?thesis
  proof (cases "\<exists>why. e = SendHttp (UnsafeURLError why)")
    case True
    then obtain why where "e = SendHttp (UnsafeURLError why)" by blast
    then show ?thesis using assms Inl
      by (intro exI [of _ False] exI [of _ None] exI [of _ "Some (lit ''blocked: '' @ de_unsafe_str E why)"])
        (auto simp: conclude_def Let_def attempt_row_def record_attempt_def)
  next
    case False
    let ?code = "case e of RetryableDeliveryError c \<Rightarrow> Some c | _ \<Rightarrow> None"
    have "conclude E sub aid (Inl e) st = (record_attempt (de_record_at E) (s_id sub) aid False ?code (Some (failure e)) st, Inl e)"
      using False by (auto simp: conclude_def Let_def split: delivery_exn.splits http_exn.splits)
    then show ?thesis using assms Inl
      by (intro exI [of _ False] exI [of _ ?code] exI [of _ "Some (failure e)"]) (auto simp: attempt_row_def record_attempt_def)
  qed
qed

lemma attempt_shape:
  assumes "attempt E sub a st = (st', wire, mails, r)"
  shows "\<exists>ok status err. ss_log st' = ss_log (record_attempt (de_record_at E) (s_id sub) (a_id a) ok status err st)
    \<and> (ss_rows st' = ss_rows st \<or> ss_rows st' = touch_notified (de_notified_at E) sub (ss_rows st))
    \<and> ss_next st' = ss_next st \<and> ss_log_next st' = ss_log_next st \<and> attempt_row r ok status
    \<and> r \<notin> {Inr DeliveryGone, Inr Deduped}"
proof -
  have plain: ?thesis if "st' = record_attempt (de_record_at E) (s_id sub) (a_id a) False None (Some err) st" "r = Inr (NotSent err)" for err
    using that by (intro exI [of _ False] exI [of _ None] exI [of _ "Some err"]) (auto simp: attempt_row_def record_attempt_def)
  consider err where "st' = record_attempt (de_record_at E) (s_id sub) (a_id a) False None (Some err) st" "r = Inr (NotSent err)"
    | res where "conclude E sub (a_id a) res st = (st', r)"
    using assms by (auto simp: attempt_def Let_def split: if_splits prod.splits)
  then show ?thesis
  proof cases
    case 1
    then show ?thesis by (rule plain)
  next
    case 2
    then show ?thesis by (rule conclude_shape)
  qed
qed

text \<open>C9: A run that got the lease ends with one more attempt on the pair's only row and the lease released,
  whatever the receiver did; the row is marked delivered exactly when the answer was 2xx, and carries the status of
  the answer; the other rows of the log are as before.\<close>

theorem deliver_records_attempt:
  assumes "log_ok st" and "deliver E feeds arts sid aid st = (st', wire, mails, res)"
    and "claim (de_claim_at E) sid aid st = (st1, Inr True)" and "res \<noteq> Inr DeliveryGone"
  shows "\<exists>l. set (ss_log st') = insert l {r \<in> set (ss_log st). log_key r \<noteq> Some (sid, aid)} \<and> log_key l = Some (sid, aid)
    \<and> dl_leased_until l = None \<and> dl_attempts l = (case find_log sid aid st of None \<Rightarrow> 1 | Some old \<Rightarrow> dl_attempts old + 1)
    \<and> (dl_succeeded l \<longleftrightarrow> (\<exists>c. res = Inr (Sent c True)))
    \<and> (\<forall>c b. res = Inr (Sent c b) \<longrightarrow> dl_http_status l = Some c \<and> b = (200 \<le> c \<and> c < 300))
    \<and> (\<forall>c. res = Inl (RetryableDeliveryError c) \<longrightarrow> dl_http_status l = Some c)"
proof -
  obtain sub a where sub: "find (\<lambda>s. s_id s = sid \<and> s_is_active s) (ss_rows st) = Some sub" and a: "live_article feeds arts aid = Some a"
    and at: "attempt E sub a st1 = (st', wire, mails, res)"
    using assms(2,3,4) by (auto simp: deliver_def split: option.splits)
  have ids: "s_id sub = sid" "a_id a = aid" using find_SomeD [OF sub] find_SomeD [OF a [unfolded live_article_def]] by auto
  let ?base = "log_or_fresh (de_claim_at E) sid aid st"
  let ?held = "?base\<lparr>dl_leased_until := Some (de_claim_at E + LEASE)\<rparr>"
  have c: "log_ok st1" "\<not> dl_succeeded ?held" "set (ss_log st1) = insert ?held {r \<in> set (ss_log st). log_key r \<noteq> Some (sid, aid)}"
    using claim_True [OF assms(1,3)] by simp_all
  have k: "log_key ?held = Some (sid, aid)" using log_or_fresh_key [of "de_claim_at E" sid aid st] by (simp add: log_key_def)
  obtain ok status err where log: "ss_log st' = ss_log (record_attempt (de_record_at E) sid aid ok status err st1)" and row: "attempt_row res ok status"
    using attempt_shape [OF at] ids by auto
  let ?new = "record_row (de_record_at E) ok status err ?held"
  have "set (ss_log st') = insert ?new {r \<in> set (ss_log st1). log_key r \<noteq> Some (sid, aid)}"
    unfolding log using c(1,3) k c(2) by (intro record_set) simp_all
  also have "{r \<in> set (ss_log st1). log_key r \<noteq> Some (sid, aid)} = {r \<in> set (ss_log st). log_key r \<noteq> Some (sid, aid)}"
    using c(3) k by auto
  finally have "set (ss_log st') = insert ?new {r \<in> set (ss_log st). log_key r \<noteq> Some (sid, aid)}" .
  moreover have "log_key ?new = Some (sid, aid)" using k by (simp add: rec_key.key_kept)
  moreover have "dl_attempts ?base = (case find_log sid aid st of None \<Rightarrow> 0 | Some old \<Rightarrow> dl_attempts old)"
    by (simp add: log_or_fresh_def fresh_log_def split: option.split)
  ultimately show ?thesis
    using row c(2) by (intro exI [of _ ?new]) (auto simp: record_row_def attempt_row_def split: option.splits)
qed

section \<open>An example run\<close>

text \<open>The body of the answer is not read, so its bound plays no part; this evaluates without it.\<close>

lemma request_discard:
  "request te z net \<lparr>cf_headers = h, cf_max_bytes = m, cf_allow_http = b, cf_truncate = t, cf_discard_body = True\<rparr> now timeout 0 meth url body =
   request te z net \<lparr>cf_headers = h, cf_max_bytes = n, cf_allow_http = b, cf_truncate = t, cf_discard_body = True\<rparr> now timeout 0 meth url body"
  (is "request te z net ?c now timeout 0 meth url body = request te z net ?d now timeout 0 meth url body")
proof -
  have build: "build_request ?c = build_request ?d" by (intro ext) (simp add: build_request_def)
  have prep: "prepare_hop te net ?c = prepare_hop te net ?d" by (intro ext) (unfold prepare_hop_def build, simp)
  have fin: "finish te z ?c = finish te z ?d" by (intro ext) (simp add: finish_def)
  show ?thesis
    unfolding request_def request_loop.simps [of te z net _ "now + timeout" 0] prep fin by (simp split: sum.split)
qed

lemmas send_webhook_code [code] = send_webhook_def [unfolded request_discard [where m = DEFAULT_MAX_BYTES and n = 0]]

definition net_hook :: net_env where
  "net_hook = \<lparr>dns = (\<lambda>_ _ _. Some [lit ''93.184.216.34'']), clock = (\<lambda>_. 0),
     exchange = (\<lambda>_ _. Inr \<lparr>rs_status = 200, rs_header = (\<lambda>_. None), rs_chunks = [], rs_failed = None\<rparr>)\<rparr>"

definition dv_example :: "unit dv_env" where
  "dv_example = \<lparr>de_te = te_ascii, de_z = zlib_copy, de_net = net_hook, de_cfg = cfg_example, de_from_email = lit ''no-reply@x.org'',
     de_send_mail = (\<lambda>_. None), de_hmac_sha256 = (\<lambda>k m. k), de_sha256_hex = (\<lambda>m. m), de_isoformat = (\<lambda>_. []), de_unsafe_str = (\<lambda>_. []),
     de_claim_at = 5, de_time = 7, de_request_at = 0, de_record_at = 9, de_notified_at = 10\<rparr>"

definition st_hook :: sub_store where
  "st_hook = \<lparr>ss_rows = [\<lparr>s_id = 1, s_owner = 7, s_name = lit ''n'', s_q = lit ''rust'', s_feeds = [], s_tag_ids = [], s_delivery = WEBHOOK,
     s_webhook_url = Some (lit ''https://h.org/in''), s_email_to = None, s_target_key = lit ''https://h.org/in'', s_webhook_secret = Some (lit ''k''),
     s_interval = INSTANT, s_last_notified_at = None, s_is_active = True, s_created_at = 0\<rparr>], ss_next = 2, ss_log = [], ss_log_next = 1\<rparr>"

definition run_hook :: "sub_store \<times> wire_request list \<times> mail list \<times> (delivery_exn + deliver_result)" where
  "run_hook = deliver dv_example [default_feed 0 2] [article_plain] 1 5 st_hook"

lemma run_hook_wire: "length (fst (snd run_hook)) = 1"
  by code_simp

lemma run_hook_eq: "deliver dv_example [default_feed 0 2] [article_plain] 1 5 st_hook = (fst run_hook, fst (snd run_hook), fst (snd (snd run_hook)), snd (snd (snd run_hook)))"
  by (simp add: run_hook_def)

theorem webhook_request_signed_witness:
  "\<exists>wr. fst (snd run_hook) = [wr] \<and> wr_method wr = lit ''POST'' \<and> is_public (t_address (wr_target wr))
     \<and> wr_headers wr (lit ''X-NF-Timestamp'') = Some (int_str 7)"
proof -
  obtain wr where wr: "wr \<in> set (fst (snd run_hook))" using run_hook_wire by (cases "fst (snd run_hook)") auto
  moreover have "de_time dv_example = 7" by (simp add: dv_example_def)
  ultimately show ?thesis using webhook_request_signed [OF run_hook_eq wr] by auto
qed

lemma run_hook_log: "log_ok (fst run_hook) \<and> map (\<lambda>l. (log_key l, dl_succeeded l)) (ss_log (fst run_hook)) = [(Some (1, 5), True)]"
  by code_simp

theorem delivered_is_final_witness:
  "deliver dv_example [default_feed 0 2] [article_plain] 1 5 (fst run_hook) = (fst run_hook, [], [], Inr Deduped)
   \<or> deliver dv_example [default_feed 0 2] [article_plain] 1 5 (fst run_hook) = (fst run_hook, [], [], Inr DeliveryGone)"
proof -
  obtain l where "ss_log (fst run_hook) = [l]" "log_key l = Some (1, 5)" "dl_succeeded l" using run_hook_log by auto
  then show ?thesis using run_hook_log by (intro delivered_is_final [of _ l]) auto
qed

lemma claim_hook: "isl (snd (claim 5 1 5 st_hook)) = False \<and> projr (snd (claim 5 1 5 st_hook)) = True \<and> snd (snd (snd run_hook)) = Inr (Sent 200 True)"
  by code_simp

theorem deliver_records_attempt_witness:
  "\<exists>l. l \<in> set (ss_log (fst run_hook)) \<and> dl_attempts l = 1 \<and> dl_leased_until l = None \<and> dl_succeeded l \<and> dl_http_status l = Some 200"
proof -
  have "claim (de_claim_at dv_example) 1 5 st_hook = (fst (claim 5 1 5 st_hook), Inr True)"
    using claim_hook by (cases "claim 5 1 5 st_hook"; cases "snd (claim 5 1 5 st_hook)") (auto simp: dv_example_def)
  moreover have "log_ok st_hook" by (simp add: log_ok_def st_hook_def)
  moreover have "find_log 1 5 st_hook = None" by (simp add: st_hook_def)
  ultimately show ?thesis
    using deliver_records_attempt [OF _ run_hook_eq, of "fst (claim 5 1 5 st_hook)"] claim_hook by fastforce
qed

end
