(* ===== verification/Delivery_Lease.thy ===== *)
theory Delivery_Lease
  imports Delivery_Log
begin

text \<open>
  Deliveries that run side by side.  A task is the two transactions of \<^verbatim>\<open>deliver\<close>, \<^verbatim>\<open>_claim\<close> and what
  follows the send, with any steps of other tasks, of the API and of the clock in between; a task that is still running
  when its hard time limit is over is killed, as Celery does, and any task may die.
\<close>

section \<open>The subscriptions table under deliveries\<close>

lemma subs_ok_log:
  assumes "subs_ok te lims st" and "ss_rows st' = ss_rows st" and "ss_next st' = ss_next st" and "log_ok st'"
  shows "subs_ok te lims st'"
  using assms unfolding subs_ok_def by simp

definition sub_core :: "subscription \<Rightarrow> int \<times> int \<times> ustr \<times> delivery \<times> ustr option \<times> ustr option" where
  "sub_core s = (s_id s, s_owner s, s_target_key s, s_delivery s, sub_target s, s_webhook_secret s)"

lemma log_ok_cong:
  assumes "log_ok st" and "ss_log st' = ss_log st" and "ss_log_next st' = ss_log_next st" and "s_id ` set (ss_rows st') = s_id ` set (ss_rows st)"
  shows "log_ok st'"
  using assms(1) unfolding log_ok_def assms(2,3,4) .

lemma core_ids:
  assumes "map sub_core xs = map sub_core ys"
  shows "map s_id xs = map s_id ys"
proof -
  have fst_core: "map s_id zs = map fst (map sub_core zs)" for zs by (simp add: sub_core_def)
  show ?thesis unfolding fst_core assms ..
qed

lemma subs_ok_same_core:
  assumes ok: "subs_ok te lims st" and same: "map sub_core (ss_rows st') = map sub_core (ss_rows st)"
    and "ss_next st' = ss_next st" and "log_ok st'"
  shows "subs_ok te lims st'"
proof -
  have comp: "map (g \<circ> sub_core) (ss_rows st') = map (g \<circ> sub_core) (ss_rows st)" for g using same by (simp flip: map_map)
  have ids: "map s_id (ss_rows st') = map s_id (ss_rows st)" and own: "map s_owner (ss_rows st') = map s_owner (ss_rows st)"
    using comp [of fst] comp [of "\<lambda>p. fst (snd p)"] by (simp_all add: sub_core_def comp_def)
  have keys: "keys_of sub_id_key rows = map s_id rows" for rows by (induction rows) (simp_all add: sub_id_key_def)
  have owned: "owned i (ss_rows st') = owned i (ss_rows st)" for i using owned_map own by metis
  have set_eq: "sub_core ` set (ss_rows st') = sub_core ` set (ss_rows st)" using same by (metis list.set_map)
  have key_owners: "key_owners k (ss_rows st') = key_owners k (ss_rows st)" for k
  proof -
    have "key_owners k rows = (\<lambda>c. fst (snd c)) ` {c \<in> sub_core ` set rows. fst (snd (snd c)) = k}" for rows
      by (force simp: key_owners_def sub_core_def)
    then show ?thesis by (simp only: set_eq)
  qed
  have "\<exists>r \<in> set (ss_rows st). sub_core s = sub_core r" if "s \<in> set (ss_rows st')" for s using that set_eq by blast
  then have "s_id s < ss_next st \<and> row_ok te s \<and> owned (s_owner s) (ss_rows st) \<le> MAX_SUBSCRIPTIONS_PER_USER lims
      \<and> (s_target_key s \<noteq> [] \<longrightarrow> int (card (key_owners (s_target_key s) (ss_rows st))) \<le> MAX_ACCOUNTS_PER_TARGET lims)"
    if "s \<in> set (ss_rows st')" for s using that ok unfolding subs_ok_def by (fastforce simp: sub_core_def row_ok_def)
  then show ?thesis using ok assms(3,4) ids unfolding subs_ok_def by (simp add: uniq_def keys owned key_owners)
qed

lemma touch_same_core: "map sub_core (touch_notified now sub rows) = map sub_core rows"
  unfolding touch_notified_def by (rule map_update_where) (simp add: sub_core_def)

lemma attempt_keeps:
  assumes "subs_ok te lims st" and "attempt E sub a st = (st', wire, mails, r)"
  shows "subs_ok te lims st'"
proof -
  obtain ok status err where sh: "ss_log st' = ss_log (record_attempt (de_record_at E) (s_id sub) (a_id a) ok status err st)"
    "ss_rows st' = ss_rows st \<or> ss_rows st' = touch_notified (de_notified_at E) sub (ss_rows st)"
    "ss_next st' = ss_next st" "ss_log_next st' = ss_log_next st"
    using attempt_shape [OF assms(2)] by blast
  have core: "map sub_core (ss_rows st') = map sub_core (ss_rows st)" using sh(2) touch_same_core by auto
  then have "map s_id (ss_rows st') = map s_id (ss_rows st)" by (rule core_ids)
  then have ids: "s_id ` set (ss_rows st') = s_id ` set (ss_rows st)" by (metis list.set_map)
  have rk: "log_ok (record_attempt (de_record_at E) (s_id sub) (a_id a) ok status err st)"
    using subs_okE(4) [OF assms(1)] by (rule record_keeps_log)
  have "log_ok st'" by (rule log_ok_cong [OF rk sh(1)]) (use sh(4) ids in \<open>simp_all add: record_attempt_def\<close>)
  then show ?thesis by (rule subs_ok_same_core [OF assms(1) core sh(3)])
qed

section \<open>What an API request does to the log\<close>

abbreviation sub_ids :: "sub_store \<Rightarrow> int set" where
  "sub_ids st \<equiv> s_id ` set (ss_rows st)"

definition api_frame :: "sub_store \<Rightarrow> sub_store \<Rightarrow> bool" where
  "api_frame st st' \<longleftrightarrow> ss_next st \<le> ss_next st' \<and> sub_ids st' \<subseteq> insert (ss_next st) (sub_ids st)
     \<and> set (ss_log st') = {l \<in> set (ss_log st). dl_subscription l \<in> sub_ids st'}"

lemma api_frame_refl: "log_ok st \<Longrightarrow> api_frame st st"
  by (auto simp: api_frame_def log_ok_def)

lemma api_frame_replace:
  assumes "log_ok st" and "s_id new \<in> sub_ids st"
  shows "api_frame st (st\<lparr>ss_rows := replace_sub new (ss_rows st)\<rparr>)"
proof -
  have "map s_id (replace_sub new (ss_rows st)) = map s_id (ss_rows st)" by (rule map_update_where) simp
  then have "s_id ` set (replace_sub new (ss_rows st)) = sub_ids st" by (metis list.set_map)
  then show ?thesis using assms by (auto simp: api_frame_def log_ok_def)
qed

lemma api_frame_step:
  assumes "sub_step te lims user st st'" and ok: "subs_ok te lims st"
  shows "api_frame st st'"
  using assms
proof (cases rule: sub_step.cases)
  case (1 E token now d)
  show ?thesis
  proof (cases "st' = st")
    case False
    then obtain v where v: "is_valid E False None d = Inr v" using 1 by (auto simp: post_sub_def split: sum.splits)
    obtain st2 res where c: "create_sub te lims now token user v st = (st2, res)" by fastforce
    then have "st' = st2" using 1 v by (simp add: post_sub_def)
    then obtain inst issued where "create_sub te lims now token user v st = (st', Inr (inst, issued))"
      using c False by (cases res) (auto simp: create_sub_def atomic_def split: sum.splits if_splits)
    from ok this show ?thesis
      by (rule create_shape) (use subs_okE(4) [OF ok] in \<open>auto simp: api_frame_def log_ok_def\<close>)
  qed (use api_frame_refl subs_okE(4) [OF ok] in simp)
next
  case (2 E token partial pk d)
  obtain res where p: "put_sub E lims partial token user pk d st = (st', res)" using 2 by (metis prod.collapse)
  consider "st' = st" | old new where "get_object user pk st = Inr old" "s_id new = s_id old" "st' = st\<lparr>ss_rows := replace_sub new (ss_rows st)\<rparr>"
    using put_shape [OF _ p] ok 2 by blast
  then show ?thesis
  proof cases
    case 2
    have "s_id new \<in> sub_ids st" using get_object_Inr [OF 2(1)] unfolding 2(2) by (intro imageI) simp
    then show ?thesis using api_frame_replace [OF subs_okE(4) [OF ok]] 2(3) by simp
  qed (use api_frame_refl subs_okE(4) [OF ok] in simp)
next
  case (3 pk)
  show ?thesis
  proof (cases "get_object user pk st")
    case (Inr old)
    then show ?thesis using 3 subs_okE(4) [OF ok] by (auto simp: delete_sub_def api_frame_def log_ok_def)
  qed (use 3 api_frame_refl subs_okE(4) [OF ok] in \<open>simp add: delete_sub_def\<close>)
next
  case (4 token pk)
  show ?thesis
  proof (cases "\<exists>s. get_object user pk st = Inr s \<and> s_delivery s = WEBHOOK")
    case True
    then obtain s where s: "get_object user pk st = Inr s" "s_delivery s = WEBHOOK" by blast
    show ?thesis using 4 api_frame_replace [OF subs_okE(4) [OF ok], of "s\<lparr>s_webhook_secret := Some token\<rparr>"] get_object_Inr [OF s(1)]
      unfolding 4 rotate_shape [OF ok s] by auto
  next
    case False
    then show ?thesis using 4 api_frame_refl [OF subs_okE(4) [OF ok]]
      by (cases "get_object user pk st") (auto simp: rotate_secret_def atomic_def)
  qed
qed

section \<open>Tasks, clock and API together\<close>

record lease_sys =
  ls_store :: sub_store
  ls_now :: int
  ls_sending :: "((int \<times> int) \<times> int) list" \<comment> \<open>pairs being sent, with the time of their claim\<close>
  ls_done :: "(int \<times> int) list" \<comment> \<open>pairs recorded as delivered\<close>

definition delivered :: "delivery_exn + deliver_result \<Rightarrow> bool" where
  "delivered r \<longleftrightarrow> (\<exists>c. r = Inr (Sent c True))"

text \<open>The type argument is that of the decompressor of \<open>dv_env\<close>.\<close>

inductive lease_step :: "'z itself \<Rightarrow> text_env \<Rightarrow> sub_settings \<Rightarrow> int \<Rightarrow> lease_sys \<Rightarrow> lease_sys \<Rightarrow> bool" for zt :: "'z itself" and te lims limit where
  tick: "ls_now d \<le> t \<Longrightarrow>
    lease_step zt te lims limit d (d\<lparr>ls_now := t, ls_sending := filter (\<lambda>w. t < snd w + limit) (ls_sending d)\<rparr>)"
| start: "claim (ls_now d) sid aid (ls_store d) = (st', Inr True) \<Longrightarrow>
    lease_step zt te lims limit d (d\<lparr>ls_store := st', ls_sending := ((sid, aid), ls_now d) # ls_sending d\<rparr>)"
| refused: "claim (ls_now d) sid aid (ls_store d) = (st', r) \<Longrightarrow> r \<noteq> Inr True \<Longrightarrow>
    lease_step zt te lims limit d (d\<lparr>ls_store := st'\<rparr>)"
| finish: "((s_id sub, a_id a), t) \<in> set (ls_sending d) \<Longrightarrow> attempt (E :: 'z dv_env) sub a (ls_store d) = (st', wire, mails, r) \<Longrightarrow>
    lease_step zt te lims limit d (d\<lparr>ls_store := st', ls_sending := filter (\<lambda>w. fst w \<noteq> (s_id sub, a_id a)) (ls_sending d),
      ls_done := (if delivered r then (s_id sub, a_id a) # ls_done d else ls_done d)\<rparr>)"
| crash: "lease_step zt te lims limit d (d\<lparr>ls_sending := filter (\<lambda>w. w \<noteq> v) (ls_sending d)\<rparr>)"
| api: "any_sub_step te lims (ls_store d) st' \<Longrightarrow> lease_step zt te lims limit d (d\<lparr>ls_store := st'\<rparr>)"

definition gone :: "sub_store \<Rightarrow> int \<times> int \<Rightarrow> bool" where
  "gone st p \<longleftrightarrow> fst p \<notin> sub_ids st \<and> fst p < ss_next st"

definition held :: "sub_store \<Rightarrow> int \<times> int \<Rightarrow> int \<Rightarrow> bool" where
  "held st p t \<longleftrightarrow> gone st p \<or> (\<exists>l \<in> set (ss_log st). log_key l = Some p \<and> \<not> dl_succeeded l \<and> dl_leased_until l = Some (t + LEASE))"

definition recorded :: "sub_store \<Rightarrow> int \<times> int \<Rightarrow> bool" where
  "recorded st p \<longleftrightarrow> gone st p \<or> (\<exists>l \<in> set (ss_log st). log_key l = Some p \<and> dl_succeeded l)"

definition lease_inv :: "text_env \<Rightarrow> sub_settings \<Rightarrow> int \<Rightarrow> lease_sys \<Rightarrow> bool" where
  "lease_inv te lims limit d \<longleftrightarrow>
     subs_ok te lims (ls_store d) \<and> distinct (map fst (ls_sending d)) \<and> distinct (ls_done d)
     \<and> fst ` set (ls_sending d) \<inter> set (ls_done d) = {}
     \<and> (\<forall>w \<in> set (ls_sending d). snd w \<le> ls_now d \<and> ls_now d < snd w + limit \<and> held (ls_store d) (fst w) (snd w))
     \<and> (\<forall>p \<in> set (ls_done d). recorded (ls_store d) p)"

lemma api_keeps_held:
  assumes "api_frame st st'" and "subs_ok te lims st" and "subs_ok te lims st'"
  shows "held st p t \<Longrightarrow> held st' p t" and "recorded st p \<Longrightarrow> recorded st' p"
proof -
  have gone: "gone st' p" if "gone st p" using that assms(1) by (auto simp: gone_def api_frame_def)
  have row: "l \<in> set (ss_log st') \<or> gone st' p" if l: "l \<in> set (ss_log st)" "log_key l = Some p" for l
  proof -
    have "fst p \<in> sub_ids st" "dl_subscription l = fst p" using l subs_okE(4) [OF assms(2)] by (auto simp: log_ok_def log_key_def)
    then have "fst p < ss_next st'" using subs_okE(2) [OF assms(2)] assms(1) by (fastforce simp: api_frame_def)
    then show ?thesis using assms(1) l(1) \<open>dl_subscription l = fst p\<close> by (auto simp: api_frame_def gone_def)
  qed
  show "held st p t \<Longrightarrow> held st' p t" using gone row unfolding held_def by blast
  show "recorded st p \<Longrightarrow> recorded st' p" using gone row unfolding recorded_def by blast
qed

lemma claim_refused:
  assumes "claim now sid aid st = (st', r)" and "r \<noteq> Inr True"
  shows "st' = st"
  using assms unfolding claim_cases Let_def log_or_fresh_def by (auto simp: fresh_log_def split: if_splits option.splits)

text \<open>Rows of other pairs are not touched.\<close>

lemma other_pair_kept:
  assumes "set (ss_log st') = insert l {r \<in> set (ss_log st). log_key r \<noteq> Some p}" and "sub_ids st' = sub_ids st" and "ss_next st' = ss_next st"
    and "q \<noteq> p"
  shows "held st q t \<Longrightarrow> held st' q t" and "recorded st q \<Longrightarrow> recorded st' q"
proof -
  have gone: "gone st' q \<longleftrightarrow> gone st q" using assms(2,3) by (simp add: gone_def)
  have row: "r \<in> set (ss_log st')" if "r \<in> set (ss_log st)" "log_key r = Some q" for r
    using that assms(1,4) by auto
  show "held st q t \<Longrightarrow> held st' q t" using gone row unfolding held_def by blast
  show "recorded st q \<Longrightarrow> recorded st' q" using gone row unfolding recorded_def by blast
qed

lemma lease_invE:
  assumes "lease_inv te lims limit d"
  shows "subs_ok te lims (ls_store d)" "log_ok (ls_store d)" "distinct (map fst (ls_sending d))" "distinct (ls_done d)"
    "\<And>w. w \<in> set (ls_sending d) \<Longrightarrow> snd w \<le> ls_now d \<and> ls_now d < snd w + limit \<and> held (ls_store d) (fst w) (snd w)"
    "\<And>p. p \<in> set (ls_done d) \<Longrightarrow> recorded (ls_store d) p" "fst ` set (ls_sending d) \<inter> set (ls_done d) = {}"
  using assms subs_okE(4) unfolding lease_inv_def by auto

lemma start_keeps:
  assumes inv: "lease_inv te lims limit d" and "0 < limit" and "limit \<le> LEASE" and c: "claim (ls_now d) sid aid (ls_store d) = (st', Inr True)"
  shows "lease_inv te lims limit (d\<lparr>ls_store := st', ls_sending := ((sid, aid), ls_now d) # ls_sending d\<rparr>)"
proof -
  let ?st = "ls_store d" and ?p = "(sid, aid)" and ?base = "log_or_fresh (ls_now d) sid aid (ls_store d)"
  let ?new = "?base\<lparr>dl_leased_until := Some (ls_now d + LEASE)\<rparr>"
  note I = lease_invE [OF inv]
  have cl: "log_ok st'" "ss_rows st' = ss_rows ?st" "ss_next st' = ss_next ?st" "\<not> dl_succeeded ?new" "sid \<in> sub_ids ?st"
    "case dl_leased_until ?base of None \<Rightarrow> True | Some t \<Rightarrow> t \<le> ls_now d"
    "set (ss_log st') = insert ?new {r \<in> set (ss_log ?st). log_key r \<noteq> Some ?p}"
    using claim_True [OF I(2) c] by simp_all
  have base: "?base = l" if "l \<in> set (ss_log ?st)" "log_key l = Some ?p" for l
    using find_log_known [OF I(2) that] by (simp add: log_or_fresh_def)
  have "\<not> held ?st ?p t" if "ls_now d < t + LEASE" for t
  proof
    assume "held ?st ?p t"
    then obtain l where l: "l \<in> set (ss_log ?st)" "log_key l = Some ?p" and lu: "dl_leased_until l = Some (t + LEASE)"
      using cl(5) by (auto simp: held_def gone_def)
    then show False using cl(6) that unfolding base [OF l] by simp
  qed
  then have fresh: "?p \<notin> fst ` set (ls_sending d)" using I(5) assms(3) by fastforce
  have "\<not> recorded ?st ?p"
  proof
    assume "recorded ?st ?p"
    then obtain l where l: "l \<in> set (ss_log ?st)" "log_key l = Some ?p" and "dl_succeeded l" using cl(5) by (auto simp: recorded_def gone_def)
    then show False using cl(4) unfolding base [OF l] by simp
  qed
  then have undone: "?p \<notin> set (ls_done d)" using I(6) by blast
  have "log_key ?new = Some ?p" using log_or_fresh_key [of "ls_now d" sid aid ?st] by (simp add: log_key_def)
  then have "held st' ?p (ls_now d)" using cl(4,7) unfolding held_def by auto
  moreover have "held st' (fst w) (snd w)" if "w \<in> set (ls_sending d)" for w
    using other_pair_kept(1) [OF cl(7)] cl(2,3) I(5) [OF that] fresh that by (metis image_eqI)
  moreover have "recorded st' q" if "q \<in> set (ls_done d)" for q
    using other_pair_kept(2) [OF cl(7)] cl(2,3) I(6) [OF that] undone that by metis
  moreover have "subs_ok te lims st'" using subs_ok_log [OF I(1) cl(2,3,1)] .
  ultimately show ?thesis using I fresh undone assms(2) unfolding lease_inv_def by auto
qed

lemma finish_log:
  assumes ok: "log_ok st" and h: "held st (sid, aid) t"
  shows "gone st (sid, aid) \<and> ss_log (record_attempt now sid aid b status err st) = ss_log st
    \<or> (\<exists>l. set (ss_log (record_attempt now sid aid b status err st)) = insert l {r \<in> set (ss_log st). log_key r \<noteq> Some (sid, aid)}
          \<and> log_key l = Some (sid, aid) \<and> dl_succeeded l = b)"
proof (cases "gone st (sid, aid)")
  case True
  then have "dl_subscription r \<noteq> sid" if "r \<in> set (ss_log st)" for r using ok that by (auto simp: gone_def log_ok_def)
  then have "update_where (\<lambda>l. dl_subscription l = sid \<and> dl_article l = aid \<and> \<not> dl_succeeded l) (record_row now b status err) (ss_log st) = ss_log st"
    by (intro update_where_none) blast
  then show ?thesis using True by (simp add: record_attempt_def)
next
  case False
  then obtain l where l: "l \<in> set (ss_log st)" "log_key l = Some (sid, aid)" "\<not> dl_succeeded l" using h by (auto simp: held_def)
  show ?thesis using record_set [OF ok l] l(2,3)
    by (intro disjI2 exI [of _ "record_row now b status err l"]) (simp add: rec_key.key_kept, simp add: record_row_def)
qed

lemma finish_keeps:
  assumes inv: "lease_inv te lims limit d" and w: "((s_id sub, a_id a), t) \<in> set (ls_sending d)"
    and at: "attempt E sub a (ls_store d) = (st', wire, mails, r)"
  shows "lease_inv te lims limit (d\<lparr>ls_store := st', ls_sending := filter (\<lambda>w. fst w \<noteq> (s_id sub, a_id a)) (ls_sending d),
      ls_done := (if delivered r then (s_id sub, a_id a) # ls_done d else ls_done d)\<rparr>)"
proof -
  let ?st = "ls_store d" and ?p = "(s_id sub, a_id a)"
  note I = lease_invE [OF inv]
  obtain ok status err where sh: "ss_log st' = ss_log (record_attempt (de_record_at E) (s_id sub) (a_id a) ok status err ?st)"
    "ss_rows st' = ss_rows ?st \<or> ss_rows st' = touch_notified (de_notified_at E) sub (ss_rows ?st)" "ss_next st' = ss_next ?st"
    "attempt_row r ok status"
    using attempt_shape [OF at] by blast
  have "map sub_core (ss_rows st') = map sub_core (ss_rows ?st)" using sh(2) touch_same_core by auto
  from core_ids [OF this] have ids: "sub_ids st' = sub_ids ?st" by (metis list.set_map)
  have ok: "ok \<longleftrightarrow> delivered r" using sh(4) by (auto simp: attempt_row_def delivered_def)
  have "held ?st ?p t" using I(5) [OF w] by simp
  from finish_log [OF I(2) this, of "de_record_at E" ok status err, folded sh(1)] consider "gone ?st ?p" "ss_log st' = ss_log ?st"
    | l where "set (ss_log st') = insert l {r \<in> set (ss_log ?st). log_key r \<noteq> Some ?p}" "log_key l = Some ?p" "dl_succeeded l = ok"
    by blast
  then have both: "(\<forall>q u. q \<noteq> ?p \<longrightarrow> (held ?st q u \<longrightarrow> held st' q u) \<and> (recorded ?st q \<longrightarrow> recorded st' q)) \<and> (delivered r \<longrightarrow> recorded st' ?p)"
  proof cases
    case 1
    then show ?thesis using ids sh(3) by (simp add: held_def recorded_def gone_def)
  next
    case 2
    then have "delivered r \<longrightarrow> recorded st' ?p" using ok by (auto simp: recorded_def)
    then show ?thesis using other_pair_kept [OF 2(1) ids sh(3)] by blast
  qed
  then have keep: "\<And>q u. q \<noteq> ?p \<Longrightarrow> (held ?st q u \<longrightarrow> held st' q u) \<and> (recorded ?st q \<longrightarrow> recorded st' q)"
    and rec: "delivered r \<Longrightarrow> recorded st' ?p" by blast+
  have undone: "?p \<notin> set (ls_done d)" using I(7) w by force
  have "subs_ok te lims st'" using attempt_keeps [OF I(1) at] .
  moreover have "recorded st' q" if "q \<in> set (ls_done d)" for q using keep [of q 0] I(6) [OF that] undone that by metis
  moreover have "held st' (fst w) (snd w)" if "w \<in> set (ls_sending d)" "fst w \<noteq> ?p" for w using keep that I(5) by blast
  ultimately show ?thesis
    using I(3,4,5,7) undone rec unfolding lease_inv_def by (auto simp: distinct_map_filter)
qed

lemma lease_step_keeps:
  assumes "lease_step zt te lims limit d d'" and "0 < limit" and "limit \<le> LEASE" and "lease_inv te lims limit d"
  shows "lease_inv te lims limit d'"
  using assms
proof (induction rule: lease_step.induct)
  case (tick d t)
  then show ?case using lease_invE [OF tick(4)] unfolding lease_inv_def by (fastforce simp: distinct_map_filter)
next
  case (start d sid aid st')
  then show ?case by (intro start_keeps)
next
  case (refused d sid aid st' r)
  then have "st' = ls_store d" by (intro claim_refused)
  then show ?case using refused by (simp add: lease_inv_def)
next
  case (finish sub a t d E st' wire mails r)
  then show ?case by (intro finish_keeps)
next
  case (crash d v)
  then show ?case using lease_invE [OF crash(3)] unfolding lease_inv_def by (fastforce simp: distinct_map_filter)
next
  case (api d st')
  note I = lease_invE [OF api(4)]
  obtain user where step: "sub_step te lims user (ls_store d) st'" using api(1) by (auto simp: any_sub_step_def)
  have ok: "subs_ok te lims st'" and frame: "api_frame (ls_store d) st'" using sub_step_keeps [OF step I(1)] api_frame_step [OF step I(1)] .
  show ?case using api_keeps_held [OF frame I(1) ok] I ok unfolding lease_inv_def by simp
qed

interpretation leases: inductive_invariant "\<lambda>d d'. 0 < limit \<and> limit \<le> LEASE \<and> lease_step zt te lims limit d d'" "lease_inv te lims limit" for zt te lims limit
  by unfold_locales (auto intro: lease_step_keeps)

definition lease_start :: "sub_store \<Rightarrow> int \<Rightarrow> lease_sys" where
  "lease_start st now = \<lparr>ls_store = st, ls_now = now, ls_sending = [], ls_done = []\<rparr>"

lemma reachable_weaken: "reachable_from p s0 s \<Longrightarrow> (\<And>a b. p a b \<Longrightarrow> q a b) \<Longrightarrow> reachable_from q s0 s"
  by (induction rule: reachable_from.induct) (auto intro: reachable_from.intros)

text \<open>C5: However deliveries of all pairs, API requests and crashes interleave, no two tasks are ever sending the same
  article to the same subscription at the same time, and no pair is recorded as delivered twice; this needs that a task
  is killed no later than its lease ends (90 seconds against 120 in the settings).\<close>

theorem one_sender_per_pair:
  assumes "reachable_from (lease_step zt te lims limit) (lease_start st now) d" and "subs_ok te lims st"
    and "0 < limit" and "limit \<le> LEASE"
  shows "distinct (map fst (ls_sending d)) \<and> distinct (ls_done d) \<and> fst ` set (ls_sending d) \<inter> set (ls_done d) = {}"
proof -
  have "lease_inv te lims limit (lease_start st now)" using assms(2) by (simp add: lease_inv_def lease_start_def)
  moreover have "reachable_from (\<lambda>d d'. 0 < limit \<and> limit \<le> LEASE \<and> lease_step zt te lims limit d d') (lease_start st now) d"
    using assms(1) by (rule reachable_weaken) (use assms(3,4) in simp)
  ultimately have "lease_inv te lims limit d" using leases.reachable_inv by blast
  then show ?thesis by (simp add: lease_inv_def)
qed

definition d_hook :: lease_sys where
  "d_hook = (lease_start (fst put_hook) 5)\<lparr>ls_store := fst (claim 5 1 5 (fst put_hook)), ls_sending := [((1, 5), 5)]\<rparr>"

lemma claim_put_hook: "isl (snd (claim 5 1 5 (fst put_hook))) = False \<and> projr (snd (claim 5 1 5 (fst put_hook))) = True"
  by code_simp

theorem one_sender_per_pair_witness:
  "ls_sending d_hook = [((1, 5), 5)] \<and> distinct (map fst (ls_sending d_hook)) \<and> distinct (ls_done d_hook)"
proof -
  have "claim 5 1 5 (fst put_hook) = (fst (claim 5 1 5 (fst put_hook)), Inr True)"
    using claim_put_hook by (cases "claim 5 1 5 (fst put_hook)"; cases "snd (claim 5 1 5 (fst put_hook))") auto
  then have "lease_step TYPE(unit) te_ascii lims_example (seconds 90) (lease_start (fst put_hook) 5) d_hook"
    using lease_step.start [where d = "lease_start (fst put_hook) 5"] by (simp add: lease_start_def d_hook_def)
  then have r: "reachable_from (lease_step TYPE(unit) te_ascii lims_example (seconds 90)) (lease_start (fst put_hook) 5) d_hook"
    by (rule reachable_from.step [OF reachable_from.start])
  have "subs_ok te_ascii lims_example (fst put_hook)" using sub_step_keeps [OF put_hook_step st_mail_ok] .
  then show ?thesis using one_sender_per_pair [OF r] by (simp add: d_hook_def LEASE_def)
qed

end
