(* ===== verification/Digest.thy ===== *)
theory Digest
  imports Delivery_Lease
begin

text \<open>
  The daily digest: \<^verbatim>\<open>src/tasks/digest.py\<close>.  \<open>fts\<close> is the full-text match of the database, \<open>now\<close> its
  clock.  The list of subscriptions is read at the start of a run; \<open>st\<close> is the store at each save.
\<close>

section \<open>The task\<close>




text \<open>\<^verbatim>\<open>ORDER BY published_at DESC NULLS LAST\<close>.\<close>

definition newest_first :: "article list \<Rightarrow> article list" where
  "newest_first arts =
     sort_key (\<lambda>a. - the (a_published_at a)) (filter (\<lambda>a. a_published_at a \<noteq> None) arts) @ filter (\<lambda>a. a_published_at a = None) arts"







section \<open>Windows\<close>








lemma set_newest_first [simp]: "set (newest_first arts) = set arts"
  by (auto simp: newest_first_def)

lemma length_newest_first [simp]: "length (newest_first arts) = length arts"
  using sum_length_filter_compl [of "\<lambda>a. a_published_at a \<noteq> None" arts] by (simp add: newest_first_def)




lemma mset_newest_first [simp]: "mset (newest_first arts) = mset arts"
  by (simp add: newest_first_def)





section \<open>A save from a stale instance\<close>

text \<open>C40: A partial save also writes the target key of the instance it is called on.  When the owner has moved the
  subscription to another receiver since the instance was read, the digest's save leaves the row with the key of the
  old receiver, so the count of accounts per receiver misses it.\<close>

theorem stale_save_breaks_key:
  assumes "target_key te (s_delivery old) (sub_target old) = Inr k" and "new \<in> set rows" and "s_id new = s_id old"
    and "row_ok te new" and "k \<noteq> s_target_key new"
  shows "\<exists>inst rows' r. sub_save te (old\<lparr>s_last_notified_at := Some now\<rparr>) (Some [LastNotifiedAt]) rows = Inr (inst, rows')
    \<and> r \<in> set rows' \<and> s_id r = s_id new \<and> sub_target r = sub_target new \<and> s_target_key r = k \<and> \<not> row_ok te r"
proof -
  let ?f = "\<lambda>r. r\<lparr>s_last_notified_at := Some now, s_target_key := k\<rparr>"
  let ?rows = "update_where (\<lambda>r. s_id r = s_id old) ?f rows"
  have save: "sub_save te (old\<lparr>s_last_notified_at := Some now\<rparr>) (Some [LastNotifiedAt]) rows
      = Inr (old\<lparr>s_last_notified_at := Some now, s_target_key := k\<rparr>, ?rows)"
    using assms(1) by (simp add: sub_save_def Let_def comp_def)
  have "?f new \<in> set ?rows" using assms(2,3) by (auto simp: set_update_where)
  moreover have "\<not> row_ok te (?f new)" using assms(4,5) by (auto simp: row_ok_def)
  ultimately show ?thesis using save
    by (intro exI [of _ "old\<lparr>s_last_notified_at := Some now, s_target_key := k\<rparr>"] exI [of _ ?rows] exI [of _ "?f new"]) simp
qed

definition hook_row :: "string \<Rightarrow> subscription" where
  "hook_row url = (hd (ss_rows st_hook))\<lparr>s_webhook_url := Some (lit url), s_target_key := lit url, s_interval := DAILY\<rparr>"

theorem stale_save_breaks_key_witness:
  "\<exists>inst rows' r. sub_save te_ascii ((hook_row ''https://a.org/in'')\<lparr>s_last_notified_at := Some 9\<rparr>) (Some [LastNotifiedAt]) [hook_row ''https://b.org/in'']
      = Inr (inst, rows') \<and> r \<in> set rows' \<and> s_id r = 1 \<and> sub_target r = Some (lit ''https://b.org/in'') \<and> s_target_key r = lit ''https://a.org/in'' \<and> \<not> row_ok te_ascii r"
proof -
  have "target_key te_ascii (s_delivery (hook_row ''https://a.org/in'')) (sub_target (hook_row ''https://a.org/in'')) = Inr (lit ''https://a.org/in'')"
    and "row_ok te_ascii (hook_row ''https://b.org/in'')" and "s_id (hook_row ''https://b.org/in'') = s_id (hook_row ''https://a.org/in'')"
    and "lit ''https://a.org/in'' \<noteq> s_target_key (hook_row ''https://b.org/in'')"
    and "s_id (hook_row ''https://b.org/in'') = 1 \<and> sub_target (hook_row ''https://b.org/in'') = Some (lit ''https://b.org/in'')"
    by code_simp+
  then show ?thesis
    using stale_save_breaks_key [of te_ascii "hook_row ''https://a.org/in''" "lit ''https://a.org/in''" "hook_row ''https://b.org/in''" "[hook_row ''https://b.org/in'']" 9]
    by simp
qed




end
