(* ===== verification/Tags.thy ===== *)
theory Tags
  imports Article_Store Subscriptions
begin

text \<open>
  Tags and keyword rules: \<^verbatim>\<open>src/apps/tags\<close> (engine, models, serializers, views) and
  \<^verbatim>\<open>src/tasks/tags.py\<close>.  The link table of articles and tags is the list of its pairs.
\<close>

section \<open>Models\<close>

datatype match_kind = MatchAny | MatchAll

record tag =
  tg_id :: int
  tg_name :: ustr
  tg_slug :: ustr

record tag_rule =
  tr_id :: int
  tr_owner :: int
  tr_name :: ustr
  tr_keywords :: "ustr list"
  tr_match :: match_kind
  tr_language :: "ustr option"
  tr_tag :: int
  tr_is_active :: bool

record tag_store =
  ts_tags :: "tag list"
  ts_next :: int
  ts_rules :: "tag_rule list"
  ts_rules_next :: int
  ts_links :: "(int \<times> int) list"

definition tag_id_key :: "tag \<Rightarrow> int option" where
  "tag_id_key t = Some (tg_id t)"

definition tag_name_key :: "tag \<Rightarrow> ustr option" where
  "tag_name_key t = Some (tg_name t)"

definition tag_slug_key :: "tag \<Rightarrow> ustr option" where
  "tag_slug_key t = Some (tg_slug t)"

definition rule_id_key :: "tag_rule \<Rightarrow> int option" where
  "rule_id_key r = Some (tr_id r)"

section \<open>Engine\<close>

definition haystack :: "text_env \<Rightarrow> html_env \<Rightarrow> article \<Rightarrow> ustr" where
  "haystack te he a =
     py_lower te (join (lit '' '') [a_title a, plain_text he (a_summary a) MAX_HTML_CHARS, plain_text he (a_body a) MAX_HTML_CHARS])"

definition tag_rule_matches :: "text_env \<Rightarrow> ustr \<Rightarrow> ustr \<Rightarrow> tag_rule \<Rightarrow> bool" where
  "tag_rule_matches te text language r =
     (if truthy (tr_language r) \<and> tr_language r \<noteq> Some language then False
      else let kws = map (py_lower te) (filter (\<lambda>k. k \<noteq> []) (tr_keywords r));
               hit_count = length (filter (\<lambda>kw. contains_sub kw text) kws)
           in if kws = [] then False
              else tr_match r = MatchAny \<and> hit_count > 0 \<or> tr_match r = MatchAll \<and> hit_count = length kws)"

definition link_tag :: "int \<Rightarrow> int \<Rightarrow> (int \<times> int) list \<Rightarrow> (int \<times> int) list \<times> bool" where
  "link_tag aid tid links = (if (aid, tid) \<in> set links then (links, False) else (links @ [(aid, tid)], True))"

fun assign_tags :: "text_env \<Rightarrow> ustr \<Rightarrow> article \<Rightarrow> tag_rule list \<Rightarrow> (int \<times> int) list \<Rightarrow> (int \<times> int) list \<times> int list" where
  "assign_tags te text a [] links = (links, [])"
| "assign_tags te text a (r # rules) links =
     (if tag_rule_matches te text (a_language a) r
      then (case link_tag (a_id a) (tr_tag r) links of
              (links', created) \<Rightarrow>
                (case assign_tags te text a rules links' of
                   (links'', assigned) \<Rightarrow> (links'', if created then tr_tag r # assigned else assigned)))
      else assign_tags te text a rules links)"

datatype tag_error = DoesNotExist | TagInvalid string string | TagNotFound | Forbidden

definition apply_rules_to_article :: "text_env \<Rightarrow> html_env \<Rightarrow> article list \<Rightarrow> int \<Rightarrow> tag_store \<Rightarrow> tag_store \<times> (tag_error + int list)" where
  "apply_rules_to_article te he arts aid st =
     (case find (\<lambda>a. a_id a = aid \<and> \<not> a_is_deleted a) arts of
        None \<Rightarrow> (st, Inl DoesNotExist)
      | Some a \<Rightarrow>
          (case assign_tags te (haystack te he a) a (filter tr_is_active (ts_rules st)) (ts_links st) of
             (links, assigned) \<Rightarrow> (st\<lparr>ts_links := links\<rparr>, Inr assigned)))"

definition apply_tag_rules :: "text_env \<Rightarrow> html_env \<Rightarrow> article list \<Rightarrow> int \<Rightarrow> tag_store \<Rightarrow> tag_store \<times> (tag_error + (int \<times> int list))" where
  "apply_tag_rules te he arts aid st =
     (case apply_rules_to_article te he arts aid st of (st', r) \<Rightarrow> (st', ebind r (\<lambda>assigned. Inr (aid, assigned))))"

section \<open>API\<close>

definition DUPLICATE_SLUG :: tag_error where
  "DUPLICATE_SLUG = TagInvalid ''slug'' ''tag with this slug already exists''"

definition MAX_KEYWORDS :: int where
  "MAX_KEYWORDS = 50"

definition is_slug_char :: "int \<Rightarrow> bool" where
  "is_slug_char c \<longleftrightarrow> is_alpha_ascii c \<or> is_digit_ascii c \<or> c = 45 \<or> c = 95"

text \<open>The slug and name fields, then \<^verbatim>\<open>validate_slug\<close>.\<close>

definition validate_slug :: "int option \<Rightarrow> tag list \<Rightarrow> ustr \<Rightarrow> tag_error + ustr" where
  "validate_slug inst_pk tags value =
     (if strip value = [] \<or> 64 < int (length (strip value)) \<or> \<not> list_all is_slug_char (strip value)
      then Inl (TagInvalid ''slug'' ''invalid'')
      else if list_ex (\<lambda>t. tg_slug t = strip value \<and> inst_pk \<noteq> Some (tg_id t)) tags then Inl DUPLICATE_SLUG
      else Inr (strip value))"

text \<open>An insert or update that violates a unique index is the \<^verbatim>\<open>IntegrityError\<close>.\<close>

definition create_tag :: "ustr \<Rightarrow> ustr \<Rightarrow> tag_store \<Rightarrow> tag_store \<times> (tag_error + tag)" where
  "create_tag name slug st =
     (let t = \<lparr>tg_id = ts_next st, tg_name = name, tg_slug = slug\<rparr>; st' = st\<lparr>ts_next := ts_next st + 1\<rparr>
      in if conflicts tag_name_key t (ts_tags st) \<or> conflicts tag_slug_key t (ts_tags st) then (st', Inl DUPLICATE_SLUG)
         else (st'\<lparr>ts_tags := ts_tags st @ [t]\<rparr>, Inr t))"

definition update_tag :: "ustr option \<Rightarrow> ustr option \<Rightarrow> tag \<Rightarrow> tag_store \<Rightarrow> tag_store \<times> (tag_error + tag)" where
  "update_tag name slug inst st =
     (let t = inst\<lparr>tg_name := (case name of None \<Rightarrow> tg_name inst | Some n \<Rightarrow> n), tg_slug := (case slug of None \<Rightarrow> tg_slug inst | Some s \<Rightarrow> s)\<rparr>;
          tags = update_where (\<lambda>r. tg_id r = tg_id inst) (\<lambda>_. t) (ts_tags st)
      in if uniq tag_name_key tags \<and> uniq tag_slug_key tags then (st\<lparr>ts_tags := tags\<rparr>, Inr t) else (st, Inl DUPLICATE_SLUG))"

text \<open>
  The requests of the tag endpoint: permission, the name and slug fields (each unique among the other tags), then the
  write, which may still find that another request took the name or the slug.
\<close>

definition tag_name_field :: "int option \<Rightarrow> tag list \<Rightarrow> ustr \<Rightarrow> tag_error + ustr" where
  "tag_name_field inst_pk tags v =
     (if strip v = [] \<or> 64 < int (length (strip v)) \<or> 0 \<in> set v then Inl (TagInvalid ''name'' ''invalid'')
      else if list_ex (\<lambda>t. tg_name t = strip v \<and> inst_pk \<noteq> Some (tg_id t)) tags then Inl (TagInvalid ''name'' ''unique'')
      else Inr (strip v))"

definition post_tag :: "bool \<Rightarrow> ustr \<Rightarrow> ustr \<Rightarrow> tag_store \<Rightarrow> tag_store \<times> (tag_error + tag)" where
  "post_tag is_staff name slug st =
     (if \<not> is_staff then (st, Inl Forbidden)
      else case ebind (tag_name_field None (ts_tags st) name) (\<lambda>n. ebind (validate_slug None (ts_tags st) slug) (\<lambda>s. Inr (n, s))) of
             Inl e \<Rightarrow> (st, Inl e)
           | Inr (n, s) \<Rightarrow> create_tag n s st)"

definition optional :: "('a \<Rightarrow> 'e + 'b) \<Rightarrow> 'a option \<Rightarrow> 'e + 'b option" where
  "optional f v = (case v of None \<Rightarrow> Inr None | Some x \<Rightarrow> ebind (f x) (\<lambda>y. Inr (Some y)))"

definition patch_tag :: "bool \<Rightarrow> int \<Rightarrow> ustr option \<Rightarrow> ustr option \<Rightarrow> tag_store \<Rightarrow> tag_store \<times> (tag_error + tag)" where
  "patch_tag is_staff tid name slug st =
     (if \<not> is_staff then (st, Inl Forbidden)
      else case find (\<lambda>t. tg_id t = tid) (ts_tags st) of
             None \<Rightarrow> (st, Inl TagNotFound)
           | Some inst \<Rightarrow>
               (case ebind (optional (tag_name_field (Some tid) (ts_tags st)) name) (\<lambda>n.
                     ebind (optional (validate_slug (Some tid) (ts_tags st)) slug) (\<lambda>s. Inr (n, s))) of
                  Inl e \<Rightarrow> (st, Inl e)
                | Inr (n, s) \<Rightarrow> update_tag n s inst st))"

definition destroy_tag :: "int \<Rightarrow> tag_store \<Rightarrow> tag_store" where
  "destroy_tag tid st =
     st\<lparr>ts_tags := filter (\<lambda>t. tg_id t \<noteq> tid) (ts_tags st), ts_rules := filter (\<lambda>r. tr_tag r \<noteq> tid) (ts_rules st),
        ts_links := filter (\<lambda>l. snd l \<noteq> tid) (ts_links st)\<rparr>"

text \<open>\<^verbatim>\<open>order_by("slug")\<close> in the collation of the database.\<close>

definition list_tags :: "(ustr \<Rightarrow> 'k :: linorder) \<Rightarrow> tag_store \<Rightarrow> tag list" where
  "list_tags collate st = sort_key (\<lambda>t. collate (tg_slug t)) (ts_tags st)"

definition keywords_field :: "ustr list \<Rightarrow> tag_error + ustr list" where
  "keywords_field kws =
     (if kws = [] \<or> MAX_KEYWORDS < int (length kws) then Inl (TagInvalid ''keywords'' ''length'')
      else if list_all (\<lambda>k. strip k \<noteq> [] \<and> int (length (strip k)) \<le> 64 \<and> 0 \<notin> set k) kws then Inr (map strip kws)
      else Inl (TagInvalid ''keywords'' ''item''))"

record rule_data =
  rd_name :: "ustr option"
  rd_keywords :: "ustr list option"
  rd_match :: "match_kind option"
  rd_language :: "ustr option option"
  rd_tag :: "int option"
  rd_is_active :: "bool option"

definition name_field :: "int \<Rightarrow> ustr \<Rightarrow> tag_error + ustr" where
  "name_field max_length v =
     (if strip v = [] \<or> max_length < int (length (strip v)) \<or> 0 \<in> set v then Inl (TagInvalid ''name'' ''invalid'') else Inr (strip v))"

definition language_choices :: "ustr list" where
  "language_choices = [lit ''russian'', lit ''english'', lit ''simple'']"

text \<open>The fields of a rule; the first field that is refused is reported.\<close>

definition rule_fields :: "bool \<Rightarrow> tag list \<Rightarrow> rule_data \<Rightarrow> tag_error + rule_data" where
  "rule_fields partial tags d =
     (if \<not> partial \<and> (rd_name d = None \<or> rd_keywords d = None \<or> rd_tag d = None) then Inl (TagInvalid ''rule'' ''required'')
      else ebind (case rd_name d of None \<Rightarrow> Inr None | Some n \<Rightarrow> ebind (name_field 120 n) (\<lambda>n'. Inr (Some n'))) (\<lambda>name.
           ebind (case rd_keywords d of None \<Rightarrow> Inr None | Some kws \<Rightarrow> ebind (keywords_field kws) (\<lambda>ks. Inr (Some ks))) (\<lambda>kws.
             if (case rd_language d of Some (Some l) \<Rightarrow> l \<notin> set language_choices | _ \<Rightarrow> False)
             then Inl (TagInvalid ''language'' ''invalid_choice'')
             else if (case rd_tag d of None \<Rightarrow> False | Some t \<Rightarrow> t \<notin> tg_id ` set tags) then Inl (TagInvalid ''tag'' ''does_not_exist'')
             else Inr (d\<lparr>rd_name := name, rd_keywords := kws\<rparr>))))"

definition set_rule :: "rule_data \<Rightarrow> tag_rule \<Rightarrow> tag_rule" where
  "set_rule d r =
     r\<lparr>tr_name := (case rd_name d of None \<Rightarrow> tr_name r | Some v \<Rightarrow> v),
       tr_keywords := (case rd_keywords d of None \<Rightarrow> tr_keywords r | Some v \<Rightarrow> v),
       tr_match := (case rd_match d of None \<Rightarrow> tr_match r | Some v \<Rightarrow> v),
       tr_language := (case rd_language d of None \<Rightarrow> tr_language r | Some v \<Rightarrow> v),
       tr_tag := (case rd_tag d of None \<Rightarrow> tr_tag r | Some v \<Rightarrow> v),
       tr_is_active := (case rd_is_active d of None \<Rightarrow> tr_is_active r | Some v \<Rightarrow> v)\<rparr>"

definition create_rule :: "int \<Rightarrow> rule_data \<Rightarrow> tag_store \<Rightarrow> tag_store \<times> (tag_error + tag_rule)" where
  "create_rule user d0 st =
     (case rule_fields False (ts_tags st) d0 of
        Inl e \<Rightarrow> (st, Inl e)
      | Inr d \<Rightarrow>
          (let r = set_rule d \<lparr>tr_id = ts_rules_next st, tr_owner = user, tr_name = [], tr_keywords = [], tr_match = MatchAny,
                             tr_language = None, tr_tag = 0, tr_is_active = True\<rparr>
           in (st\<lparr>ts_rules := ts_rules st @ [r], ts_rules_next := ts_rules_next st + 1\<rparr>, Inr r)))"

definition update_rule :: "bool \<Rightarrow> rule_data \<Rightarrow> tag_rule \<Rightarrow> tag_store \<Rightarrow> tag_store \<times> (tag_error + tag_rule)" where
  "update_rule partial d0 inst st =
     (case rule_fields partial (ts_tags st) d0 of
        Inl e \<Rightarrow> (st, Inl e)
      | Inr d \<Rightarrow> (st\<lparr>ts_rules := update_where (\<lambda>r. tr_id r = tr_id inst) (\<lambda>_. set_rule d inst) (ts_rules st)\<rparr>, Inr (set_rule d inst)))"

definition destroy_rule :: "int \<Rightarrow> tag_store \<Rightarrow> tag_store" where
  "destroy_rule rid st = st\<lparr>ts_rules := filter (\<lambda>r. tr_id r \<noteq> rid) (ts_rules st)\<rparr>"

text \<open>\<^verbatim>\<open>IsAdminUser\<close>, then the article and the tag of the request.\<close>

definition live_by_id :: "article list \<Rightarrow> int \<Rightarrow> bool" where
  "live_by_id arts aid \<longleftrightarrow> list_ex (\<lambda>a. a_id a = aid \<and> \<not> a_is_deleted a) arts"

definition post_article_tag :: "bool \<Rightarrow> article list \<Rightarrow> int \<Rightarrow> int \<Rightarrow> tag_store \<Rightarrow> tag_store \<times> (tag_error + int)" where
  "post_article_tag is_staff arts aid tid st =
     (if \<not> is_staff then (st, Inl Forbidden)
      else if \<not> live_by_id arts aid then (st, Inl TagNotFound)
      else if tid < 1 then (st, Inl (TagInvalid ''tag_id'' ''min_value''))
      else if tid \<notin> tg_id ` set (ts_tags st) then (st, Inl TagNotFound)
      else (case link_tag aid tid (ts_links st) of (links, created) \<Rightarrow> (st\<lparr>ts_links := links\<rparr>, Inr (if created then 201 else 200))))"

definition delete_article_tag :: "bool \<Rightarrow> article list \<Rightarrow> int \<Rightarrow> int \<Rightarrow> tag_store \<Rightarrow> tag_store \<times> (tag_error + int)" where
  "delete_article_tag is_staff arts aid tid st =
     (if \<not> is_staff then (st, Inl Forbidden)
      else if \<not> live_by_id arts aid then (st, Inl TagNotFound)
      else if tid < 1 then (st, Inl (TagInvalid ''tag_id'' ''min_value''))
      else (st\<lparr>ts_links := filter (\<lambda>l. l \<noteq> (aid, tid)) (ts_links st)\<rparr>, Inr 204))"

section \<open>What the engine assigns\<close>

text \<open>The meaning of a rule, without counting.\<close>

definition rule_applies :: "text_env \<Rightarrow> ustr \<Rightarrow> ustr \<Rightarrow> tag_rule \<Rightarrow> bool" where
  "rule_applies te text language r \<longleftrightarrow>
     (truthy (tr_language r) \<longrightarrow> tr_language r = Some language)
     \<and> (\<exists>k \<in> set (tr_keywords r). k \<noteq> [])
     \<and> (case tr_match r of
          MatchAny \<Rightarrow> \<exists>k \<in> set (tr_keywords r). k \<noteq> [] \<and> sublist (py_lower te k) text
        | MatchAll \<Rightarrow> \<forall>k \<in> set (tr_keywords r). k \<noteq> [] \<longrightarrow> sublist (py_lower te k) text)"

lemma length_filter_all: "length (filter p xs) = length xs \<longleftrightarrow> (\<forall>x \<in> set xs. p x)"
proof (induction xs)
  case (Cons x xs)
  have "length (filter p xs) \<noteq> Suc (length xs)" using length_filter_le [of p xs] by linarith
  then show ?case using Cons by auto
qed simp

lemma tag_rule_matches_iff: "tag_rule_matches te text language r \<longleftrightarrow> rule_applies te text language r"
proof -
  let ?kws = "map (py_lower te) (filter (\<lambda>k. k \<noteq> []) (tr_keywords r))"
  have "length (filter (\<lambda>kw. contains_sub kw text) ?kws) = length ?kws \<longleftrightarrow> (\<forall>kw \<in> set ?kws. sublist kw text)"
    unfolding length_filter_all by (simp add: contains_sub_iff)
  moreover have "0 < length (filter (\<lambda>kw. contains_sub kw text) ?kws) \<longleftrightarrow> (\<exists>kw \<in> set ?kws. sublist kw text)"
    by (auto simp: contains_sub_iff filter_empty_conv)
  moreover have "?kws = [] \<longleftrightarrow> \<not> (\<exists>k \<in> set (tr_keywords r). k \<noteq> [])" by (auto simp: filter_empty_conv)
  ultimately show ?thesis
    unfolding tag_rule_matches_def rule_applies_def Let_def by (cases "tr_match r") auto
qed

lemma assign_tags_spec:
  assumes "assign_tags te text a rules links = (links', assigned)"
  shows "set links' = set links \<union> {(a_id a, tr_tag r) |r. r \<in> set rules \<and> rule_applies te text (a_language a) r}
    \<and> (distinct links \<longrightarrow> distinct links') \<and> distinct assigned \<and> set assigned = {t. (a_id a, t) \<in> set links' - set links}"
  using assms
proof (induction rules arbitrary: links links' assigned)
  case (Cons r rules)
  show ?case
  proof (cases "tag_rule_matches te text (a_language a) r \<and> (a_id a, tr_tag r) \<notin> set links")
    case True
    obtain more where rec: "assign_tags te text a rules (links @ [(a_id a, tr_tag r)]) = (links', more)" and as: "assigned = tr_tag r # more"
      using True Cons.prems by (auto simp: link_tag_def split: prod.splits)
    show ?thesis using Cons.IH [OF rec] True as by (auto simp: tag_rule_matches_iff)
  next
    case False
    then have "assign_tags te text a rules links = (links', assigned)"
      using Cons.prems by (auto simp: link_tag_def split: if_splits prod.splits)
    from Cons.IH [OF this] False show ?thesis by (auto simp: tag_rule_matches_iff)
  qed
qed auto

lemma apply_rules_spec:
  assumes "a \<in> set arts" and "\<not> a_is_deleted a" and "\<And>b. b \<in> set arts \<Longrightarrow> a_id b = a_id a \<Longrightarrow> b = a"
    and "apply_rules_to_article te he arts (a_id a) st = (st', res)"
  shows "\<exists>assigned. res = Inr assigned \<and> distinct assigned
    \<and> set (ts_links st') = set (ts_links st) \<union> {(a_id a, tr_tag r) |r. r \<in> set (ts_rules st) \<and> tr_is_active r \<and> rule_applies te (haystack te he a) (a_language a) r}
    \<and> set assigned = {t. (a_id a, t) \<in> set (ts_links st') - set (ts_links st)}
    \<and> apply_rules_to_article te he arts (a_id a) st' = (st', Inr [])"
proof -
  let ?rules = "filter tr_is_active (ts_rules st)" and ?run = "assign_tags te (haystack te he a) a"
  have f: "find (\<lambda>b. a_id b = a_id a \<and> \<not> a_is_deleted b) arts = Some a"
  proof (cases "find (\<lambda>b. a_id b = a_id a \<and> \<not> a_is_deleted b) arts")
    case None
    then show ?thesis using assms(1,2) by (auto simp: find_None_iff)
  next
    case (Some b)
    then show ?thesis using find_SomeD [OF Some] assms(3) [of b] by simp
  qed
  obtain links assigned where run: "?run ?rules (ts_links st) = (links, assigned)" by fastforce
  then have st': "st' = st\<lparr>ts_links := links\<rparr>" "res = Inr assigned" using assms(4) f by (simp_all add: apply_rules_to_article_def)
  note spec = assign_tags_spec [OF run]
  have again: "?run rules links = (links, [])" if "\<And>r. r \<in> set rules \<Longrightarrow> tag_rule_matches te (haystack te he a) (a_language a) r \<Longrightarrow> (a_id a, tr_tag r) \<in> set links" for rules
    using that by (induction rules) (auto simp: link_tag_def)
  have "?run ?rules links = (links, [])" using spec by (intro again) (auto simp: tag_rule_matches_iff)
  then show ?thesis using spec f st' by (auto simp: apply_rules_to_article_def)
qed

text \<open>C27: After the rules ran for an article, its tags are the old ones and those of the active rules that apply to it:
  the language fits and any, or every, non-empty keyword occurs in the lowercased visible text.  The task returns exactly
  the tags it added, and running it again adds nothing.\<close>

theorem rules_assign_tags:
  assumes "a \<in> set arts" and "\<not> a_is_deleted a" and "\<And>b. b \<in> set arts \<Longrightarrow> a_id b = a_id a \<Longrightarrow> b = a"
    and "apply_rules_to_article te he arts (a_id a) st = (st', res)"
  shows "\<exists>assigned. res = Inr assigned \<and> distinct assigned
    \<and> set (ts_links st') = set (ts_links st) \<union> {(a_id a, tr_tag r) |r. r \<in> set (ts_rules st) \<and> tr_is_active r \<and> rule_applies te (haystack te he a) (a_language a) r}
    \<and> set assigned = {t. (a_id a, t) \<in> set (ts_links st') - set (ts_links st)}
    \<and> apply_rules_to_article te he arts (a_id a) st' = (st', Inr [])"
  using apply_rules_spec [OF assms] .

definition rule_plain :: tag_rule where
  "rule_plain = \<lparr>tr_id = 1, tr_owner = 1, tr_name = lit ''r'', tr_keywords = [lit ''Rust''], tr_match = MatchAny, tr_language = None, tr_tag = 4,
     tr_is_active = True\<rparr>"

definition tags_example :: tag_store where
  "tags_example = \<lparr>ts_tags = [\<lparr>tg_id = 4, tg_name = lit ''Rust'', tg_slug = lit ''rust''\<rparr>], ts_next = 5, ts_rules = [rule_plain], ts_rules_next = 2, ts_links = []\<rparr>"

definition article_rust :: article where
  "article_rust = \<lparr>a_id = 5, a_feed = 2, a_guid = [], a_canonical_url = [], a_url = [], a_title = lit ''On RUST'', a_summary = [], a_body = [],
     a_author = None, a_language = lit ''simple'', a_content_hash = [], a_published_at = None, a_fetched_at = 0, a_last_seen_at = 0,
     a_is_deleted = False, a_created_at = 0, a_processed_at = None\<rparr>"

theorem rules_assign_tags_witness:
  "\<exists>st'. apply_rules_to_article te_ascii he_example [article_rust] 5 tags_example = (st', Inr [4])
     \<and> apply_rules_to_article te_ascii he_example [article_rust] 5 st' = (st', Inr [])"
proof -
  let ?r = "apply_rules_to_article te_ascii he_example [article_rust] 5 tags_example"
  have "snd ?r = Inr [4]" by code_simp
  moreover have r: "apply_rules_to_article te_ascii he_example [article_rust] (a_id article_rust) tags_example = (fst ?r, snd ?r)"
    by (simp add: article_rust_def)
  ultimately show ?thesis
    using rules_assign_tags [OF _ _ _ r] by (intro exI [of _ "fst ?r"]) (auto simp: article_rust_def prod_eq_iff)
qed

section \<open>The tables stay consistent\<close>

definition tags_ok :: "tag_store \<Rightarrow> bool" where
  "tags_ok st \<longleftrightarrow>
     uniq tag_id_key (ts_tags st) \<and> uniq tag_name_key (ts_tags st) \<and> uniq tag_slug_key (ts_tags st)
     \<and> (\<forall>t \<in> set (ts_tags st). tg_id t < ts_next st)
     \<and> uniq rule_id_key (ts_rules st) \<and> (\<forall>r \<in> set (ts_rules st). tr_id r < ts_rules_next st \<and> tr_tag r \<in> tg_id ` set (ts_tags st))
     \<and> distinct (ts_links st) \<and> (\<forall>l \<in> set (ts_links st). snd l \<in> tg_id ` set (ts_tags st))"

inductive tag_step :: "tag_store \<Rightarrow> tag_store \<Rightarrow> bool" where
  "tag_step st (fst (create_tag name slug st))"
| "inst \<in> set (ts_tags st) \<Longrightarrow> tag_step st (fst (update_tag name slug inst st))"
| "tag_step st (destroy_tag tid st)"
| "tag_step st (fst (create_rule user d st))"
| "inst \<in> set (ts_rules st) \<Longrightarrow> tag_step st (fst (update_rule partial d inst st))"
| "tag_step st (destroy_rule rid st)"
| "tag_step st (fst (post_article_tag is_staff arts aid tid st))"
| "tag_step st (fst (delete_article_tag is_staff arts aid tid st))"
| "tag_step st (fst (apply_rules_to_article te he arts aid st))"

text \<open>
  Requests that validated against an older table are steps too, since the steps take any name and slug.
\<close>

lemma tag_requests_step:
  "fst (post_tag is_staff name slug st) = st \<or> tag_step st (fst (post_tag is_staff name slug st))"
  "fst (patch_tag is_staff tid name' slug' st) = st \<or> tag_step st (fst (patch_tag is_staff tid name' slug' st))"
  by (auto simp: post_tag_def patch_tag_def intro: tag_step.intros(1,2) dest!: find_SomeD split: sum.split option.split)

lemma create_tag_keeps: "tags_ok st \<Longrightarrow> tags_ok (fst (create_tag name slug st))"
  by (fastforce simp: create_tag_def tags_ok_def Let_def uniq_snoc conflicts_def tag_id_key_def has_key_iff)

lemma update_tag_keeps:
  assumes "tags_ok st"
  shows "tags_ok (fst (update_tag name slug inst st))"
proof -
  have "map tg_id (update_where (\<lambda>r. tg_id r = tg_id inst) (\<lambda>_. inst\<lparr>tg_name := n, tg_slug := s\<rparr>) (ts_tags st)) = map tg_id (ts_tags st)" for n s
    by (rule map_update_where) simp
  then have ids: "tg_id ` set (update_where (\<lambda>r. tg_id r = tg_id inst) (\<lambda>_. inst\<lparr>tg_name := n, tg_slug := s\<rparr>) (ts_tags st)) = tg_id ` set (ts_tags st)" for n s
    by (metis list.set_map)
  have keys: "keys_of tag_id_key (update_where (\<lambda>r. tg_id r = tg_id inst) (\<lambda>_. inst\<lparr>tg_name := n, tg_slug := s\<rparr>) (ts_tags st)) = keys_of tag_id_key (ts_tags st)" for n s
    by (rule keys_of_update_where) (simp add: tag_id_key_def)
  have below: "(\<forall>t \<in> set (update_where (\<lambda>r. tg_id r = tg_id inst) (\<lambda>_. inst\<lparr>tg_name := n, tg_slug := s\<rparr>) (ts_tags st)). tg_id t < m)
      \<longleftrightarrow> (\<forall>t \<in> set (ts_tags st). tg_id t < m)" for n s m
    using arg_cong [OF ids, of "\<lambda>A. \<forall>i \<in> A. i < m"] by simp
  show ?thesis using assms unfolding update_tag_def tags_ok_def Let_def by (simp add: ids keys uniq_def below)
qed

lemma destroy_tag_keeps: "tags_ok st \<Longrightarrow> tags_ok (destroy_tag tid st)"
  by (auto simp: destroy_tag_def tags_ok_def uniq_filter)

lemma rule_fields_tag: "rule_fields partial tags d0 = Inr d \<Longrightarrow> (\<forall>t. rd_tag d = Some t \<longrightarrow> t \<in> tg_id ` set tags) \<and> (partial \<or> rd_tag d \<noteq> None)"
  by (auto simp: rule_fields_def ebind_Inr_iff split: if_splits option.splits)

lemma set_rule_simps [simp]: "tr_id (set_rule d r) = tr_id r" "tr_tag (set_rule d r) = (case rd_tag d of None \<Rightarrow> tr_tag r | Some t \<Rightarrow> t)"
  by (simp_all add: set_rule_def)

lemma create_rule_keeps: "tags_ok st \<Longrightarrow> tags_ok (fst (create_rule user d0 st))"
proof (cases "rule_fields False (ts_tags st) d0")
  case (Inr d)
  obtain t where t: "rd_tag d = Some t" "t \<in> tg_id ` set (ts_tags st)" using rule_fields_tag [OF Inr] by auto
  assume "tags_ok st"
  then show ?thesis using Inr t
    by (fastforce simp: create_rule_def tags_ok_def Let_def uniq_snoc conflicts_def rule_id_key_def has_key_iff)
qed (simp add: create_rule_def)

lemma update_rule_keeps:
  assumes "tags_ok st" and "inst \<in> set (ts_rules st)"
  shows "tags_ok (fst (update_rule partial d0 inst st))"
proof (cases "rule_fields partial (ts_tags st) d0")
  case (Inr d)
  have "keys_of rule_id_key (update_where (\<lambda>r. tr_id r = tr_id inst) (\<lambda>_. set_rule d inst) (ts_rules st)) = keys_of rule_id_key (ts_rules st)"
    by (rule keys_of_update_where) (simp add: rule_id_key_def)
  moreover have "tr_tag (set_rule d inst) \<in> tg_id ` set (ts_tags st)"
    using rule_fields_tag [OF Inr] assms by (auto simp: tags_ok_def split: option.splits)
  ultimately show ?thesis using Inr assms by (auto simp: update_rule_def tags_ok_def set_update_where uniq_def)
qed (use assms in \<open>simp add: update_rule_def\<close>)

lemma apply_rules_keeps:
  assumes "tags_ok st"
  shows "tags_ok (fst (apply_rules_to_article te he arts aid st))"
proof (cases "find (\<lambda>a. a_id a = aid \<and> \<not> a_is_deleted a) arts")
  case (Some a)
  obtain links assigned where run: "assign_tags te (haystack te he a) a (filter tr_is_active (ts_rules st)) (ts_links st) = (links, assigned)" by fastforce
  show ?thesis using assign_tags_spec [OF run] assms Some run by (fastforce simp: apply_rules_to_article_def tags_ok_def)
qed (use assms in \<open>simp add: apply_rules_to_article_def\<close>)

lemma tag_step_keeps: "tag_step st st' \<Longrightarrow> tags_ok st \<Longrightarrow> tags_ok st'"
proof (induction rule: tag_step.induct)
  case (7 st is_staff arts aid tid)
  then show ?case by (auto simp: post_article_tag_def link_tag_def tags_ok_def)
next
  case (8 st is_staff arts aid tid)
  then show ?case by (auto simp: delete_article_tag_def tags_ok_def)
next
  case (6 st rid)
  then show ?case by (auto simp: destroy_rule_def tags_ok_def uniq_filter)
qed (auto intro: create_tag_keeps update_tag_keeps destroy_tag_keeps create_rule_keeps update_rule_keeps apply_rules_keeps)

interpretation tag_inv: inductive_invariant tag_step tags_ok
  by unfold_locales (rule tag_step_keeps)

definition no_tags :: tag_store where
  "no_tags = \<lparr>ts_tags = [], ts_next = 1, ts_rules = [], ts_rules_next = 1, ts_links = []\<rparr>"

text \<open>C12: Whatever the staff's requests and the engine do: names and slugs of tags stay unique, an article has a tag at
  most once, and every rule and every link points to a tag that exists.\<close>

theorem tag_tables_consistent:
  assumes "reachable_from tag_step no_tags st"
  shows "distinct (map tg_name (ts_tags st)) \<and> distinct (map tg_slug (ts_tags st)) \<and> distinct (ts_links st)
    \<and> tr_tag ` set (ts_rules st) \<subseteq> tg_id ` set (ts_tags st) \<and> snd ` set (ts_links st) \<subseteq> tg_id ` set (ts_tags st)"
proof -
  have "tags_ok no_tags" by (simp add: tags_ok_def no_tags_def)
  then have "tags_ok st" using tag_inv.reachable_inv [OF assms] by blast
  moreover have "keys_of tag_name_key ts = map tg_name ts" "keys_of tag_slug_key ts = map tg_slug ts" for ts
    by (induction ts) (simp_all add: tag_name_key_def tag_slug_key_def)
  ultimately show ?thesis by (auto simp: tags_ok_def uniq_def)
qed

theorem tag_tables_consistent_witness:
  "distinct (map tg_slug (ts_tags (fst (create_tag (lit ''Rust'') (lit ''rust'') no_tags)))) \<and> ts_tags (fst (create_tag (lit ''Rust'') (lit ''rust'') no_tags)) \<noteq> []"
proof -
  have "reachable_from tag_step no_tags (fst (create_tag (lit ''Rust'') (lit ''rust'') no_tags))"
    by (rule reachable_from.step [OF reachable_from.start]) (rule tag_step.intros)
  moreover have "ts_tags (fst (create_tag (lit ''Rust'') (lit ''rust'') no_tags)) \<noteq> []" by code_simp
  ultimately show ?thesis using tag_tables_consistent by blast
qed

end
