(* ===== verification/Search.thy ===== *)
theory Search
  imports Normalizer Complex_Main
begin

text \<open>
  Full-text search: \<^verbatim>\<open>src/apps/search\<close> (serializers, views, queries).  The three SQL statements run in
  the database, which is the parameter \<open>db\<close>; \<^verbatim>\<open>html.unescape\<close> is that of \<open>html_env\<close>.
\<close>

section \<open>Queries\<close>

definition SEARCH_LANGS :: "ustr list" where
  "SEARCH_LANGS = [lit ''russian'', lit ''english'', lit ''simple'']"

definition LANG_ALIASES :: "(ustr \<times> ustr) list" where
  "LANG_ALIASES = [(lit ''ru'', lit ''russian''), (lit ''en'', lit ''english'')]"

definition TRGM_MAX_QUERY_CHARS :: int where
  "TRGM_MAX_QUERY_CHARS = 24"

definition MARK_START :: int where "MARK_START = 57344"

definition MARK_STOP :: int where "MARK_STOP = 57345"

definition coerce_lang :: "text_env \<Rightarrow> ustr option \<Rightarrow> ustr option" where
  "coerce_lang te l =
     (case l of
        None \<Rightarrow> None
      | Some l0 \<Rightarrow>
          if l0 = [] then None
          else let l1 = py_lower te l0 in
               if l1 \<in> set SEARCH_LANGS then Some l1
               else Some (case map_of LANG_ALIASES l1 of Some x \<Rightarrow> x | None \<Rightarrow> lit ''simple''))"

text \<open>\<^verbatim>\<open>html.escape\<close> and the capturing split at the two marks.\<close>

definition escape_char :: "int \<Rightarrow> ustr" where
  "escape_char c =
     (if c = 38 then lit ''&amp;'' else if c = 60 then lit ''&lt;'' else if c = 62 then lit ''&gt;''
      else if c = 34 then lit ''&quot;'' else if c = 39 then lit ''&#x27;'' else [c])"

definition html_escape :: "ustr \<Rightarrow> ustr" where
  "html_escape s = concat (map escape_char s)"

definition is_mark :: "int \<Rightarrow> bool" where
  "is_mark c \<longleftrightarrow> c = MARK_START \<or> c = MARK_STOP"

fun split_marks :: "ustr \<Rightarrow> ustr \<Rightarrow> ustr list" where
  "split_marks acc [] = [rev acc]"
| "split_marks acc (c # s) = (if is_mark c then rev acc # [c] # split_marks [] s else split_marks (c # acc) s)"

definition render_part :: "html_env \<Rightarrow> ustr \<Rightarrow> ustr" where
  "render_part he part =
     (if part = [MARK_START] then lit ''<b>'' else if part = [MARK_STOP] then lit ''</b>'' else html_escape (html_unescape he part))"

definition render_highlight :: "html_env \<Rightarrow> ustr \<Rightarrow> ustr" where
  "render_highlight he raw = concat (map (render_part he) (split_marks [] raw))"

datatype search_sql = SEARCH_RANK_SQL | SEARCH_DATE_SQL | TRGM_FALLBACK_SQL

record search_query =
  sq_cfg :: "ustr option"
  sq_query :: ustr
  sq_feeds :: "int list"
  sq_from :: "int option"
  sq_to :: "int option"
  sq_limit :: int
  sq_offset :: int
  sq_by_date :: bool

record search_hit =
  sh_id :: int
  sh_title :: ustr
  sh_summary :: ustr
  sh_url :: ustr
  sh_feed_id :: int
  sh_published_at :: "int option"
  sh_language :: ustr
  sh_rank :: rat
  sh_highlight :: ustr

datatype search_sort = SortRank | SortDate

definition run_search :: "text_env \<Rightarrow> html_env \<Rightarrow> (search_sql \<Rightarrow> search_query \<Rightarrow> search_hit list) \<Rightarrow> ustr \<Rightarrow> ustr option \<Rightarrow> search_sort
    \<Rightarrow> int list \<Rightarrow> int option \<Rightarrow> int option \<Rightarrow> int \<Rightarrow> int \<Rightarrow> search_hit list" where
  "run_search te he db query l srt feeds date_from date_to limit offset =
     (let params = \<lparr>sq_cfg = coerce_lang te l, sq_query = query, sq_feeds = feeds, sq_from = date_from, sq_to = date_to,
                    sq_limit = limit, sq_offset = offset, sq_by_date = (srt = SortDate)\<rparr>;
          sql = (if srt = SortDate then SEARCH_DATE_SQL else SEARCH_RANK_SQL);
          rows = map (\<lambda>r. r\<lparr>sh_highlight := render_highlight he (sh_highlight r)\<rparr>) (db sql params)
      in if rows \<noteq> [] \<or> TRGM_MAX_QUERY_CHARS < int (length query) then rows
         else if offset \<noteq> 0 \<and> db sql (params\<lparr>sq_limit := 1, sq_offset := 0\<rparr>) \<noteq> [] then rows
         else db TRGM_FALLBACK_SQL params)"

section \<open>Parameters\<close>

definition MAX_QUERY_CHARS :: int where
  "MAX_QUERY_CHARS = 256"

definition SEARCH_MAX_OFFSET :: int where
  "SEARCH_MAX_OFFSET = 10000"

definition MAX_FEEDS :: int where
  "MAX_FEEDS = 50"

definition LANG_CHOICES :: "ustr list" where
  "LANG_CHOICES = [lit ''russian'', lit ''english'', lit ''simple'', lit ''ru'', lit ''en'']"

datatype search_error =
  NotAFeedId ustr | TooManyFeeds | BadQuery | BadLang | BadSort | BadLimit | BadOffset | EmptyRange

text \<open>\<^verbatim>\<open>_ID_RE\<close>: a digit that is not zero and at most seventeen more.\<close>

definition is_id :: "ustr \<Rightarrow> bool" where
  "is_id part \<longleftrightarrow> part \<noteq> [] \<and> 49 \<le> hd part \<and> list_all is_digit_ascii part \<and> int (length part) \<le> 18"

fun parse_ids :: "ustr list \<Rightarrow> search_error + int list" where
  "parse_ids [] = Inr []"
| "parse_ids (part # parts) =
     (if \<not> is_id (strip part) then Inl (NotAFeedId (slice_to 20 (strip part)))
      else ebind (parse_ids parts) (\<lambda>ids. Inr (digits_value 10 (strip part) # ids)))"

definition feed_ids_field :: "ustr list \<Rightarrow> search_error + int list" where
  "feed_ids_field items =
     ebind (parse_ids (concat (map (split_on 44) items))) (\<lambda>ids.
       if MAX_FEEDS < int (length ids) then Inl TooManyFeeds else Inr (sort (remdups ids)))"

text \<open>
  A request: absent parameters are \<open>None\<close>, and integers and dates are already parsed by the framework.
  The fields are validated each on its own and their errors collected; \<open>validate\<close> runs when there are none.
\<close>

record search_params =
  sp_q :: "ustr option"
  sp_lang :: "ustr option"
  sp_sort :: "ustr option"
  sp_feed :: "ustr list"
  sp_limit :: "int option"
  sp_offset :: "int option"
  sp_from :: "int option"
  sp_to :: "int option"

record search_args =
  sa_q :: ustr
  sa_lang :: "ustr option"
  sa_sort :: search_sort
  sa_feed :: "int list"
  sa_limit :: int
  sa_offset :: int
  sa_from :: "int option"
  sa_to :: "int option"

definition collect :: "search_error + 'a \<Rightarrow> search_error list + 'b \<Rightarrow> search_error list + ('a \<times> 'b)" where
  "collect m rest =
     (case m of
        Inl e \<Rightarrow> (case rest of Inl es \<Rightarrow> Inl (e # es) | Inr _ \<Rightarrow> Inl [e])
      | Inr x \<Rightarrow> (case rest of Inl es \<Rightarrow> Inl es | Inr y \<Rightarrow> Inr (x, y)))"

definition query_field :: "ustr option \<Rightarrow> search_error + ustr" where
  "query_field v =
     (case v of None \<Rightarrow> Inr []
      | Some s \<Rightarrow> if MAX_QUERY_CHARS < int (length (strip s)) \<or> 0 \<in> set s then Inl BadQuery else Inr (strip s))"

definition lowercase_choice :: "text_env \<Rightarrow> ustr option \<Rightarrow> search_error + ustr option" where
  "lowercase_choice te v =
     (case v of None \<Rightarrow> Inr None
      | Some l \<Rightarrow> if l = [] then Inr None
                  else if py_lower te l \<in> set LANG_CHOICES then Inr (Some (py_lower te l)) else Inl BadLang)"

definition sort_field :: "ustr option \<Rightarrow> search_error + search_sort" where
  "sort_field v =
     (case v of None \<Rightarrow> Inr SortRank
      | Some s \<Rightarrow> if s = [] \<or> s = lit ''rank'' then Inr SortRank else if s = lit ''date'' then Inr SortDate else Inl BadSort)"

definition int_field :: "int \<Rightarrow> int \<Rightarrow> int \<Rightarrow> search_error \<Rightarrow> int option \<Rightarrow> search_error + int" where
  "int_field lo hi dflt e v =
     (case v of None \<Rightarrow> Inr dflt | Some n \<Rightarrow> if n < lo \<or> hi < n then Inl e else Inr n)"

definition validate_range :: "search_args \<Rightarrow> search_error list + search_args" where
  "validate_range a =
     (case (sa_from a, sa_to a) of (Some start, Some stop) \<Rightarrow> if start \<ge> stop then Inl [EmptyRange] else Inr a | _ \<Rightarrow> Inr a)"

definition validate_params :: "text_env \<Rightarrow> search_params \<Rightarrow> search_error list + search_args" where
  "validate_params te p =
     ebind (collect (query_field (sp_q p)) (collect (lowercase_choice te (sp_lang p)) (collect (sort_field (sp_sort p))
            (collect (if sp_feed p = [] then Inr [] else feed_ids_field (sp_feed p))
            (collect (int_field 1 100 20 BadLimit (sp_limit p))
            (collect (int_field 0 SEARCH_MAX_OFFSET 0 BadOffset (sp_offset p)) (Inr ())))))))
       (\<lambda>(q, l, srt, feeds, limit, offset, _).
          validate_range \<lparr>sa_q = q, sa_lang = l, sa_sort = srt, sa_feed = feeds, sa_limit = limit, sa_offset = offset,
                          sa_from = sp_from p, sa_to = sp_to p\<rparr>)"

definition search_view :: "text_env \<Rightarrow> html_env \<Rightarrow> (search_sql \<Rightarrow> search_query \<Rightarrow> search_hit list) \<Rightarrow> search_params
    \<Rightarrow> search_error list + (int \<times> search_hit list)" where
  "search_view te he db p =
     ebind (validate_params te p) (\<lambda>a.
       if strip (sa_q a) = [] then Inr (0, [])
       else let rows = run_search te he db (strip (sa_q a)) (sa_lang a) (sa_sort a) (sa_feed a) (sa_from a) (sa_to a) (sa_limit a) (sa_offset a)
            in Inr (int (length rows), rows))"

section \<open>Highlights\<close>

lemma entity_sets:
  "set (lit ''&amp;'') = {38, 97, 109, 112, 59}" "set (lit ''&lt;'') = {38, 108, 116, 59}"
  "set (lit ''&gt;'') = {38, 103, 116, 59}" "set (lit ''&quot;'') = {38, 113, 117, 111, 116, 59}"
  "set (lit ''&#x27;'') = {38, 35, 120, 50, 55, 59}"
  by (simp_all add: lit_def)

lemma escape_char_safe: "set (escape_char c) \<inter> {60, 62, 34, 39} = {}"
  unfolding escape_char_def by (simp add: entity_sets)

lemma escape_safe: "set (html_escape s) \<inter> {60, 62, 34, 39} = {}"
  unfolding html_escape_def using escape_char_safe by fastforce

lemma escape_count: "c \<in> {60, 62, 34, 39} \<Longrightarrow> count_list (html_escape s) c = 0"
  using escape_safe by (auto simp: count_list_0_iff)

definition mark_or_text :: "ustr \<Rightarrow> bool" where
  "mark_or_text part \<longleftrightarrow> part = [MARK_START] \<or> part = [MARK_STOP] \<or> filter is_mark part = []"

lemma split_marks_parts:
  assumes "filter is_mark acc = []" and "part \<in> set (split_marks acc s)"
  shows "mark_or_text part"
  using assms
proof (induction s arbitrary: acc)
  case Nil
  then show ?case by (simp add: mark_or_text_def rev_filter [symmetric])
next
  case (Cons c s)
  show ?case
  proof (cases "is_mark c")
    case True
    then consider "part = rev acc" | "part = [c]" | "part \<in> set (split_marks [] s)" using Cons.prems(2) by auto
    then show ?thesis
    proof cases
      case 1
      then show ?thesis using Cons.prems(1) by (simp add: mark_or_text_def rev_filter [symmetric])
    next
      case 2
      then show ?thesis using True by (auto simp: mark_or_text_def is_mark_def)
    next
      case 3
      then show ?thesis using Cons.IH [of "[]"] by simp
    qed
  next
    case False
    then show ?thesis using Cons.prems Cons.IH [of "c # acc"] by simp
  qed
qed

lemma concat_split_marks: "concat (split_marks acc s) = rev acc @ s"
  by (induction s arbitrary: acc) auto

lemma render_part_counts:
  assumes "mark_or_text part"
  shows "count_list (render_part he part) 60 = length (filter is_mark part)"
    and "count_list (render_part he part) 62 = length (filter is_mark part)"
    and "count_list (render_part he part) 34 = 0" and "count_list (render_part he part) 39 = 0"
  using assms
  by (auto simp: render_part_def mark_or_text_def is_mark_def MARK_START_def MARK_STOP_def lit_def escape_count)

lemma render_parts_counts:
  assumes "list_all mark_or_text parts"
  shows "count_list (concat (map (render_part he) parts)) 60 = length (filter is_mark (concat parts))"
    and "count_list (concat (map (render_part he) parts)) 62 = length (filter is_mark (concat parts))"
    and "count_list (concat (map (render_part he) parts)) 34 = 0"
    and "count_list (concat (map (render_part he) parts)) 39 = 0"
  using assms by (induction parts) (simp_all add: render_part_counts)

text \<open>C16: In a rendered highlight the only markup is what the marks became: there are exactly as many opening and
  closing angle brackets as marks in the snippet, there is no quote of either kind, and the text around the marks
  contributes none of these, whatever entities it held.\<close>

theorem highlight_markup_only_from_marks:
  "count_list (render_highlight he raw) 60 = length (filter is_mark raw)
   \<and> count_list (render_highlight he raw) 62 = length (filter is_mark raw)
   \<and> set (render_highlight he raw) \<inter> {34, 39} = {}
   \<and> set (render_highlight he (filter (\<lambda>c. \<not> is_mark c) raw)) \<inter> {60, 62, 34, 39} = {}"
proof -
  have parts: "list_all mark_or_text (split_marks [] s)" for s
    using split_marks_parts [of "[]"] by (simp add: list_all_iff)
  note counts = render_parts_counts [OF parts, of he, unfolded concat_split_marks, folded render_highlight_def]
  have none: "filter is_mark (filter (\<lambda>c. \<not> is_mark c) raw) = []" by simp
  show ?thesis
    using counts [of raw] counts [of "filter (\<lambda>c. \<not> is_mark c) raw"] none by (auto simp: count_list_0_iff)
qed

section \<open>Validated parameters\<close>

lemma collect_Inr: "collect m rest = Inr z \<longleftrightarrow> (\<exists>x y. m = Inr x \<and> rest = Inr y \<and> z = (x, y))"
  by (cases m; cases rest) (auto simp: collect_def)

lemma digits_value_snoc: "is_digit_ascii d \<Longrightarrow> digits_value 10 (ds @ [d]) = 10 * digits_value 10 ds + (d - 48)"
  by (simp add: digits_value_def is_digit_ascii_def)

lemma digits_value_bounds:
  assumes "list_all is_digit_ascii ds"
  shows "0 \<le> digits_value 10 ds \<and> digits_value 10 ds < 10 ^ length ds"
  using assms
proof (induction ds rule: rev_induct)
  case Nil
  then show ?case by (simp add: digits_value_def)
next
  case (snoc d ds)
  then have "is_digit_ascii d" "0 \<le> digits_value 10 ds" "digits_value 10 ds < 10 ^ length ds" by auto
  then show ?case by (simp add: digits_value_snoc is_digit_ascii_def)
qed

lemma digits_value_pos:
  assumes "list_all is_digit_ascii (d # ds)" and "49 \<le> d"
  shows "1 \<le> digits_value 10 (d # ds)"
  using assms
proof (induction ds rule: rev_induct)
  case Nil
  then show ?case by (simp add: digits_value_def is_digit_ascii_def)
next
  case (snoc e ds)
  then have "is_digit_ascii e" "1 \<le> digits_value 10 (d # ds)" by auto
  then show ?case using digits_value_snoc [of e "d # ds"] by (simp add: is_digit_ascii_def)
qed


lemma is_id_bounds:
  assumes "is_id part"
  shows "1 \<le> digits_value 10 part \<and> digits_value 10 part < 10 ^ 18"
proof -
  from assms obtain d ds where part: "part = d # ds" "list_all is_digit_ascii part" "49 \<le> d" "length part \<le> 18"
    by (cases part) (auto simp: is_id_def)
  have "(10 :: int) ^ length part \<le> 10 ^ 18" using part(4) by (intro power_increasing) simp_all
  then show ?thesis using digits_value_bounds [OF part(2)] digits_value_pos part by fastforce
qed

lemma parse_ids_bounds: "parse_ids parts = Inr ids \<Longrightarrow> length ids = length parts \<and> (\<forall>i \<in> set ids. 1 \<le> i \<and> i < 10 ^ 18)"
proof (induction parts arbitrary: ids)
  case (Cons part parts)
  then obtain rest where "is_id (strip part)" "parse_ids parts = Inr rest" "ids = digits_value 10 (strip part) # rest"
    by (auto simp: ebind_Inr_iff split: if_splits)
  then show ?case using Cons.IH is_id_bounds by simp
qed simp

lemma int_field_bounds: "int_field lo hi dflt e v = Inr n \<Longrightarrow> n = dflt \<or> lo \<le> n \<and> n \<le> hi"
  by (auto simp: int_field_def split: option.splits if_splits)

lemma lowercase_choice_in: "lowercase_choice te v = Inr l \<Longrightarrow> l \<in> insert None (Some ` set LANG_CHOICES)"
  by (auto simp: lowercase_choice_def split: option.splits if_splits)

lemma query_field_ok: "query_field v = Inr q \<Longrightarrow> length q \<le> 256 \<and> strip q = q"
proof (cases v)
  case None
  moreover assume "query_field v = Inr q"
  ultimately show ?thesis by (simp add: query_field_def) (auto simp: strip_by_def lstrip_by_def rstrip_by_def)
next
  case (Some s)
  moreover assume "query_field v = Inr q"
  ultimately show ?thesis by (auto simp: query_field_def MAX_QUERY_CHARS_def split: if_splits)
qed

lemma feed_field_ok:
  assumes "(if items = [] then Inr [] else feed_ids_field items) = Inr feeds"
  shows "sorted feeds \<and> distinct feeds \<and> length feeds \<le> 50 \<and> (\<forall>i \<in> set feeds. 1 \<le> i \<and> i < 10 ^ 18)"
proof (cases "items = []")
  case False
  then obtain ids where "parse_ids (concat (map (split_on 44) items)) = Inr ids" "int (length ids) \<le> 50" "feeds = sort (remdups ids)"
    using assms by (auto simp: feed_ids_field_def ebind_Inr_iff MAX_FEEDS_def split: if_splits)
  then show ?thesis using parse_ids_bounds le_trans [OF length_remdups_leq [of ids], of 50] by simp
qed (use assms in simp)

text \<open>Parameters that pass the serializer are within the bounds the SQL is written for: at most 50 distinct feed
  ids in ascending order, each in the range of a 64-bit key; a page of 1 to 100 rows starting at most 10000 rows in;
  a query of at most 256 characters without surrounding white space; a language of the fixed list; a date range
  that is not empty.\<close>

theorem validated_params_bounds:
  assumes "validate_params te p = Inr a"
  shows "sorted (sa_feed a) \<and> distinct (sa_feed a) \<and> length (sa_feed a) \<le> 50 \<and> (\<forall>i \<in> set (sa_feed a). 1 \<le> i \<and> i < 10 ^ 18)
    \<and> 1 \<le> sa_limit a \<and> sa_limit a \<le> 100 \<and> 0 \<le> sa_offset a \<and> sa_offset a \<le> 10000
    \<and> length (sa_q a) \<le> 256 \<and> strip (sa_q a) = sa_q a \<and> sa_lang a \<in> insert None (Some ` set LANG_CHOICES)
    \<and> (case (sa_from a, sa_to a) of (Some x, Some y) \<Rightarrow> x < y | _ \<Rightarrow> True)"
proof -
  obtain q l srt feeds limit offset where
    fields: "query_field (sp_q p) = Inr q" "lowercase_choice te (sp_lang p) = Inr l"
      "(if sp_feed p = [] then Inr [] else feed_ids_field (sp_feed p)) = Inr feeds"
      "int_field 1 100 20 BadLimit (sp_limit p) = Inr limit" "int_field 0 SEARCH_MAX_OFFSET 0 BadOffset (sp_offset p) = Inr offset"
    and a: "validate_range \<lparr>sa_q = q, sa_lang = l, sa_sort = srt, sa_feed = feeds, sa_limit = limit, sa_offset = offset,
                          sa_from = sp_from p, sa_to = sp_to p\<rparr> = Inr a"
    using assms unfolding validate_params_def by (auto simp: ebind_Inr_iff collect_Inr)
  have eq: "a = \<lparr>sa_q = q, sa_lang = l, sa_sort = srt, sa_feed = feeds, sa_limit = limit, sa_offset = offset,
                          sa_from = sp_from p, sa_to = sp_to p\<rparr>"
    and range: "case (sp_from p, sp_to p) of (Some x, Some y) \<Rightarrow> x < y | _ \<Rightarrow> True"
    using a by (auto simp: validate_range_def split: option.splits if_splits)
  have "1 \<le> limit" "limit \<le> 100" "0 \<le> offset" "offset \<le> 10000" "l \<in> insert None (Some ` set LANG_CHOICES)"
    "sorted feeds" "distinct feeds" "length feeds \<le> 50" "\<forall>i \<in> set feeds. 1 \<le> i \<and> i < 10 ^ 18" "length q \<le> 256" "strip q = q"
    using int_field_bounds [OF fields(4)] int_field_bounds [OF fields(5)] lowercase_choice_in [OF fields(2)]
      query_field_ok [OF fields(1)] feed_field_ok [OF fields(3)] by (auto simp: SEARCH_MAX_OFFSET_def)
  then show ?thesis using eq range by simp
qed

theorem validated_params_bounds_witness:
  "\<exists>a. validate_params te_ascii \<lparr>sp_q = Some (lit '' news ''), sp_lang = Some (lit ''RU''), sp_sort = None,
       sp_feed = [lit ''7,3'', lit ''3''], sp_limit = None, sp_offset = Some 40, sp_from = Some 5, sp_to = Some 9\<rparr> = Inr a
     \<and> sorted (sa_feed a) \<and> length (sa_q a) \<le> 256 \<and> sa_limit a \<le> 100"
proof -
  have "validate_params te_ascii \<lparr>sp_q = Some (lit '' news ''), sp_lang = Some (lit ''RU''), sp_sort = None,
       sp_feed = [lit ''7,3'', lit ''3''], sp_limit = None, sp_offset = Some 40, sp_from = Some 5, sp_to = Some 9\<rparr>
    = Inr \<lparr>sa_q = lit ''news'', sa_lang = Some (lit ''ru''), sa_sort = SortRank, sa_feed = [3, 7], sa_limit = 20,
       sa_offset = 40, sa_from = Some 5, sa_to = Some 9\<rparr>"
    by code_simp
  with validated_params_bounds [OF this] show ?thesis by blast
qed

section \<open>Pages of one result list\<close>

definition window :: "int \<Rightarrow> int \<Rightarrow> 'a list \<Rightarrow> 'a list" where
  "window limit offset xs = take (nat limit) (drop (nat offset) xs)"

lemma window_map: "map f (window limit offset xs) = window limit offset (map f xs)"
  by (simp add: window_def take_map drop_map)

lemma window_first: "window 1 0 xs \<noteq> [] \<longleftrightarrow> xs \<noteq> []"
  by (cases xs) (simp_all add: window_def)

lemma window_start: "1 \<le> limit \<Longrightarrow> window limit 0 xs = [] \<longleftrightarrow> xs = []"
  by (cases xs) (auto simp: window_def)

lemma window_Nil [simp]: "window limit offset [] = []"
  by (simp add: window_def)

text \<open>The query of a search, whatever page of it is asked for.\<close>

definition base_query :: "text_env \<Rightarrow> ustr \<Rightarrow> ustr option \<Rightarrow> search_sort \<Rightarrow> int list \<Rightarrow> int option \<Rightarrow> int option \<Rightarrow> search_query" where
  "base_query te query l srt feeds date_from date_to =
     \<lparr>sq_cfg = coerce_lang te l, sq_query = query, sq_feeds = feeds, sq_from = date_from, sq_to = date_to,
      sq_limit = 0, sq_offset = 0, sq_by_date = (srt = SortDate)\<rparr>"

text \<open>The specification: one result list per query, the same for every page.\<close>

definition all_results :: "html_env \<Rightarrow> (search_sql \<Rightarrow> search_query \<Rightarrow> search_hit list) \<Rightarrow> search_sort \<Rightarrow> search_query \<Rightarrow> search_hit list" where
  "all_results he hits srt q =
     (let words = hits (if srt = SortDate then SEARCH_DATE_SQL else SEARCH_RANK_SQL) q
      in if words = [] \<and> int (length (sq_query q)) \<le> 24 then hits TRGM_FALLBACK_SQL q
         else map (\<lambda>r. r\<lparr>sh_highlight := render_highlight he (sh_highlight r)\<rparr>) words)"

text \<open>
  The interface to the database: a statement answers the window, at its limit and offset, of hits that do not depend on
  the window.  Then every page of a search is a window of one list: paging never mixes full-text and fuzzy hits.
\<close>

locale paged_statements =
  fixes db :: "search_sql \<Rightarrow> search_query \<Rightarrow> search_hit list"
    and hits :: "search_sql \<Rightarrow> search_query \<Rightarrow> search_hit list"
  assumes page: "db sql q = window (sq_limit q) (sq_offset q) (hits sql (q\<lparr>sq_limit := 0, sq_offset := 0\<rparr>))"
begin

lemma run_search_window:
  assumes "1 \<le> limit" and "0 \<le> offset"
  shows "run_search te he db query l srt feeds date_from date_to limit offset
    = window limit offset (all_results he hits srt (base_query te query l srt feeds date_from date_to))"
proof -
  define q where "q = base_query te query l srt feeds date_from date_to"
  define sql where "sql = (if srt = SortDate then SEARCH_DATE_SQL else SEARCH_RANK_SQL)"
  define render where "render = map (\<lambda>r :: search_hit. r\<lparr>sh_highlight := render_highlight he (sh_highlight r)\<rparr>)"
  have db: "db s (q\<lparr>sq_limit := n, sq_offset := m\<rparr>) = window n m (hits s q)" for s n m
    by (simp add: page q_def base_query_def)
  have run: "run_search te he db query l srt feeds date_from date_to limit offset
    = (let rows = render (window limit offset (hits sql q)) in
       if rows \<noteq> [] \<or> 24 < int (length query) then rows
       else if offset \<noteq> 0 \<and> window 1 0 (hits sql q) \<noteq> [] then rows else window limit offset (hits TRGM_FALLBACK_SQL q))"
    unfolding db [symmetric] by (simp add: run_search_def q_def base_query_def sql_def render_def Let_def TRGM_MAX_QUERY_CHARS_def)
  have spec: "all_results he hits srt q
    = (if hits sql q = [] \<and> int (length query) \<le> 24 then hits TRGM_FALLBACK_SQL q else render (hits sql q))"
    by (simp add: all_results_def q_def base_query_def sql_def render_def Let_def)
  have wr: "window limit offset (render xs) = render (window limit offset xs)" for xs
    by (simp add: render_def window_map)
  have empty: "render xs = [] \<longleftrightarrow> xs = []" for xs by (simp add: render_def)
  show ?thesis
  proof (cases "hits sql q = []")
    case True
    then show ?thesis by (auto simp: run spec wr empty Let_def simp flip: q_def)
  next
    case False
    then show ?thesis
      using window_first [of "hits sql q"] window_start [OF assms(1), of "hits sql q"]
      by (auto simp: run spec wr empty Let_def simp flip: q_def)
  qed
qed

lemma search_view_window:
  assumes "validate_params te p = Inr a" and "sa_q a \<noteq> []" and "strip (sa_q a) = sa_q a" and "1 \<le> sa_limit a" and "0 \<le> sa_offset a"
  shows "search_view te he db p
    = (let rows = window (sa_limit a) (sa_offset a)
             (all_results he hits (sa_sort a) (base_query te (sa_q a) (sa_lang a) (sa_sort a) (sa_feed a) (sa_from a) (sa_to a)))
       in Inr (int (length rows), rows))"
  using assms by (simp add: search_view_def run_search_window Let_def)

end

end
