(* ===== verification/Article_Api.thy ===== *)
theory Article_Api
  imports Tags Search
begin

text \<open>
  The article endpoints: \<^verbatim>\<open>src/apps/articles/views.py\<close> and \<^verbatim>\<open>serializers.py\<close>.  Filter values are
  parsed by the framework; an absent or empty one is \<open>None\<close>.  The order of an article's tags is that of the link table.
\<close>

section \<open>Filters and listing\<close>

record article_filters =
  af_feed :: "int option"
  af_language :: "ustr option"
  af_tag :: "ustr option"
  af_published_after :: "int option"
  af_published_before :: "int option"

definition filter_language :: "text_env \<Rightarrow> ustr \<Rightarrow> article \<Rightarrow> bool" where
  "filter_language te v a =
     (let v' = py_lower te v in a_language a = (case map_of LANG_ALIASES v' of Some l \<Rightarrow> l | None \<Rightarrow> v'))"

definition has_tag :: "tag_store \<Rightarrow> ustr \<Rightarrow> article \<Rightarrow> bool" where
  "has_tag ts slug a \<longleftrightarrow> list_ex (\<lambda>t. tg_slug t = slug \<and> (a_id a, tg_id t) \<in> set (ts_links ts)) (ts_tags ts)"

definition passes_filter :: "text_env \<Rightarrow> tag_store \<Rightarrow> article_filters \<Rightarrow> article \<Rightarrow> bool" where
  "passes_filter te ts fl a \<longleftrightarrow>
     (case af_feed fl of None \<Rightarrow> True | Some i \<Rightarrow> a_feed a = i)
     \<and> (case af_language fl of None \<Rightarrow> True | Some l \<Rightarrow> filter_language te l a)
     \<and> (case af_tag fl of None \<Rightarrow> True | Some slug \<Rightarrow> has_tag ts slug a)
     \<and> (case af_published_after fl of None \<Rightarrow> True | Some t \<Rightarrow> (case a_published_at a of None \<Rightarrow> False | Some p \<Rightarrow> p \<ge> t))
     \<and> (case af_published_before fl of None \<Rightarrow> True | Some t \<Rightarrow> (case a_published_at a of None \<Rightarrow> False | Some p \<Rightarrow> p < t))"

text \<open>\<^verbatim>\<open>F("published_at").desc(nulls_last=True), "-id"\<close>.\<close>

definition listing_key :: "article \<Rightarrow> bool \<times> int \<times> int" where
  "listing_key a = (a_published_at a = None, (case a_published_at a of None \<Rightarrow> 0 | Some p \<Rightarrow> - p), - a_id a)"

definition article_queryset :: "feed list \<Rightarrow> article list \<Rightarrow> article list" where
  "article_queryset feeds arts =
     sort_key listing_key (filter (\<lambda>a. \<not> a_is_deleted a \<and> list_ex (\<lambda>f. f_id f = a_feed a \<and> \<not> f_is_deleted f) feeds) arts)"

section \<open>Serializers and pages\<close>

record article_view =
  av_id :: int
  av_feed_id :: int
  av_title :: ustr
  av_url :: ustr
  av_summary :: ustr
  av_author :: "ustr option"
  av_language :: ustr
  av_published_at :: "int option"
  av_fetched_at :: int
  av_tags :: "ustr list"
  av_body :: "ustr option" \<comment> \<open>in the detail view only\<close>

definition get_tags :: "tag_store \<Rightarrow> article \<Rightarrow> ustr list" where
  "get_tags ts a =
     concat (map (\<lambda>(aid, tid). if aid = a_id a then map tg_slug (filter (\<lambda>t. tg_id t = tid) (ts_tags ts)) else []) (ts_links ts))"

definition article_representation :: "tag_store \<Rightarrow> bool \<Rightarrow> article \<Rightarrow> article_view" where
  "article_representation ts detail a =
     \<lparr>av_id = a_id a, av_feed_id = a_feed a, av_title = a_title a, av_url = a_url a, av_summary = a_summary a,
      av_author = a_author a, av_language = a_language a, av_published_at = a_published_at a, av_fetched_at = a_fetched_at a,
      av_tags = get_tags ts a, av_body = (if detail then Some (a_body a) else None)\<rparr>"

definition article_rows :: "text_env \<Rightarrow> tag_store \<Rightarrow> feed list \<Rightarrow> article list \<Rightarrow> article_filters \<Rightarrow> article list" where
  "article_rows te ts feeds arts fl = filter (passes_filter te ts fl) (article_queryset feeds arts)"

definition article_list :: "text_env \<Rightarrow> tag_store \<Rightarrow> feed list \<Rightarrow> article list \<Rightarrow> article_filters \<Rightarrow> int \<Rightarrow> int \<Rightarrow> sub_error + article_view list" where
  "article_list te ts feeds arts fl limit offset =
     ebind (paginate limit offset (article_rows te ts feeds arts fl)) (\<lambda>rows. Inr (map (article_representation ts False) rows))"

definition article_retrieve :: "text_env \<Rightarrow> tag_store \<Rightarrow> feed list \<Rightarrow> article list \<Rightarrow> article_filters \<Rightarrow> int \<Rightarrow> sub_error + article_view" where
  "article_retrieve te ts feeds arts fl pk =
     (case find (\<lambda>a. a_id a = pk) (article_rows te ts feeds arts fl) of
        None \<Rightarrow> Inl NotFound | Some a \<Rightarrow> Inr (article_representation ts True a))"

section \<open>Walking the pages\<close>

definition newer :: "article \<Rightarrow> article \<Rightarrow> bool" where
  "newer a b \<longleftrightarrow>
     (case (a_published_at a, a_published_at b) of
        (Some p, Some q) \<Rightarrow> q < p \<or> p = q \<and> a_id b < a_id a
      | (Some _, None) \<Rightarrow> True
      | (None, Some _) \<Rightarrow> False
      | (None, None) \<Rightarrow> a_id b < a_id a)"

lemma listing_key_newer: "listing_key a \<le> listing_key b \<Longrightarrow> a_id a \<noteq> a_id b \<Longrightarrow> newer a b"
  by (auto simp: listing_key_def newer_def less_eq_prod_def less_prod_def split: option.splits)

lemma map_id_keys: "keys_of id_key rows = map a_id rows"
  by (induction rows) (simp_all add: id_key_def)

lemma queryset_newer:
  assumes "uniq id_key arts"
  shows "sorted_wrt newer (article_queryset feeds arts) \<and> distinct (map a_id (article_queryset feeds arts))"
proof -
  let ?live = "filter (\<lambda>a. \<not> a_is_deleted a \<and> list_ex (\<lambda>f. f_id f = a_feed a \<and> \<not> f_is_deleted f) feeds) arts"
  have "distinct (map a_id ?live)" using uniq_filter [OF assms] by (simp add: uniq_def map_id_keys)
  then have ids: "distinct (map a_id (article_queryset feeds arts))"
    unfolding article_queryset_def by (simp add: distinct_map)
  have "sorted_wrt (\<lambda>a b. listing_key a \<le> listing_key b) (article_queryset feeds arts)"
    unfolding article_queryset_def using sorted_sort_key [of listing_key ?live] by (simp add: sorted_map)
  moreover have "sorted_wrt (\<lambda>a b. a_id a \<noteq> a_id b) (article_queryset feeds arts)"
    using ids by (simp add: distinct_conv_nth sorted_wrt_iff_nth_less)
  ultimately have "sorted_wrt newer (article_queryset feeds arts)"
    by (simp add: sorted_wrt_iff_nth_less listing_key_newer)
  with ids show ?thesis by simp
qed

lemma take_pages: "concat (map (\<lambda>k. take n (drop (k * n) xs)) [0..<m]) = take (m * n) xs"
  by (induction m) (simp_all add: take_add [symmetric] add.commute)

text \<open>C20: The pages of the article list, read from a table that does not change meanwhile, are
  consecutive pieces of one list: the live articles of live feeds that pass the filters, each once, newest
  first and undated ones last.  A client that reads \<open>n\<close> pages of any size up to 100 from offset 0 on, the last
  of them at an offset of at most 10000, gets the first \<open>n * limit\<close> articles of that list, hence every one of them
  when there are no more than that; any offset beyond 10000 is refused, so articles further down are not
  reached by paging.\<close>

theorem article_pages_walk:
  assumes "uniq id_key arts" and "1 \<le> limit" and "limit \<le> 100" and "0 < n" and "(int n - 1) * limit \<le> 10000"
  shows "\<exists>rows pages. sorted_wrt newer rows \<and> distinct (map a_id rows)
    \<and> set rows = {a \<in> set arts. \<not> a_is_deleted a \<and> (\<exists>f \<in> set feeds. f_id f = a_feed a \<and> \<not> f_is_deleted f) \<and> passes_filter te ts fl a}
    \<and> map (\<lambda>k. article_list te ts feeds arts fl limit (int k * limit)) [0..<n] = map Inr pages
    \<and> concat pages = map (article_representation ts False) (take (n * nat limit) rows)
    \<and> (length rows \<le> n * nat limit \<longrightarrow> concat pages = map (article_representation ts False) rows)
    \<and> (\<forall>offset > 10000. article_list te ts feeds arts fl limit offset = Inl (Invalid [(''offset'', OffsetTooLarge)]))"
proof -
  let ?rows = "article_rows te ts feeds arts fl"
  let ?page = "\<lambda>k. map (article_representation ts False) (take (nat limit) (drop (k * nat limit) ?rows))"
  have ordered: "sorted_wrt newer ?rows \<and> distinct (map a_id ?rows)"
    using queryset_newer [OF assms(1), of feeds] by (simp add: article_rows_def sorted_wrt_filter distinct_map_filter)
  have mem: "set ?rows = {a \<in> set arts. \<not> a_is_deleted a \<and> (\<exists>f \<in> set feeds. f_id f = a_feed a \<and> \<not> f_is_deleted f) \<and> passes_filter te ts fl a}"
    by (auto simp: article_rows_def article_queryset_def list_ex_iff)
  have "article_list te ts feeds arts fl limit (int k * limit) = Inr (?page k)" if "k < n" for k
  proof -
    have "int k * limit \<le> (int n - 1) * limit" using that assms(2) by (intro mult_right_mono) auto
    then have "int k * limit \<le> 10000" using assms(5) by simp
    moreover have "nat (int k * limit) = k * nat limit" using assms(2) by (simp add: nat_mult_distrib)
    ultimately show ?thesis using assms(3) by (simp add: article_list_def paginate_def get_offset_def MAX_OFFSET_def max_limit_def min_def)
  qed
  then have "map (\<lambda>k. article_list te ts feeds arts fl limit (int k * limit)) [0..<n] = map Inr (map ?page [0..<n])" by simp
  moreover have "concat (map ?page [0..<n]) = map (article_representation ts False) (take (n * nat limit) ?rows)"
    using take_pages [of "nat limit" ?rows n] by (simp add: map_concat comp_def flip: take_pages)
  moreover from this have "length ?rows \<le> n * nat limit \<longrightarrow>
      concat (map ?page [0..<n]) = map (article_representation ts False) ?rows" by simp
  moreover have "\<forall>offset > 10000. article_list te ts feeds arts fl limit offset = Inl (Invalid [(''offset'', OffsetTooLarge)])"
    by (simp add: article_list_def paginate_def get_offset_def MAX_OFFSET_def)
  ultimately show ?thesis using ordered mem by blast
qed

definition no_filter :: article_filters where
  "no_filter = \<lparr>af_feed = None, af_language = None, af_tag = None, af_published_after = None, af_published_before = None\<rparr>"

theorem article_pages_walk_witness:
  "\<exists>rows pages. article_rust \<in> set rows
    \<and> map (\<lambda>k. article_list te_ascii no_tags [default_feed 0 2] [article_rust] no_filter 10 (int k * 10)) [0..<2] = map Inr pages
    \<and> concat pages = map (article_representation no_tags False) (take (2 * nat 10) rows)
    \<and> article_list te_ascii no_tags [default_feed 0 2] [article_rust] no_filter 10 10001 = Inl (Invalid [(''offset'', OffsetTooLarge)])"
proof -
  have "uniq id_key [article_rust]" by (simp add: uniq_Cons conflicts_def has_key_iff split: option.split)
  note w = article_pages_walk [OF this, of 10 2 "[default_feed 0 2]" te_ascii no_tags no_filter]
  have "passes_filter te_ascii no_tags no_filter article_rust" by (simp add: passes_filter_def no_filter_def)
  moreover have "\<not> a_is_deleted article_rust" "f_id (default_feed 0 2) = a_feed article_rust" "\<not> f_is_deleted (default_feed 0 2)"
    by (simp_all add: article_rust_def default_feed_def)
  ultimately show ?thesis using w by fastforce
qed

end
