(* ===== verification/Search_Sql.thy ===== *)
theory Search_Sql
  imports Article_Api
begin

text \<open>
  The three statements of \<^verbatim>\<open>src/apps/search/queries\<close> (\<^verbatim>\<open>search_rank.sql\<close>, \<^verbatim>\<open>search_date.sql\<close>,
  \<^verbatim>\<open>trgm_fallback.sql\<close>) and the trigger that fills \<^verbatim>\<open>articles_article.tsv\<close> (migrations 0001, 0006 and 0007 of
  the articles application).  A row of the table is an article with its text vector.

  PostgreSQL's text search and trigram functions are the fields of \<open>pg_env\<close>; vectors and queries are values of the
  type variables \<open>'v\<close> and \<open>'q\<close>.  What the statements do with them - joins, conditions, order, window, the
  preparation of the snippet - is defined here.  The outer \<^verbatim>\<open>ORDER BY\<close> of \<^verbatim>\<open>search_rank.sql\<close> repeats the inner one.
\<close>

section \<open>Text search functions\<close>

datatype weight = WA | WB | WC

record ('v, 'q) pg_env =
  unaccent :: "ustr \<Rightarrow> ustr"
  to_tsvector :: "ustr \<Rightarrow> ustr \<Rightarrow> 'v"
  setweight :: "'v \<Rightarrow> weight \<Rightarrow> 'v"
  tsv_concat :: "'v \<Rightarrow> 'v \<Rightarrow> 'v"
  websearch_to_tsquery :: "ustr \<Rightarrow> ustr \<Rightarrow> 'q"
  tsq_or :: "'q \<Rightarrow> 'q \<Rightarrow> 'q"
  ts_match :: "'v \<Rightarrow> 'q \<Rightarrow> bool" \<comment> \<open>\<open>@@\<close>\<close>
  ts_rank_cd :: "'v \<Rightarrow> 'q \<Rightarrow> int \<Rightarrow> rat"
  ts_headline :: "ustr \<Rightarrow> ustr \<Rightarrow> 'q \<Rightarrow> ustr \<Rightarrow> ustr"
  similarity :: "ustr \<Rightarrow> ustr \<Rightarrow> rat"
  word_similarity :: "ustr \<Rightarrow> ustr \<Rightarrow> rat"
  similar :: "ustr \<Rightarrow> ustr \<Rightarrow> bool" \<comment> \<open>the operator \<open>%\<close>\<close>
  word_similar :: "ustr \<Rightarrow> ustr \<Rightarrow> bool" \<comment> \<open>the operator \<open>%>\<close>\<close>

text \<open>\<^verbatim>\<open>articles_tsv_update\<close>; the columns are not null.\<close>

definition tsv_update :: "('v, 'q) pg_env \<Rightarrow> article \<Rightarrow> 'v" where
  "tsv_update pg a =
     tsv_concat pg
       (tsv_concat pg
         (setweight pg (to_tsvector pg (a_language a) (unaccent pg (slice_to 1000 (a_title a)))) WA)
         (setweight pg (to_tsvector pg (a_language a) (unaccent pg (slice_to 100000 (a_summary a)))) WB))
       (setweight pg (to_tsvector pg (a_language a) (unaccent pg (slice_to 300000 (a_body a)))) WC)"

type_synonym 'v indexed = "article \<times> 'v"

section \<open>Conditions shared by the statements\<close>

definition tsq :: "('v, 'q) pg_env \<Rightarrow> search_query \<Rightarrow> 'q" where
  "tsq pg q =
     (let text = unaccent pg (sq_query q) in
      case sq_cfg q of
        Some cfg \<Rightarrow> websearch_to_tsquery pg cfg text
      | None \<Rightarrow> tsq_or pg (tsq_or pg (websearch_to_tsquery pg (lit ''english'') text) (websearch_to_tsquery pg (lit ''russian'') text))
                  (websearch_to_tsquery pg (lit ''simple'') text))"

definition live_row :: "feed list \<Rightarrow> article \<Rightarrow> bool" where
  "live_row feeds a \<longleftrightarrow> \<not> a_is_deleted a \<and> list_ex (\<lambda>f. f_id f = a_feed a \<and> \<not> f_is_deleted f) feeds"

definition in_scope :: "search_query \<Rightarrow> article \<Rightarrow> bool" where
  "in_scope q a \<longleftrightarrow>
     (case sq_from q of None \<Rightarrow> True | Some t \<Rightarrow> (case a_published_at a of None \<Rightarrow> False | Some p \<Rightarrow> t \<le> p))
     \<and> (case sq_to q of None \<Rightarrow> True | Some t \<Rightarrow> (case a_published_at a of None \<Rightarrow> False | Some p \<Rightarrow> p < t))
     \<and> (sq_feeds q = [] \<or> a_feed a \<in> set (sq_feeds q))"

definition text_where :: "('v, 'q) pg_env \<Rightarrow> feed list \<Rightarrow> search_query \<Rightarrow> 'v indexed \<Rightarrow> bool" where
  "text_where pg feeds q r \<longleftrightarrow> live_row feeds (fst r) \<and> ts_match pg (snd r) (tsq pg q) \<and> in_scope q (fst r)"

definition as_hit :: "article \<Rightarrow> rat \<Rightarrow> ustr \<Rightarrow> search_hit" where
  "as_hit a rank highlight =
     \<lparr>sh_id = a_id a, sh_title = a_title a, sh_summary = a_summary a, sh_url = a_url a, sh_feed_id = a_feed a,
      sh_published_at = a_published_at a, sh_language = a_language a, sh_rank = rank, sh_highlight = highlight\<rparr>"

section \<open>The snippet\<close>

text \<open>\<^verbatim>\<open>regexp_replace(s, '<[^>]*>', ' ', 'g')\<close>.\<close>

function strip_tags :: "ustr \<Rightarrow> ustr" where
  "strip_tags [] = []"
| "strip_tags (c # s) =
     (if c = 60 \<and> 62 \<in> set s then 32 # strip_tags (drop 1 (dropWhile (\<lambda>x. x \<noteq> 62) s)) else c # strip_tags s)"
  by pat_completeness auto
termination
  by (relation "measure length") (auto simp: less_Suc_eq_le intro: le_trans [OF diff_le_self] length_dropWhile_le)

text \<open>\<^verbatim>\<open>translate(s, '<>' || marks, ...)\<close>: the brackets become single guillemets, the marks are dropped.\<close>

definition translate_char :: "int \<Rightarrow> ustr" where
  "translate_char c = (if c = 60 then [0x2039] else if c = 62 then [0x203A] else if is_mark c then [] else [c])"

text \<open>\<^verbatim>\<open>replace(s, xx, y)\<close> for a doubled character.\<close>

fun replace_pair :: "int \<Rightarrow> int \<Rightarrow> ustr \<Rightarrow> ustr" where
  "replace_pair x y (c # d # s) = (if c = x \<and> d = x then y # replace_pair x y s else c # replace_pair x y (d # s))"
| "replace_pair x y s = s"

definition headline_text :: "('v, 'q) pg_env \<Rightarrow> ustr \<Rightarrow> ustr" where
  "headline_text pg summary =
     replace_pair 0x203A 0xBB (replace_pair 0x2039 0xAB
       (concat (map translate_char (unaccent pg (strip_tags (slice_to 2000 summary))))))"

definition HEADLINE_OPTIONS :: ustr where
  "HEADLINE_OPTIONS =
     lit ''MaxFragments=2, MinWords=5, MaxWords=20, StartSel='' @ [34, MARK_START, 34] @ lit '', StopSel='' @ [34, MARK_STOP, 34]"

section \<open>The statements\<close>

definition rank_of :: "('v, 'q) pg_env \<Rightarrow> search_query \<Rightarrow> 'v indexed \<Rightarrow> rat" where
  "rank_of pg q r = ts_rank_cd pg (snd r) (tsq pg q) 33"

definition rank_hits :: "('v, 'q) pg_env \<Rightarrow> feed list \<Rightarrow> 'v indexed list \<Rightarrow> search_query \<Rightarrow> 'v indexed list" where
  "rank_hits pg feeds rows q =
     sort_key (\<lambda>r. (- rank_of pg q r, listing_key (fst r))) (filter (text_where pg feeds q) rows)"

definition rank_row :: "('v, 'q) pg_env \<Rightarrow> search_query \<Rightarrow> 'v indexed \<Rightarrow> search_hit" where
  "rank_row pg q r =
     as_hit (fst r) (rank_of pg q r)
       (ts_headline pg (case sq_cfg q of Some cfg \<Rightarrow> cfg | None \<Rightarrow> a_language (fst r)) (headline_text pg (a_summary (fst r)))
          (tsq pg q) HEADLINE_OPTIONS)"

definition search_rank_sql :: "('v, 'q) pg_env \<Rightarrow> feed list \<Rightarrow> 'v indexed list \<Rightarrow> search_query \<Rightarrow> search_hit list" where
  "search_rank_sql pg feeds rows q = map (rank_row pg q) (window (sq_limit q) (sq_offset q) (rank_hits pg feeds rows q))"

definition date_hits :: "('v, 'q) pg_env \<Rightarrow> feed list \<Rightarrow> 'v indexed list \<Rightarrow> search_query \<Rightarrow> 'v indexed list" where
  "date_hits pg feeds rows q = sort_key (\<lambda>r. listing_key (fst r)) (filter (text_where pg feeds q) rows)"

definition search_date_sql :: "('v, 'q) pg_env \<Rightarrow> feed list \<Rightarrow> 'v indexed list \<Rightarrow> search_query \<Rightarrow> search_hit list" where
  "search_date_sql pg feeds rows q =
     window (sq_limit q) (sq_offset q) (map (\<lambda>r. as_hit (fst r) 0 []) (date_hits pg feeds rows q))"

definition trgm_where :: "('v, 'q) pg_env \<Rightarrow> feed list \<Rightarrow> search_query \<Rightarrow> 'v indexed \<Rightarrow> bool" where
  "trgm_where pg feeds q r \<longleftrightarrow>
     live_row feeds (fst r) \<and> (similar pg (a_title (fst r)) (sq_query q) \<or> word_similar pg (a_title (fst r)) (sq_query q))
     \<and> in_scope q (fst r)"

definition trgm_rank :: "('v, 'q) pg_env \<Rightarrow> search_query \<Rightarrow> 'v indexed \<Rightarrow> rat" where
  "trgm_rank pg q r = max (similarity pg (a_title (fst r)) (sq_query q)) (word_similarity pg (sq_query q) (a_title (fst r)))"

text \<open>\<^verbatim>\<open>CASE WHEN by_date THEN published_at END DESC NULLS LAST\<close>: without \<open>by_date\<close> the key is null in every row.\<close>

definition trgm_key :: "('v, 'q) pg_env \<Rightarrow> search_query \<Rightarrow> 'v indexed \<Rightarrow> (bool \<times> int) \<times> rat \<times> bool \<times> int \<times> int" where
  "trgm_key pg q r =
     ((case (if sq_by_date q then a_published_at (fst r) else None) of None \<Rightarrow> (True, 0) | Some p \<Rightarrow> (False, - p)),
      - trgm_rank pg q r, listing_key (fst r))"

definition trgm_hits :: "('v, 'q) pg_env \<Rightarrow> feed list \<Rightarrow> 'v indexed list \<Rightarrow> search_query \<Rightarrow> 'v indexed list" where
  "trgm_hits pg feeds rows q = sort_key (trgm_key pg q) (filter (trgm_where pg feeds q) rows)"

definition trgm_fallback_sql :: "('v, 'q) pg_env \<Rightarrow> feed list \<Rightarrow> 'v indexed list \<Rightarrow> search_query \<Rightarrow> search_hit list" where
  "trgm_fallback_sql pg feeds rows q =
     window (sq_limit q) (sq_offset q) (map (\<lambda>r. as_hit (fst r) (trgm_rank pg q r) []) (trgm_hits pg feeds rows q))"

text \<open>\<^verbatim>\<open>_fetch\<close>: the statement is run and its rows are returned.\<close>

definition fetch_sql :: "('v, 'q) pg_env \<Rightarrow> feed list \<Rightarrow> 'v indexed list \<Rightarrow> search_sql \<Rightarrow> search_query \<Rightarrow> search_hit list" where
  "fetch_sql pg feeds rows sql q =
     (case sql of
        SEARCH_RANK_SQL \<Rightarrow> search_rank_sql pg feeds rows q
      | SEARCH_DATE_SQL \<Rightarrow> search_date_sql pg feeds rows q
      | TRGM_FALLBACK_SQL \<Rightarrow> trgm_fallback_sql pg feeds rows q)"

section \<open>The statements as windows of one list\<close>

text \<open>The rows of a statement before \<^verbatim>\<open>LIMIT\<close> and \<^verbatim>\<open>OFFSET\<close>.\<close>

definition all_hits :: "('v, 'q) pg_env \<Rightarrow> feed list \<Rightarrow> 'v indexed list \<Rightarrow> search_sql \<Rightarrow> search_query \<Rightarrow> search_hit list" where
  "all_hits pg feeds rows sql q =
     (case sql of
        SEARCH_RANK_SQL \<Rightarrow> map (rank_row pg q) (rank_hits pg feeds rows q)
      | SEARCH_DATE_SQL \<Rightarrow> map (\<lambda>r. as_hit (fst r) 0 []) (date_hits pg feeds rows q)
      | TRGM_FALLBACK_SQL \<Rightarrow> map (\<lambda>r. as_hit (fst r) (trgm_rank pg q r) []) (trgm_hits pg feeds rows q))"

lemma no_window [simp]:
  "tsq pg (q\<lparr>sq_limit := n, sq_offset := m\<rparr>) = tsq pg q"
  "in_scope (q\<lparr>sq_limit := n, sq_offset := m\<rparr>) = in_scope q"
  by (simp_all add: tsq_def in_scope_def fun_eq_iff)

lemma all_hits_no_window: "all_hits pg feeds rows sql (q\<lparr>sq_limit := n, sq_offset := m\<rparr>) = all_hits pg feeds rows sql q"
proof -
  let ?q = "q\<lparr>sq_limit := n, sq_offset := m\<rparr>"
  have conds: "text_where pg feeds ?q = text_where pg feeds q" "trgm_where pg feeds ?q = trgm_where pg feeds q"
    by (simp_all add: text_where_def trgm_where_def fun_eq_iff)
  have keys: "rank_of pg ?q = rank_of pg q" "trgm_key pg ?q = trgm_key pg q" "trgm_rank pg ?q = trgm_rank pg q"
    by (simp_all add: rank_of_def trgm_key_def trgm_rank_def fun_eq_iff)
  have "rank_row pg ?q = rank_row pg q" by (simp add: rank_row_def keys fun_eq_iff)
  then show ?thesis by (cases sql) (simp_all add: all_hits_def rank_hits_def date_hits_def trgm_hits_def conds keys)
qed

lemma fetch_sql_window: "fetch_sql pg feeds rows sql q = window (sq_limit q) (sq_offset q) (all_hits pg feeds rows sql q)"
  by (simp add: fetch_sql_def all_hits_def search_rank_sql_def search_date_sql_def trgm_fallback_sql_def window_map
      split: search_sql.splits)

interpretation sql: paged_statements "fetch_sql pg feeds rows" "all_hits pg feeds rows" for pg feeds rows
  by unfold_locales (simp add: fetch_sql_window all_hits_no_window)

section \<open>What a search answers\<close>

lemma as_hit_sel [simp]:
  "sh_id (as_hit a k h) = a_id a" "sh_published_at (as_hit a k h) = a_published_at a" "sh_rank (as_hit a k h) = k"
  by (simp_all add: as_hit_def)

lemma rank_row_sel [simp]:
  "sh_id (rank_row pg q r) = a_id (fst r)" "sh_published_at (rank_row pg q r) = a_published_at (fst r)"
  "sh_rank (rank_row pg q r) = rank_of pg q r"
  by (simp_all add: rank_row_def)

definition hit_where :: "('v, 'q) pg_env \<Rightarrow> feed list \<Rightarrow> search_sql \<Rightarrow> search_query \<Rightarrow> 'v indexed \<Rightarrow> bool" where
  "hit_where pg feeds sql q = (if sql = TRGM_FALLBACK_SQL then trgm_where pg feeds q else text_where pg feeds q)"

text \<open>Undated hits come last.\<close>

definition not_older :: "search_hit \<Rightarrow> search_hit \<Rightarrow> bool" where
  "not_older x y \<longleftrightarrow>
     (case sh_published_at y of None \<Rightarrow> True
      | Some t \<Rightarrow> (case sh_published_at x of None \<Rightarrow> False | Some u \<Rightarrow> t \<le> u))"

definition ranked :: "search_hit \<Rightarrow> search_hit \<Rightarrow> bool" where
  "ranked x y \<longleftrightarrow> sh_rank y \<le> sh_rank x"

lemma all_hits_ids:
  "map sh_id (all_hits pg feeds rows sql q) =
     map (a_id \<circ> fst) (case sql of SEARCH_RANK_SQL \<Rightarrow> rank_hits pg feeds rows q | SEARCH_DATE_SQL \<Rightarrow> date_hits pg feeds rows q
       | TRGM_FALLBACK_SQL \<Rightarrow> trgm_hits pg feeds rows q)"
  by (simp add: all_hits_def split: search_sql.splits)

lemma hits_distinct:
  assumes "distinct (map (a_id \<circ> fst) rows)"
  shows "distinct (map sh_id (all_hits pg feeds rows sql q))"
  using distinct_map_filter [OF assms]
  by (simp add: all_hits_ids rank_hits_def date_hits_def trgm_hits_def distinct_map split: search_sql.splits)

lemma hits_set: "sh_id ` set (all_hits pg feeds rows sql q) = (a_id \<circ> fst) ` {r \<in> set rows. hit_where pg feeds sql q r}"
proof -
  have "sh_id ` set (all_hits pg feeds rows sql q) = set (map sh_id (all_hits pg feeds rows sql q))" by simp
  also have "\<dots> = (a_id \<circ> fst) ` {r \<in> set rows. hit_where pg feeds sql q r}"
    unfolding all_hits_ids by (cases sql) (simp_all add: hit_where_def rank_hits_def date_hits_def trgm_hits_def)
  finally show ?thesis .
qed

lemma sort_key_wrt:
  assumes "\<And>x y. key x \<le> key y \<Longrightarrow> R (f x) (f y)"
  shows "sorted_wrt R (map f (sort_key key xs))"
proof -
  have "sorted_wrt (\<lambda>x y. key x \<le> key y) (sort_key key xs)" using sorted_sort_key [of key xs] by (simp add: sorted_map)
  then show ?thesis unfolding sorted_wrt_map by (rule sorted_wrt_mono_rel [rotated]) (simp add: assms)
qed

lemma hits_newest_first:
  assumes "sq_by_date q" and "sql \<noteq> SEARCH_RANK_SQL"
  shows "sorted_wrt not_older (all_hits pg feeds rows sql q)"
proof (cases sql)
  case SEARCH_DATE_SQL
  then show ?thesis
    by (auto simp: all_hits_def date_hits_def not_older_def listing_key_def less_eq_prod_def less_prod_def
        intro!: sort_key_wrt split: option.splits)
next
  case TRGM_FALLBACK_SQL
  then show ?thesis using assms(1)
    by (auto simp: all_hits_def trgm_hits_def trgm_key_def not_older_def less_eq_prod_def less_prod_def
        intro!: sort_key_wrt split: option.splits)
qed (use assms(2) in simp)

lemma hits_best_first:
  assumes "\<not> sq_by_date q" and "sql \<noteq> SEARCH_DATE_SQL"
  shows "sorted_wrt ranked (all_hits pg feeds rows sql q)"
proof (cases sql)
  case SEARCH_RANK_SQL
  then show ?thesis
    by (auto simp: all_hits_def rank_hits_def ranked_def less_eq_prod_def less_prod_def intro!: sort_key_wrt)
next
  case TRGM_FALLBACK_SQL
  then show ?thesis using assms(1)
    by (auto simp: all_hits_def trgm_hits_def trgm_key_def ranked_def less_eq_prod_def less_prod_def intro!: sort_key_wrt)
qed (use assms(2) in simp)

text \<open>The statement whose rows a search answers: the fuzzy one when a short query has no full-text hit.\<close>

definition answering_sql :: "('v, 'q) pg_env \<Rightarrow> feed list \<Rightarrow> 'v indexed list \<Rightarrow> search_sort \<Rightarrow> search_query \<Rightarrow> search_sql" where
  "answering_sql pg feeds rows srt q =
     (if filter (text_where pg feeds q) rows = [] \<and> length (sq_query q) \<le> 24 then TRGM_FALLBACK_SQL
      else if srt = SortDate then SEARCH_DATE_SQL else SEARCH_RANK_SQL)"

definition shown_hit :: "html_env \<Rightarrow> search_sql \<Rightarrow> search_hit \<Rightarrow> search_hit" where
  "shown_hit he sql h = (if sql = TRGM_FALLBACK_SQL then h else h\<lparr>sh_highlight := render_highlight he (sh_highlight h)\<rparr>)"

lemma shown_hit_sel [simp]:
  "sh_id (shown_hit he sql h) = sh_id h" "sh_published_at (shown_hit he sql h) = sh_published_at h"
  "sh_rank (shown_hit he sql h) = sh_rank h"
  by (simp_all add: shown_hit_def)

lemma shown_hit_order [simp]:
  "not_older (shown_hit he sql x) (shown_hit he sql y) = not_older x y"
  "ranked (shown_hit he sql x) (shown_hit he sql y) = ranked x y"
  by (simp_all add: not_older_def ranked_def cong: option.case_cong)

lemma text_hits_Nil:
  "sql \<noteq> TRGM_FALLBACK_SQL \<Longrightarrow> all_hits pg feeds rows sql q = [] \<longleftrightarrow> filter (text_where pg feeds q) rows = []"
  by (cases sql) (simp_all add: all_hits_def rank_hits_def date_hits_def flip: set_empty)

lemma all_results_hits:
  "all_results he (all_hits pg feeds rows) srt q
    = map (shown_hit he (answering_sql pg feeds rows srt q)) (all_hits pg feeds rows (answering_sql pg feeds rows srt q) q)"
  unfolding all_results_def Let_def answering_sql_def shown_hit_def by (simp add: text_hits_Nil)

lemma answers_order:
  assumes "sq_by_date q = (srt = SortDate)"
  shows "sorted_wrt (if srt = SortDate then not_older else ranked) (all_results he (all_hits pg feeds rows) srt q)"
proof (cases "srt = SortDate")
  case True
  then have "answering_sql pg feeds rows srt q \<noteq> SEARCH_RANK_SQL" by (simp add: answering_sql_def)
  then show ?thesis using True assms hits_newest_first by (simp add: all_results_hits sorted_wrt_map)
next
  case False
  then have "answering_sql pg feeds rows srt q \<noteq> SEARCH_DATE_SQL" by (simp add: answering_sql_def)
  then show ?thesis using False assms hits_best_first by (simp add: all_results_hits sorted_wrt_map)
qed

text \<open>C13: A search whose parameters pass validation and name a query answers one page of one result list, and the list
  depends on the query and not on the page.  The list has no article twice.  Its articles are exactly the live articles
  of live feeds, in the asked feeds and date range, that match the query by their text vector; or, when there is none and the
  query has at most 24 characters, those whose title is similar to it.  It is in the asked order: newest first with
  the undated last, or by descending rank.\<close>

theorem search_answers:
  fixes pg :: "('v, 'q) pg_env"
  assumes "validate_params te p = Inr a" and "sa_q a \<noteq> []" and "distinct (map (a_id \<circ> fst) rows)"
  shows "let q = base_query te (sa_q a) (sa_lang a) (sa_sort a) (sa_feed a) (sa_from a) (sa_to a);
             results = all_results he (all_hits pg feeds rows) (sa_sort a) q;
             shown = window (sa_limit a) (sa_offset a) results
         in search_view te he (fetch_sql pg feeds rows) p = Inr (int (length shown), shown)
            \<and> distinct (map sh_id results)
            \<and> sh_id ` set results
                = (a_id \<circ> fst) ` {r \<in> set rows. live_row feeds (fst r) \<and> in_scope q (fst r)
                     \<and> (if filter (text_where pg feeds q) rows = [] \<and> length (sa_q a) \<le> 24
                        then similar pg (a_title (fst r)) (sa_q a) \<or> word_similar pg (a_title (fst r)) (sa_q a)
                        else ts_match pg (snd r) (tsq pg q))}
            \<and> sorted_wrt (if sa_sort a = SortDate then not_older else ranked) results"
proof -
  define q where "q = base_query te (sa_q a) (sa_lang a) (sa_sort a) (sa_feed a) (sa_from a) (sa_to a)"
  define results where "results = all_results he (all_hits pg feeds rows) (sa_sort a) q"
  define sql where "sql = answering_sql pg feeds rows (sa_sort a) q"
  have q: "sq_query q = sa_q a" "sq_by_date q = (sa_sort a = SortDate)" by (simp_all add: q_def base_query_def)
  have ids: "map sh_id results = map sh_id (all_hits pg feeds rows sql q)"
    by (simp add: results_def sql_def all_results_hits)
  have view: "search_view te he (fetch_sql pg feeds rows) p
    = Inr (int (length (window (sa_limit a) (sa_offset a) results)), window (sa_limit a) (sa_offset a) results)"
    using sql.search_view_window [OF assms(1,2)] validated_params_bounds [OF assms(1)] by (simp add: Let_def results_def q_def)
  have "distinct (map sh_id results)" unfolding ids by (rule hits_distinct [OF assms(3)])
  moreover have "sh_id ` set results = (a_id \<circ> fst) ` {r \<in> set rows. hit_where pg feeds sql q r}"
    using arg_cong [OF ids, of set] by (simp add: hits_set)
  moreover have "hit_where pg feeds sql q r \<longleftrightarrow> live_row feeds (fst r) \<and> in_scope q (fst r)
        \<and> (if filter (text_where pg feeds q) rows = [] \<and> length (sa_q a) \<le> 24
           then similar pg (a_title (fst r)) (sa_q a) \<or> word_similar pg (a_title (fst r)) (sa_q a)
           else ts_match pg (snd r) (tsq pg q))" for r
    by (auto simp: hit_where_def sql_def answering_sql_def q trgm_where_def text_where_def)
  moreover have "sorted_wrt (if sa_sort a = SortDate then not_older else ranked) results"
    unfolding results_def by (rule answers_order [OF q(2)])
  ultimately show ?thesis using view unfolding Let_def q_def [symmetric] results_def [symmetric] by simp
qed

text \<open>A toy text search: a text is its own vector, and a query matches a vector that has it as a word.\<close>

definition pg_words :: "(ustr, ustr) pg_env" where
  "pg_words = \<lparr>unaccent = py_lower te_ascii, to_tsvector = (\<lambda>_ s. s), setweight = (\<lambda>v _. v), tsv_concat = (\<lambda>v w. v @ 32 # w),
     websearch_to_tsquery = (\<lambda>_ s. s), tsq_or = (\<lambda>x _. x), ts_match = (\<lambda>v q. q \<in> set (split_on 32 v)), ts_rank_cd = (\<lambda>_ _ _. 0),
     ts_headline = (\<lambda>_ s _ _. s), similarity = (\<lambda>_ _. 0), word_similarity = (\<lambda>_ _. 0), similar = (\<lambda>_ _. False),
     word_similar = (\<lambda>_ _. False)\<rparr>"

definition search_rust :: search_params where
  "search_rust = \<lparr>sp_q = Some (lit '' Rust ''), sp_lang = None, sp_sort = Some (lit ''date''), sp_feed = [], sp_limit = None,
     sp_offset = None, sp_from = None, sp_to = None\<rparr>"

theorem search_answers_witness:
  "\<exists>rows. search_view te_ascii he_example (fetch_sql pg_words [default_feed 0 2] [(article_rust, tsv_update pg_words article_rust)])
     search_rust = Inr (1, rows) \<and> map sh_id rows = [5]"
proof -
  let ?row = "(article_rust, tsv_update pg_words article_rust)"
  let ?a = "\<lparr>sa_q = lit ''Rust'', sa_lang = None, sa_sort = SortDate, sa_feed = [], sa_limit = 20, sa_offset = 0,
       sa_from = None, sa_to = None\<rparr>"
  let ?q = "base_query te_ascii (lit ''Rust'') None SortDate [] None None"
  let ?res = "all_results he_example (all_hits pg_words [default_feed 0 2] [?row]) SortDate ?q"
  have a: "validate_params te_ascii search_rust = Inr ?a" by code_simp
  have "text_where pg_words [default_feed 0 2] ?q ?row" by code_simp
  then have hit: "text_where pg_words [default_feed 0 2] ?q ?row" "live_row [default_feed 0 2] article_rust" "in_scope ?q article_rust"
    "ts_match pg_words (snd ?row) (tsq pg_words ?q)" by (simp_all add: text_where_def)
  have "lit ''Rust'' \<noteq> []" by (simp add: lit_def)
  then have view: "search_view te_ascii he_example (fetch_sql pg_words [default_feed 0 2] [?row]) search_rust
      = Inr (int (length (window 20 0 ?res)), window 20 0 ?res)"
    and ids: "distinct (map sh_id ?res)" "sh_id ` set ?res = {5}"
    using search_answers [OF a, of "[?row]" he_example pg_words "[default_feed 0 2]"] hit
    by (simp_all add: Let_def article_rust_def cong: conj_cong)
  have "length ?res = card (sh_id ` set ?res)" using ids(1) distinct_card by fastforce
  then have "length ?res = 1" using ids(2) by simp
  then obtain h where "?res = [h]" by (cases ?res) auto
  with ids(2) view show ?thesis by (auto simp: window_def)
qed

section \<open>The snippet has no markup of its own\<close>

lemma replace_pair_set: "set (replace_pair x y s) \<subseteq> insert y (set s)"
  by (induction x y s rule: replace_pair.induct) auto

lemma translate_char_safe: "c \<in> set (translate_char d) \<Longrightarrow> c \<noteq> 60 \<and> c \<noteq> 62 \<and> \<not> is_mark c"
  by (auto simp: translate_char_def is_mark_def MARK_START_def MARK_STOP_def split: if_splits)

text \<open>The text given to \<^verbatim>\<open>ts_headline\<close> has no angle bracket and neither of the two mark characters, whatever the summary
  holds and whatever \<^verbatim>\<open>unaccent\<close> makes of it: the marks of a snippet are those that \<^verbatim>\<open>ts_headline\<close> puts there.\<close>

theorem headline_text_safe: "set (headline_text pg summary) \<inter> {60, 62, MARK_START, MARK_STOP} = {}"
proof -
  let ?t = "concat (map translate_char (unaccent pg (strip_tags (slice_to 2000 summary))))"
  have t: "c \<noteq> 60 \<and> c \<noteq> 62 \<and> \<not> is_mark c" if "c \<in> set ?t" for c using that translate_char_safe by auto
  have "set (headline_text pg summary) \<subseteq> insert 0xBB (insert 0xAB (set ?t))"
    unfolding headline_text_def by (meson replace_pair_set order_trans insert_mono)
  moreover have "insert 0xBB (insert 0xAB (set ?t)) \<inter> {60, 62, MARK_START, MARK_STOP} = {}"
    using t [of 60] t [of 62] t [of MARK_START] t [of MARK_STOP] by (auto simp: is_mark_def MARK_START_def MARK_STOP_def simp del: set_concat)
  ultimately show ?thesis by blast
qed

end
