(* ===== verification/Search_Index.thy ===== *)
theory Search_Index
  imports Search_Sql Article_Pipeline Scheduler
begin

text \<open>
  The text vectors of the article table and the trigger that keeps them: \<^verbatim>\<open>articles_tsv_trg\<close> of the migrations
  0001, 0006 and 0007 of the articles application, under every statement the program runs on the table.
\<close>

section \<open>The trigger\<close>

text \<open>The columns that the statements of the program set.\<close>

datatype art_column =
    ACanonicalUrl | AUrl | ATitle | ASummary | ABody | AAuthor | ALanguage | AContentHash | APublishedAt
  | ALastSeenAt | AProcessedAt | AIsDeleted

text \<open>
  \<^verbatim>\<open>BEFORE INSERT OR UPDATE OF title, summary, body, language\<close>: PostgreSQL runs the trigger for each row of an
  \<^verbatim>\<open>INSERT\<close>, and for each row that an \<^verbatim>\<open>UPDATE\<close> hits if its \<^verbatim>\<open>SET\<close> list names one of the columns.
\<close>

definition TRIGGER_COLUMNS :: "art_column list" where
  "TRIGGER_COLUMNS = [ATitle, ASummary, ABody, ALanguage]"

definition fires :: "art_column list \<Rightarrow> bool" where
  "fires set_list \<longleftrightarrow> list_ex (\<lambda>c. c \<in> set TRIGGER_COLUMNS) set_list"

text \<open>The vectors after a statement that leaves the rows \<open>new\<close>: \<open>set_list\<close> are the columns it sets, \<open>hit\<close>
  tells which of the old rows it updates; a row that was not there before is an inserted one.\<close>

definition tsv_trigger :: "('v, 'q) pg_env \<Rightarrow> art_column list \<Rightarrow> (article \<Rightarrow> bool) \<Rightarrow> 'v indexed list \<Rightarrow> article list \<Rightarrow> 'v indexed list" where
  "tsv_trigger pg set_list hit old new =
     map (\<lambda>r. case find (\<lambda>(o', _). a_id o' = a_id r) old of
                None \<Rightarrow> (r, tsv_update pg r)
              | Some (o', v) \<Rightarrow> (r, if fires set_list \<and> hit o' then tsv_update pg r else v)) new"

section \<open>The statements of the program\<close>

text \<open>The \<^verbatim>\<open>SET\<close> list of \<^verbatim>\<open>_UPDATE_EDITED\<close>.\<close>

definition EDITED_SET :: "art_column list" where
  "EDITED_SET = [ACanonicalUrl, AUrl, ATitle, ASummary, ABody, AAuthor, ALanguage, AContentHash, APublishedAt, ALastSeenAt]"

text \<open>Each statement with the columns it sets, the rows it updates and the table it leaves; \<^verbatim>\<open>INSERT\<close> and
  \<^verbatim>\<open>DELETE\<close> have no \<^verbatim>\<open>SET\<close> list.\<close>

inductive art_statement :: "art_store \<Rightarrow> art_column list \<Rightarrow> (article \<Rightarrow> bool) \<Rightarrow> art_store \<Rightarrow> bool" where
  insert: "art_statement st [] (\<lambda>_. False) (fst (insert_article now f e st))"
| edit: "art_statement st EDITED_SET (edited f e (art_rows st)) (fst (update_edited now f e st))"
| touch: "art_statement st [ALastSeenAt] (\<lambda>r. find_existing f e (art_rows st) = Some (a_id r)) (fst (touch_existing now f e st))"
| claim: "art_statement st [AProcessedAt] (unclaimed aid) (fst (claim_processing now aid st))"
| release: "art_statement st [AProcessedAt] (\<lambda>r. a_id r = aid) (release_processing aid st)"
| clean: "art_statement st [AIsDeleted] (\<lambda>r. a_id r \<in> set (batch_ids cutoff CLEANUP_BATCH (art_rows st)))
    (st\<lparr>art_rows := fst (cleanup_batch cutoff CLEANUP_BATCH (art_rows st))\<rparr>)"
| cascade: "art_statement st [] (\<lambda>_. False) (drop_feed f st)"

inductive index_step :: "('v, 'q) pg_env \<Rightarrow> art_store \<times> 'v indexed list \<Rightarrow> art_store \<times> 'v indexed list \<Rightarrow> bool" for pg where
  "art_statement st set_list hit st' \<Longrightarrow> index_step pg (st, rows) (st', tsv_trigger pg set_list hit rows (art_rows st'))"

inductive_cases index_stepE: "index_step pg s t"

section \<open>The vectors are those of the current text\<close>

definition text_of :: "article \<Rightarrow> ustr \<times> ustr \<times> ustr \<times> ustr" where
  "text_of a = (a_title a, a_summary a, a_body a, a_language a)"

lemma tsv_update_text: "text_of a = text_of b \<Longrightarrow> tsv_update pg a = tsv_update pg b"
  by (simp add: text_of_def tsv_update_def)

lemma text_of_simps [simp]:
  "text_of (seen_at now r) = text_of r" "text_of (mark_processed now r) = text_of r" "text_of (mark_unprocessed r) = text_of r"
  "text_of (soft_delete r) = text_of r"
  by (simp_all add: text_of_def seen_at_def mark_processed_def mark_unprocessed_def soft_delete_def)

text \<open>What every statement does to a row that was there before.\<close>

definition row_kept :: "bool \<Rightarrow> (article \<Rightarrow> bool) \<Rightarrow> article \<Rightarrow> article \<Rightarrow> bool" where
  "row_kept sets_text hit r r' \<longleftrightarrow> a_id r' = a_id r \<and> (sets_text \<and> hit r \<or> text_of r' = text_of r)"

lemma row_kept_refl [simp]: "row_kept sets_text hit r r"
  by (simp add: row_kept_def)

lemma update_kept:
  assumes "\<And>r. row_kept sets_text hit r (g r) \<or> \<not> p r" and "r' \<in> set (update_where p g rows)"
  shows "\<exists>r \<in> set rows. row_kept sets_text hit r r'"
  using assms by (auto simp: set_update_where) (metis row_kept_refl)+

lemma statement_rows:
  assumes "art_statement st set_list hit st'" and "store_ok st" and "r' \<in> set (art_rows st')"
  shows "(\<exists>r \<in> set (art_rows st). row_kept (fires set_list) hit r r') \<or> (\<forall>r \<in> set (art_rows st). a_id r \<noteq> a_id r')"
  using assms
proof (induction rule: art_statement.induct)
  case (insert st now f e)
  then have "r' \<in> set (art_rows st) \<or> a_id r' = art_next st"
    by (auto simp: insert_article_def Let_def new_article_def split: if_splits)
  then show ?case using insert.prems(1) row_kept_refl by (fastforce simp: store_ok_def list_all_iff)
next
  case (edit st f e now)
  have "row_kept (fires EDITED_SET) (edited f e (art_rows st)) r (edit_row now e r) \<or> \<not> edited f e (art_rows st) r" for r
    by (auto simp: row_kept_def fires_def EDITED_SET_def TRIGGER_COLUMNS_def)
  from update_kept [OF this] edit.prems show ?case by (simp add: update_edited_eq)
next
  case (touch st f e now)
  have "row_kept b h r (seen_at now r) \<or> \<not> p r" for b h p r by (simp add: row_kept_def)
  from update_kept [OF this] touch.prems(2) show ?case
    by (auto simp: touch_existing_def split: option.splits intro: row_kept_refl)
next
  case (claim st aid now)
  have "row_kept b h r (mark_processed now r) \<or> \<not> p r" for b h p r by (simp add: row_kept_def)
  from update_kept [OF this] claim.prems(2) show ?case by (simp add: claim_processing_def)
next
  case (release st aid)
  have "row_kept b h r (mark_unprocessed r) \<or> \<not> p r" for b h p r by (simp add: row_kept_def)
  from update_kept [OF this] release.prems(2) show ?case by (simp add: release_processing_def)
next
  case (clean st cutoff)
  have "row_kept b h r (soft_delete r) \<or> \<not> p r" for b h p r by (simp add: row_kept_def) (simp add: soft_delete_def)
  from update_kept [OF this] clean.prems(2) show ?case by (simp add: cleanup_batch_def Let_def)
next
  case (cascade st f)
  then show ?case using row_kept_refl by (fastforce simp: drop_feed_def)
qed

lemma statement_ok: "art_statement st set_list hit st' \<Longrightarrow> store_ok st \<Longrightarrow> store_ok st'"
proof (induction rule: art_statement.induct)
  case (clean st cutoff)
  have "id_key (soft_delete r) = id_key r" "guid_key (soft_delete r) = guid_key r" "hash_key (soft_delete r) = hash_key r"
    "a_id (soft_delete r) = a_id r" for r
    by (simp_all add: id_key_def guid_key_def hash_key_def soft_delete_def)
  then show ?case using clean
    by (simp add: store_ok_def cleanup_batch_def Let_def uniq_def keys_of_update_where below_kept)
next
  case (cascade st f)
  then show ?case by (auto simp: store_ok_def drop_feed_def uniq_filter list_all_iff)
qed (simp_all add: statements_ok)

definition vector_current :: "('v, 'q) pg_env \<Rightarrow> 'v indexed \<Rightarrow> bool" where
  "vector_current pg r \<longleftrightarrow> snd r = tsv_update pg (fst r)"

definition index_inv :: "('v, 'q) pg_env \<Rightarrow> art_store \<times> 'v indexed list \<Rightarrow> bool" where
  "index_inv pg s \<longleftrightarrow> store_ok (fst s) \<and> map fst (snd s) = art_rows (fst s) \<and> (\<forall>r \<in> set (snd s). vector_current pg r)"

text \<open>The row a statement makes of an old one gets the vector of its text.\<close>

lemma trigger_vectors:
  assumes "\<forall>r \<in> set rows. vector_current pg r" and "uniq id_key (map fst rows)"
    and "(\<exists>r \<in> set (map fst rows). row_kept (fires set_list) hit r r') \<or> (\<forall>r \<in> set (map fst rows). a_id r \<noteq> a_id r')"
  shows "vector_current pg (case find (\<lambda>(o', _). a_id o' = a_id r') rows of
                None \<Rightarrow> (r', tsv_update pg r')
              | Some (o', v) \<Rightarrow> (r', if fires set_list \<and> hit o' then tsv_update pg r' else v))"
proof (cases "find (\<lambda>(o', _). a_id o' = a_id r') rows")
  case (Some p)
  then obtain o' v where p: "p = (o', v)" "(o', v) \<in> set rows" "a_id o' = a_id r'" by (cases p) (auto simp: find_Some_iff dest: nth_mem)
  then have mem: "o' \<in> set (map fst rows)" by force
  with assms(3) p(3) obtain r where r: "r \<in> set (map fst rows)" "row_kept (fires set_list) hit r r'" by blast
  have "r = o'" by (rule uniq_idD [OF assms(2) r(1) mem]) (use r(2) p(3) in \<open>simp add: row_kept_def\<close>)
  moreover have "v = tsv_update pg o'" using assms(1) p(2) by (auto simp: vector_current_def)
  ultimately have "fires set_list \<and> hit o' \<or> v = tsv_update pg r'"
    using r(2) tsv_update_text [of r' o' pg] by (auto simp: row_kept_def)
  then show ?thesis using Some p(1) by (auto simp: vector_current_def)
qed (simp add: vector_current_def)

lemma trigger_rows: "map fst (tsv_trigger pg set_list hit rows new) = new"
  by (simp add: tsv_trigger_def comp_def split: option.splits prod.splits)
    (induction new, auto split: option.splits prod.splits)

interpretation idx: inductive_invariant "index_step pg" "index_inv pg" for pg
proof
  fix s t
  assume "index_step pg s t" and inv: "index_inv pg s"
  then obtain st set_list hit st' rows where s: "s = (st, rows)" "t = (st', tsv_trigger pg set_list hit rows (art_rows st'))"
    and stmt: "art_statement st set_list hit st'" by (elim index_stepE) simp
  have old: "store_ok st" "map fst rows = art_rows st" "\<forall>r \<in> set rows. vector_current pg r" using inv s by (simp_all add: index_inv_def)
  have "vector_current pg r" if "r \<in> set (tsv_trigger pg set_list hit rows (art_rows st'))" for r
    using that trigger_vectors [OF old(3)] statement_rows [OF stmt old(1)] old(1,2)
    by (auto simp: tsv_trigger_def store_ok_def)
  then show "index_inv pg t" using statement_ok [OF stmt old(1)] by (simp add: s index_inv_def trigger_rows)
qed

text \<open>C14: Through any sequence of the statements the program runs on the article table - inserts, edits, touches, claims,
  releases, the clean-up of old articles, the deletion of a feed - the search index is complete and current: there is one
  text vector per row of the table, and it is the vector of the title, summary, body and language the row has now.\<close>

theorem search_index_current:
  assumes "reachable_from (index_step pg) (empty_store, []) (st, rows)"
  shows "store_ok st \<and> rows = map (\<lambda>a. (a, tsv_update pg a)) (art_rows st)"
proof -
  have "index_inv pg (st, rows)"
    by (rule idx.reachable_inv [OF assms]) (use empty_store_ok in \<open>simp add: index_inv_def empty_store_def\<close>)
  then have "store_ok st" "map fst rows = art_rows st" "\<forall>r \<in> set rows. vector_current pg r" by (simp_all add: index_inv_def)
  then show ?thesis by (auto simp: vector_current_def comp_def prod_eq_iff simp flip: \<open>map fst rows = art_rows st\<close> intro!: map_idI [symmetric])
qed

theorem search_index_current_witness:
  "\<exists>st rows. reachable_from (index_step pg_words) (empty_store, []) (st, rows)
     \<and> rows = [(new_article 9 1 7 entry_example, tsv_update pg_words (new_article 9 1 7 entry_example))]"
proof -
  let ?st = "fst (insert_article 9 7 entry_example empty_store)"
  let ?rows = "tsv_trigger pg_words [] (\<lambda>_. False) [] (art_rows ?st)"
  have "index_step pg_words (empty_store, []) (?st, ?rows)" by (intro index_step.intros art_statement.insert)
  then have run: "reachable_from (index_step pg_words) (empty_store, []) (?st, ?rows)"
    by (meson reachable_from.intros)
  have "art_rows ?st = [new_article 9 1 7 entry_example]" by code_simp
  with search_index_current [OF run] show ?thesis using run by (intro exI [of _ ?st] exI [of _ ?rows]) simp
qed

end
