(* ===== verification/Migrations.thy ===== *)
theory Migrations
  imports Feed_Api Subscription_Rules
begin

text \<open>
  The data migrations: \<^verbatim>\<open>feeds/migrations/0004_canonical_feed_urls.py\<close> and the subscription
  migrations 0003, 0005 and 0006.  Each loop runs over the rows as they were read and updates the table by primary key.
  \<^verbatim>\<open>secrets.token_urlsafe\<close> is a parameter.
\<close>

section \<open>Canonical feed URLs\<close>

definition DEFAULT_PORTS :: "ustr \<Rightarrow> int option" where
  "DEFAULT_PORTS scheme = (if scheme = lit ''http'' then Some 80 else if scheme = lit ''https'' then Some 443 else None)"

definition migrated_host :: "text_env \<Rightarrow> split_result \<Rightarrow> ustr option" where
  "migrated_host te parts =
     (let host = py_lower te (rstrip_by (\<lambda>c. c = of_char CHR ''.'') (hostname te parts))
      in if isascii host then Some host else idna_encode te host)"

definition canonical :: "text_env \<Rightarrow> ustr \<Rightarrow> ustr option" where
  "canonical te url =
     (case urlsplit te (strip url) of None \<Rightarrow> None
      | Some parts \<Rightarrow>
          (case port_of parts of None \<Rightarrow> None
           | Some port \<Rightarrow>
               (case migrated_host te parts of None \<Rightarrow> None
                | Some host \<Rightarrow>
                    if host = [] then None
                    else let netloc = (if of_char CHR '':'' \<in> set host then lit ''['' @ host @ lit '']'' else host);
                             scheme = py_lower te (sr_scheme parts);
                             netloc' = (case port of None \<Rightarrow> netloc
                               | Some p \<Rightarrow> if Some p \<noteq> DEFAULT_PORTS scheme then netloc @ lit '':'' @ nat_str (nat p) else netloc)
                         in Some (urlunsplit scheme netloc' (if sr_path parts = [] then lit ''/'' else sr_path parts) (sr_query parts) []))))"

definition forward_one :: "text_env \<Rightarrow> feed \<Rightarrow> feed list \<Rightarrow> feed list" where
  "forward_one te f rows =
     (case canonical te (f_url f) of None \<Rightarrow> rows
      | Some url \<Rightarrow>
          if url \<noteq> [] \<and> url \<noteq> f_url f \<and> \<not> list_ex (\<lambda>r. f_url r = url) rows
          then update_where (\<lambda>r. f_id r = f_id f) (\<lambda>r. r\<lparr>f_url := url\<rparr>) rows
          else rows)"

definition forwards :: "text_env \<Rightarrow> feed list \<Rightarrow> feed list" where
  "forwards te rows = fold (forward_one te) rows rows"

section \<open>Secrets, delivery marks and target keys\<close>

definition regenerate_secrets :: "(int \<Rightarrow> ustr) \<Rightarrow> subscription list \<Rightarrow> subscription list" where
  "regenerate_secrets token rows =
     update_where (\<lambda>r. s_delivery r \<noteq> WEBHOOK) (\<lambda>r. r\<lparr>s_webhook_secret := None\<rparr>)
       (fold (\<lambda>s. update_where (\<lambda>r. s_id r = s_id s) (\<lambda>r. r\<lparr>s_webhook_secret := Some (token (s_id s))\<rparr>))
          (filter (\<lambda>s. s_delivery s = WEBHOOK) rows) rows)"

definition mark_existing_deliveries :: "delivery_log list \<Rightarrow> delivery_log list" where
  "mark_existing_deliveries logs =
     update_where (\<lambda>l. dl_error l = None \<and> (case dl_http_status l of None \<Rightarrow> False | Some c \<Rightarrow> 200 \<le> c \<and> c < 300))
       (\<lambda>l. l\<lparr>dl_succeeded := True\<rparr>) logs"

fun backfill_loop :: "text_env \<Rightarrow> subscription list \<Rightarrow> subscription list \<Rightarrow> http_exn + subscription list" where
  "backfill_loop te [] rows = Inr rows"
| "backfill_loop te (s # subs) rows =
     (let target = (if s_delivery s = EMAIL then s_email_to s else s_webhook_url s)
      in ebind (target_key te (s_delivery s) target) (\<lambda>key.
           backfill_loop te subs (update_where (\<lambda>r. s_id r = s_id s) (\<lambda>r. r\<lparr>s_target_key := key\<rparr>) rows)))"

definition backfill :: "text_env \<Rightarrow> subscription list \<Rightarrow> http_exn + subscription list" where
  "backfill te rows = backfill_loop te rows rows"

section \<open>The migration spells URLs as the API does\<close>

lemma DEFAULT_PORTS_eq: "DEFAULT_PORTS = ALLOWED_PORTS"
  by (rule ext) (simp add: DEFAULT_PORTS_def ALLOWED_PORTS_def)

lemma migrated_host_eq:
  assumes "\<And>h. idna_encode te h \<noteq> Some []"
  shows "(migrated_host te parts = Some h \<and> h \<noteq> []) \<longleftrightarrow> ascii_host te (hostname te parts) = Inr h"
  using assms by (auto simp: migrated_host_def ascii_host_def Let_def isascii_def split: option.splits)

text \<open>C30: The migration's own copy of the URL normalisation agrees with \<^verbatim>\<open>safe_http.canonical_url\<close>, which the API
  applies to new feeds: it gives a URL exactly when that function returns it, and nothing when that function
  refuses.\<close>

theorem migration_canonical_agrees:
  assumes "\<forall>h. idna_encode te h \<noteq> Some []"
  shows "canonical te url = Some u \<longleftrightarrow> canonical_url te url = Inr u"
proof -
  note host = migrated_host_eq [of te, OF assms [rule_format]]
  show ?thesis
  proof (cases "urlsplit te (strip url)")
    case None
    then show ?thesis by (simp add: canonical_def canonical_url_def split_and_port_def)
  next
    case (Some parts)
    show ?thesis
    proof (cases "port_of parts")
      case None
      with Some show ?thesis by (simp add: canonical_def canonical_url_def split_and_port_def)
    next
      case port: (Some port)
      show ?thesis
      proof (cases "ascii_host te (hostname te parts)")
        case (Inl e)
        then have "\<not> (migrated_host te parts = Some h \<and> h \<noteq> [])" for h using host [of parts h] by simp
        then show ?thesis using Some port Inl
          by (auto simp: canonical_def canonical_url_def split_and_port_def split: option.split)
      next
        case (Inr h)
        then have "migrated_host te parts = Some h \<and> h \<noteq> []" using host [of parts h] by simp
        then show ?thesis using Some port Inr
          unfolding canonical_def canonical_url_def split_and_port_def bracket_host_def DEFAULT_PORTS_eq Let_def by simp
      qed
    qed
  qed
qed

theorem migration_canonical_agrees_witness:
  "(\<forall>h. idna_encode te_ascii h \<noteq> Some []) \<and> canonical te_ascii (lit ''HTTPS://Example.ORG.:443'') = Some (lit ''https://example.org/'')
   \<and> canonical_url te_ascii (lit ''HTTPS://Example.ORG.:443'') = Inr (lit ''https://example.org/'')"
proof -
  have env: "\<forall>h. idna_encode te_ascii h \<noteq> Some []" by (simp add: te_ascii_def)
  have "canonical te_ascii (lit ''HTTPS://Example.ORG.:443'') = Some (lit ''https://example.org/'')" by code_simp
  then show ?thesis using env migration_canonical_agrees [OF env] by simp
qed

section \<open>The migrated feed table\<close>

lemma feeds_ok_iff: "feeds_ok rows \<longleftrightarrow> distinct (map f_id rows) \<and> distinct (map f_url rows)"
proof -
  have "keys_of feed_id_key rs = map f_id rs" "keys_of feed_url_key rs = map f_url rs" for rs
    by (induction rs) (simp_all add: feed_id_key_def feed_url_key_def)
  then show ?thesis by (simp add: feeds_ok_def uniq_def)
qed

lemma ids_forward_one: "map (\<lambda>f. f\<lparr>f_url := []\<rparr>) (forward_one te f rows) = map (\<lambda>f. f\<lparr>f_url := []\<rparr>) rows"
  by (auto simp: forward_one_def intro!: map_update_where split: option.split)

lemma ids_of_columns: "map f_id rows = map f_id (map (\<lambda>f. f\<lparr>f_url := []\<rparr>) rows)"
  by simp

lemma distinct_url_update:
  assumes "distinct (map f_id rows)" and "distinct (map f_url rows)" and "u \<notin> f_url ` set rows"
  shows "distinct (map f_url (update_where (\<lambda>r. f_id r = i) (\<lambda>r. r\<lparr>f_url := u\<rparr>) rows))"
  using assms
proof (induction rows)
  case (Cons a rows)
  have urls: "f_url ` set (update_where (\<lambda>r. f_id r = i) (\<lambda>r. r\<lparr>f_url := u\<rparr>) rows) \<subseteq> insert u (f_url ` set rows)"
    by (auto simp: set_update_where)
  show ?case
  proof (cases "f_id a = i")
    case True
    then have "update_where (\<lambda>r. f_id r = i) (\<lambda>r. r\<lparr>f_url := u\<rparr>) rows = rows"
      using Cons.prems(1) by (intro update_where_none) (metis distinct.simps(2) image_eqI list.set_map list.simps(9))
    then show ?thesis using True Cons.prems by simp
  next
    case False
    then show ?thesis using urls Cons by auto
  qed
qed simp

lemma forward_one_ok: "feeds_ok rows \<Longrightarrow> feeds_ok (forward_one te f rows)"
proof -
  assume ok: "feeds_ok rows"
  have "map f_id (forward_one te f rows) = map f_id rows"
    using ids_of_columns [of "forward_one te f rows"] ids_of_columns [of rows] by (simp only: ids_forward_one)
  moreover have "distinct (map f_url (forward_one te f rows))"
    using ok by (auto simp: feeds_ok_iff forward_one_def list_ex_iff split: option.split intro!: distinct_url_update)
  ultimately show ?thesis using ok by (simp add: feeds_ok_iff)
qed

lemma forward_other_row: "f \<in> set rows \<Longrightarrow> f_id f \<noteq> f_id g \<Longrightarrow> f \<in> set (forward_one te g rows)"
  by (force simp: forward_one_def set_update_where image_iff split: option.split)

lemma forward_free_url:
  "u \<notin> f_url ` set rows \<Longrightarrow> canonical te (f_url g) \<noteq> Some u \<Longrightarrow> u \<notin> f_url ` set (forward_one te g rows)"
  by (auto simp: forward_one_def set_update_where split: option.split)

lemma forwards_other_rows:
  assumes "f \<in> set rows" and "f_id f \<notin> f_id ` set gs"
  shows "f \<in> set (fold (forward_one te) gs rows)"
  using assms by (induction gs arbitrary: rows) (simp_all add: forward_other_row)

lemma forwards_free_url:
  assumes "u \<notin> f_url ` set rows" and "\<And>g. g \<in> set gs \<Longrightarrow> canonical te (f_url g) \<noteq> Some u"
  shows "u \<notin> f_url ` set (fold (forward_one te) gs rows)"
  using assms
proof (induction gs arbitrary: rows)
  case (Cons g gs)
  then show ?case using forward_free_url [of u rows te g] by simp
qed simp

lemma urlunsplit_nonempty: "path \<noteq> [] \<Longrightarrow> urlunsplit scheme netloc path query fragment \<noteq> []"
  by (simp add: urlunsplit_def Let_def)

lemma canonical_nonempty: "canonical te url = Some u \<Longrightarrow> u \<noteq> []"
  by (auto simp: canonical_def Let_def urlunsplit_nonempty split: option.splits if_splits)

lemma forward_own_row:
  assumes "f \<in> set rows" and "canonical te (f_url f) = Some u" and "u \<notin> f_url ` set rows"
  shows "f\<lparr>f_url := u\<rparr> \<in> set (forward_one te f rows)"
  using assms canonical_nonempty [OF assms(2)] by (auto simp: forward_one_def set_update_where image_iff list_ex_iff)

lemma forwards_rewrites:
  assumes ids: "distinct (map f_id rows)" and f: "f \<in> set rows" and u: "canonical te (f_url f) = Some u"
    and free: "\<And>g. g \<in> set rows \<Longrightarrow> g \<noteq> f \<Longrightarrow> f_url g \<noteq> u \<and> canonical te (f_url g) \<noteq> Some u"
  shows "f\<lparr>f_url := u\<rparr> \<in> set (forwards te rows)"
proof -
  obtain pre post where rows: "rows = pre @ f # post" using f by (meson split_list)
  have apart: "f_id f \<notin> f_id ` set pre" "f_id f \<notin> f_id ` set post" "f \<notin> set pre" "f \<notin> set post"
    using ids by (auto simp: rows)
  define mid where "mid = fold (forward_one te) pre rows"
  have fwd: "forwards te rows = fold (forward_one te) post (forward_one te f mid)"
    by (simp add: forwards_def rows mid_def)
  have mid: "f \<in> set mid" unfolding mid_def using f apart by (rule_tac forwards_other_rows) auto
  show ?thesis
  proof (cases "f_url f = u")
    case True
    then have "forward_one te f mid = mid" using u by (simp add: forward_one_def)
    then show ?thesis using True mid apart fwd by (auto intro: forwards_other_rows)
  next
    case False
    have "u \<notin> f_url ` set mid" unfolding mid_def
      by (rule forwards_free_url) (use free False apart in \<open>auto simp: rows\<close>)
    then have "f\<lparr>f_url := u\<rparr> \<in> set (forward_one te f mid)" using mid u by (rule_tac forward_own_row)
    then show ?thesis unfolding fwd using apart by (rule_tac forwards_other_rows) auto
  qed
qed

text \<open>The migration keeps the unique index on feed URLs (it never stops with an integrity error), changes no
  other column of any feed, and rewrites a feed whose canonical spelling no other feed has or would get.\<close>

theorem feed_url_migration:
  assumes "feeds_ok rows"
  shows "feeds_ok (forwards te rows)
    \<and> map (\<lambda>f. f\<lparr>f_url := []\<rparr>) (forwards te rows) = map (\<lambda>f. f\<lparr>f_url := []\<rparr>) rows
    \<and> (\<forall>f \<in> set rows. \<forall>u. canonical te (f_url f) = Some u
         \<and> (\<forall>g \<in> set rows. g \<noteq> f \<longrightarrow> f_url g \<noteq> u \<and> canonical te (f_url g) \<noteq> Some u)
         \<longrightarrow> f\<lparr>f_url := u\<rparr> \<in> set (forwards te rows))"
proof -
  have "feeds_ok (fold (forward_one te) gs rs)" if "feeds_ok rs" for gs rs
    using that by (induction gs arbitrary: rs) (simp_all add: forward_one_ok)
  moreover have "map (\<lambda>f. f\<lparr>f_url := []\<rparr>) (fold (forward_one te) gs rs) = map (\<lambda>f. f\<lparr>f_url := []\<rparr>) rs" for gs rs
    by (induction gs arbitrary: rs) (simp_all add: ids_forward_one)
  moreover have "distinct (map f_id rows)" using assms by (simp add: feeds_ok_iff)
  ultimately show ?thesis using assms forwards_rewrites [of rows] unfolding forwards_def by blast
qed

definition feed_shouting :: feed where
  "feed_shouting = (default_feed 0 1)\<lparr>f_url := lit ''HTTP://X.ORG''\<rparr>"

theorem feed_url_migration_witness:
  "feed_shouting\<lparr>f_url := lit ''http://x.org/''\<rparr> \<in> set (forwards te_ascii [feed_shouting])"
proof -
  have "canonical te_ascii (f_url feed_shouting) = Some (lit ''http://x.org/'')" by code_simp
  then show ?thesis using feed_url_migration [of "[feed_shouting]" te_ascii] by (simp add: feeds_ok_iff)
qed

section \<open>The migrated subscriptions\<close>

lemma uniq_sub_ids: "uniq sub_id_key rows \<longleftrightarrow> distinct (map s_id rows)"
proof -
  have "keys_of sub_id_key rs = map s_id rs" for rs by (induction rs) (simp_all add: sub_id_key_def)
  then show ?thesis by (simp add: uniq_def)
qed

text \<open>An update by primary key touches its row only.\<close>

lemma update_own_row:
  assumes "distinct (map s_id (ys @ s # zs))"
  shows "update_where (\<lambda>r. s_id r = s_id s) f (ys @ s # zs) = ys @ f s # zs"
proof -
  have "s_id r \<noteq> s_id s" if "r \<in> set ys \<union> set zs" for r
    using assms that by (auto simp: disjoint_iff image_iff)
  then have "update_where (\<lambda>r. s_id r = s_id s) f ys = ys" "update_where (\<lambda>r. s_id r = s_id s) f zs = zs"
    by (auto intro: update_where_none)
  then show ?thesis by (simp add: update_where_append)
qed

definition rekeyed :: "text_env \<Rightarrow> subscription \<Rightarrow> subscription \<Rightarrow> bool" where
  "rekeyed te s s' \<longleftrightarrow> (\<exists>key. target_key te (s_delivery s) (sub_target s) = Inr key \<and> s' = s\<lparr>s_target_key := key\<rparr>)"

lemma backfill_loop_rows:
  assumes "distinct (map s_id (ys @ subs))" and "backfill_loop te subs (ys @ subs) = Inr rows"
  shows "\<exists>zs. rows = ys @ zs \<and> list_all2 (rekeyed te) subs zs"
  using assms
proof (induction subs arbitrary: ys)
  case (Cons s subs)
  have target: "(if s_delivery s = EMAIL then s_email_to s else s_webhook_url s) = sub_target s"
    by (cases "s_delivery s") (simp_all add: sub_target_def)
  obtain key where key: "target_key te (s_delivery s) (sub_target s) = Inr key"
    and rest: "backfill_loop te subs (ys @ s\<lparr>s_target_key := key\<rparr> # subs) = Inr rows"
    using Cons.prems(2) update_own_row [OF Cons.prems(1)] by (auto simp: target ebind_Inr_iff Let_def)
  have "\<exists>zs. rows = (ys @ [s\<lparr>s_target_key := key\<rparr>]) @ zs \<and> list_all2 (rekeyed te) subs zs"
    by (rule Cons.IH) (use Cons.prems(1) rest in simp_all)
  moreover have "rekeyed te s (s\<lparr>s_target_key := key\<rparr>)" using key by (auto simp: rekeyed_def)
  ultimately show ?case by auto
qed simp

definition reissued :: "(int \<Rightarrow> ustr) \<Rightarrow> subscription \<Rightarrow> subscription" where
  "reissued token s = s\<lparr>s_webhook_secret := (if s_delivery s = WEBHOOK then Some (token (s_id s)) else None)\<rparr>"

lemma secrets_loop:
  assumes "distinct (map s_id rows)" and "distinct (map s_id subs)"
  shows "fold (\<lambda>s. update_where (\<lambda>r. s_id r = s_id s) (\<lambda>r. r\<lparr>s_webhook_secret := Some (token (s_id s))\<rparr>)) subs rows
    = map (\<lambda>r. if s_id r \<in> s_id ` set subs then r\<lparr>s_webhook_secret := Some (token (s_id r))\<rparr> else r) rows"
  using assms(2)
proof (induction subs rule: rev_induct)
  case (snoc s subs)
  then show ?case by (auto simp: update_where_def)
qed simp

lemma regenerate_secrets_eq:
  assumes "distinct (map s_id rows)"
  shows "regenerate_secrets token rows = map (reissued token) rows"
proof -
  let ?subs = "filter (\<lambda>s. s_delivery s = WEBHOOK) rows"
  have "s_id r \<in> s_id ` set ?subs \<longleftrightarrow> s_delivery r = WEBHOOK" if "r \<in> set rows" for r
    using assms that by (auto simp: image_iff distinct_map dest: inj_onD)
  then show ?thesis
    using secrets_loop [OF assms, of ?subs token] assms
    by (auto simp: regenerate_secrets_def update_where_def reissued_def distinct_map_filter)
qed

text \<open>C33: The subscription migrations, row by row, when none of them raises: every webhook subscription
  ends with the secret freshly issued for it, whatever it had before, and no other subscription with one;
  every row has the key of its own target; no other column changes.  So a row with a target, which these
  migrations do not give it, ends in the state that the API later relies on (the key of its target, and a
  secret exactly when it needs one), provided the issued tokens are not empty.\<close>

theorem subscription_migrations_establish_rows:
  assumes "uniq sub_id_key rows" and "backfill te (regenerate_secrets token rows) = Inr rows'"
  shows "list_all2 (\<lambda>s s'.
      s_webhook_secret s' = (if s_delivery s = WEBHOOK then Some (token (s_id s)) else None)
      \<and> target_key te (s_delivery s) (sub_target s) = Inr (s_target_key s')
      \<and> s'\<lparr>s_target_key := s_target_key s, s_webhook_secret := s_webhook_secret s\<rparr> = s
      \<and> (truthy (sub_target s) \<and> token (s_id s) \<noteq> [] \<longrightarrow> row_ok te s')) rows rows'"
proof -
  have ids: "distinct (map s_id rows)" using assms(1) by (simp add: uniq_sub_ids)
  let ?R = "map (reissued token) rows"
  have "map s_id ?R = map s_id rows" by (simp add: reissued_def comp_def)
  then have "list_all2 (rekeyed te) ?R rows'"
    using backfill_loop_rows [of "[]" ?R te rows'] ids assms(2)
    by (simp add: backfill_def regenerate_secrets_eq reissued_def comp_def)
  then have "list_all2 (\<lambda>s s'. rekeyed te (reissued token s) s') rows rows'" by (simp add: list_all2_map1)
  then show ?thesis
  proof (rule list.rel_mono_strong)
    fix s s' assume "rekeyed te (reissued token s) s'"
    then show "s_webhook_secret s' = (if s_delivery s = WEBHOOK then Some (token (s_id s)) else None)
      \<and> target_key te (s_delivery s) (sub_target s) = Inr (s_target_key s')
      \<and> s'\<lparr>s_target_key := s_target_key s, s_webhook_secret := s_webhook_secret s\<rparr> = s
      \<and> (truthy (sub_target s) \<and> token (s_id s) \<noteq> [] \<longrightarrow> row_ok te s')"
      by (cases "s_delivery s") (auto simp: rekeyed_def reissued_def row_ok_def sub_target_def truthy_def)
  qed
qed

definition hashed_rows :: "subscription list" where
  "hashed_rows = [(blank_sub 0 1 EMAIL)\<lparr>s_id := 1, s_email_to := Some (lit ''A@x.org'')\<rparr>,
     (blank_sub 0 1 WEBHOOK)\<lparr>s_id := 2, s_webhook_url := Some (lit ''https://x.org/in''), s_webhook_secret := Some (lit ''$argon2id$'')\<rparr>]"

theorem subscription_migrations_establish_rows_witness:
  "\<exists>rows' m h. backfill te_ascii (regenerate_secrets (\<lambda>_. lit ''t'') hashed_rows) = Inr rows' \<and> rows' = [m, h]
     \<and> s_webhook_secret m = None \<and> s_webhook_secret h = Some (lit ''t'') \<and> row_ok te_ascii m \<and> row_ok te_ascii h"
proof -
  have "case backfill te_ascii (regenerate_secrets (\<lambda>_. lit ''t'') hashed_rows) of Inl _ \<Rightarrow> False | Inr _ \<Rightarrow> True" by code_simp
  then obtain rows' where b: "backfill te_ascii (regenerate_secrets (\<lambda>_. lit ''t'') hashed_rows) = Inr rows'"
    by (auto split: sum.splits)
  moreover have "uniq sub_id_key hashed_rows" by (simp add: uniq_sub_ids hashed_rows_def)
  ultimately show ?thesis
    using subscription_migrations_establish_rows [OF _ b]
    by (auto simp: hashed_rows_def list_all2_Cons1 sub_target_def truthy_def blank_sub_def lit_def)
qed

end
