(* ===== verification/Article_Migrations.thy ===== *)
theory Article_Migrations
  imports Article_Store Json
begin

text \<open>
  The data statements of the article migrations: \<^verbatim>\<open>0005_processed_at_and_listing_indexes.py\<close> and
  \<^verbatim>\<open>0006_trigger_search_path_and_full_hash.py\<close>.  PostgreSQL checks the unique index on the hash each time it has
  updated a row, in an order it chooses; here in that of the table.  An update that fails leaves the table as it was.
\<close>

section \<open>The statements\<close>

definition mark_existing_processed :: "article list \<Rightarrow> article list" where
  "mark_existing_processed rows = map (\<lambda>r. r\<lparr>a_processed_at := Some (a_created_at r)\<rparr>) rows"

text \<open>\<^verbatim>\<open>btrim(s, E' \t\n\r\x0b\x0c')\<close>.\<close>

definition sql_blank :: "int \<Rightarrow> bool" where
  "sql_blank c \<longleftrightarrow> c \<in> {32, 9, 10, 13, 11, 12}"

definition rehash_row :: "html_env \<Rightarrow> article \<Rightarrow> article" where
  "rehash_row he r =
     r\<lparr>a_content_hash := sha256_hex he (utf8 (a_canonical_url r @ [10] @ strip_by sql_blank (a_title r)
         @ [10] @ strip_by sql_blank (if a_body r = [] then a_summary r else a_body r)))\<rparr>"

fun rehash_loop :: "html_env \<Rightarrow> article list \<Rightarrow> article list \<Rightarrow> sql_error + article list" where
  "rehash_loop he [] rows = Inr rows"
| "rehash_loop he (r # todo) rows =
     (if conflicts hash_key (rehash_row he r) (filter (\<lambda>s. a_id s \<noteq> a_id r) rows) then Inl IntegrityError
      else rehash_loop he todo (update_where (\<lambda>s. a_id s = a_id r) (rehash_row he) rows))"

definition rehash :: "html_env \<Rightarrow> article list \<Rightarrow> sql_error + article list" where
  "rehash he rows = rehash_loop he rows rows"

section \<open>Articles from before the claim column\<close>

text \<open>A row that was there when the column \<^verbatim>\<open>processed_at\<close> was added counts as claimed: fetching its entry again
  queues nothing.\<close>

lemma existing_not_queued_again:
  "claim_and_send now broker_up res (st\<lparr>art_rows := mark_existing_processed (art_rows st)\<rparr>)
    = (st\<lparr>art_rows := mark_existing_processed (art_rows st)\<rparr>, [], Processed (article_id res) (inserted res))"
proof -
  have "\<not> unclaimed aid r" if "r \<in> set (mark_existing_processed (art_rows st))" for aid r
    using that by (auto simp: mark_existing_processed_def unclaimed_def)
  then show ?thesis
    by (auto simp: claim_and_send_def claim_processing_def list_ex_iff update_where_none split: bool.splits)
qed

section \<open>The table after the rehash\<close>

lemma rehash_row_simps [simp]:
  "a_id (rehash_row he r) = a_id r" "id_key (rehash_row he r) = id_key r" "guid_key (rehash_row he r) = guid_key r"
  "a_feed (rehash_row he r) = a_feed r"
  by (simp_all add: rehash_row_def id_key_def guid_key_def)

lemma uniq_id_iff: "uniq id_key rows \<longleftrightarrow> distinct (map a_id rows)"
proof -
  have "keys_of id_key rows = map a_id rows" by (induction rows) (simp_all add: id_key_def)
  then show ?thesis by (simp add: uniq_def)
qed

lemma uniq_middle: "uniq key (xs @ r # ys) \<longleftrightarrow> uniq key (xs @ ys) \<and> \<not> conflicts key r (xs @ ys)"
  by (auto simp: uniq_def conflicts_def has_key_iff keys_of_append set_keys_of split: option.splits)

lemma rehash_loop_Inr:
  assumes "rehash_loop he todo (done @ todo) = Inr rows'" and "distinct (map a_id (done @ todo))" and "uniq hash_key (done @ todo)"
  shows "rows' = done @ map (rehash_row he) todo \<and> uniq hash_key rows'"
  using assms
proof (induction todo arbitrary: "done")
  case (Cons r todo)
  let ?r = "rehash_row he r"
  have "a_id s \<noteq> a_id r" if "s \<in> set (done @ todo)" for s using Cons.prems(2) that by (auto dest: sym)
  then have others: "filter (\<lambda>s. a_id s \<noteq> a_id r) (done @ r # todo) = done @ todo"
    and upd: "update_where (\<lambda>s. a_id s = a_id r) (rehash_row he) (done @ r # todo) = (done @ [?r]) @ todo"
    by (simp_all add: filter_id_conv update_where_append update_where_none)
  with Cons.prems(1) have ok: "\<not> conflicts hash_key ?r (done @ todo)" and rest: "rehash_loop he todo ((done @ [?r]) @ todo) = Inr rows'"
    by (auto split: if_splits)
  have "uniq hash_key ((done @ [?r]) @ todo)"
    using ok Cons.prems(3) by (simp add: uniq_middle)
  then show ?case using Cons.IH [OF rest] Cons.prems(2) by auto
qed simp

lemma rehash_Inr:
  assumes "rehash he rows = Inr rows'" and "uniq id_key rows" and "uniq hash_key rows"
  shows "rows' = map (rehash_row he) rows" and "uniq hash_key rows'"
proof -
  have "rows' = map (rehash_row he) rows \<and> uniq hash_key rows'"
    using rehash_loop_Inr [of he rows "[]" rows'] assms unfolding rehash_def uniq_id_iff append_Nil by blast
  then show "rows' = map (rehash_row he) rows" "uniq hash_key rows'" by blast+
qed

lemma keys_of_map: "(\<And>r. key (g r) = key r) \<Longrightarrow> keys_of key (map g rows) = keys_of key rows"
  by (induction rows) (simp_all split: option.split)

lemma rehash_ok:
  assumes "store_ok st" and "rehash he (art_rows st) = Inr rows'"
  shows "store_ok (st\<lparr>art_rows := rows'\<rparr>)"
proof -
  have rows': "rows' = map (rehash_row he) (art_rows st)" "uniq hash_key rows'"
    using rehash_Inr [OF assms(2)] assms(1) by (simp_all add: store_ok_def)
  have "uniq id_key rows'" "uniq guid_key rows'" using assms(1) by (simp_all add: rows'(1) uniq_def store_ok_def keys_of_map)
  then show ?thesis using assms(1) rows'(2) by (simp add: store_ok_def rows'(1) list_all_iff)
qed

section \<open>The hash in SQL and the hash in Python\<close>

lemma dropWhile_same: "(\<And>x. x \<in> set xs \<Longrightarrow> p x = q x) \<Longrightarrow> dropWhile p xs = dropWhile q xs"
  by (induction xs) auto

lemma strip_by_same: "(\<And>x. x \<in> set s \<Longrightarrow> p x = q x) \<Longrightarrow> strip_by p s = strip_by q s"
  unfolding strip_by_def lstrip_by_def rstrip_by_def
  by (metis dropWhile_same set_dropWhileD set_rev)

lemma sql_blank_space: "sql_blank c \<Longrightarrow> is_space c"
  by (auto simp: sql_blank_def is_space_def)

lemma plain_text_blanks: "c \<in> set (plain_text he v n) \<Longrightarrow> is_space c \<Longrightarrow> c = 32"
proof -
  assume "c \<in> set (plain_text he v n)" and space: "is_space c"
  then have "c \<in> set (join (lit '' '') (split_ws (html_unescape he (bleach_clean he [] None v))))"
    unfolding plain_text_def using set_slice_to by fast
  then have "c \<in> {32} \<union> (\<Union>w \<in> set (split_ws (html_unescape he (bleach_clean he [] None v))). set w)"
    using set_join [of "lit '' ''"] by (fastforce simp: lit_def)
  then show "c = 32" using space split_ws_word by blast
qed

text \<open>Only the white space that PostgreSQL is told to trim occurs in the text.\<close>

definition sql_text :: "ustr \<Rightarrow> bool" where
  "sql_text s \<longleftrightarrow> list_all (\<lambda>c. is_space c \<longrightarrow> sql_blank c) s"

lemma sql_text_strip: "sql_text s \<Longrightarrow> strip_by sql_blank s = strip s"
  by (rule strip_by_same) (auto simp: sql_text_def list_all_iff sql_blank_space)

definition holds_entry :: "int \<Rightarrow> normalized_entry \<Rightarrow> article \<Rightarrow> bool" where
  "holds_entry f e r \<longleftrightarrow> a_feed r = f \<and> a_canonical_url r = ne_canonical_url e \<and> a_title r = ne_title e
     \<and> a_summary r = ne_summary e \<and> a_body r = ne_body e"

lemma rehash_row_hash:
  assumes "normalize_entry te he now re fallback = Inr e" and "holds_entry f e r"
    and "sql_text (if ne_body e = [] then ne_summary e else ne_body e)"
  shows "a_content_hash (rehash_row he r) = ne_content_hash e"
proof -
  have hash: "ne_content_hash e = content_hash he (ne_canonical_url e) (ne_title e) (if ne_body e = [] then ne_summary e else ne_body e)"
    and title: "ne_title e = plain_text he (no_nul (Some (re_title re))) MAX_TITLE_CHARS"
    using assms(1) by (auto simp: normalize_entry_def result_simps Let_def)
  have "sql_text (ne_title e)"
    unfolding title sql_text_def list_all_iff using plain_text_blanks by (fastforce simp: sql_blank_def)
  then show ?thesis
    using assms(2) sql_text_strip [OF assms(3)]
    by (simp add: rehash_row_def holds_entry_def hash content_hash_def sql_text_strip split: if_splits)
qed

text \<open>C31: The migration that recomputes the content hashes keeps the table's indexes and keeps stored articles known: a row
  that holds the text of a normalised entry gets the hash that \<^verbatim>\<open>normalizer.content_hash\<close> computes for that entry, so when the
  entry is fetched again it is not stored a second time - provided its text has no white space besides the six
  characters that the statement trims.\<close>

theorem rehash_keeps_articles_known:
  assumes "store_ok st" and "rehash he (art_rows st) = Inr rows'" and "r \<in> set (art_rows st)"
    and "normalize_entry te he t re fallback = Inr e" and "holds_entry f e r"
    and "sql_text (if ne_body e = [] then ne_summary e else ne_body e)"
  shows "store_ok (st\<lparr>art_rows := rows'\<rparr>)
    \<and> (\<exists>st' res. upsert_article now f e (st\<lparr>art_rows := rows'\<rparr>) = (st', Inr res) \<and> \<not> inserted res
         \<and> map a_id (art_rows st') = map a_id (art_rows st))"
proof -
  let ?st = "st\<lparr>art_rows := rows'\<rparr>"
  have ok: "store_ok ?st" by (rule rehash_ok [OF assms(1,2)])
  have rows': "rows' = map (rehash_row he) (art_rows st)"
    using rehash_Inr(1) [OF assms(2)] assms(1) by (simp add: store_ok_def)
  have "same_content f e (rehash_row he r)"
    using rehash_row_hash [OF assms(4,5,6)] assms(5) by (simp add: same_content_def holds_entry_def)
  moreover have "rehash_row he r \<in> set (art_rows ?st)" using assms(3) by (simp add: rows')
  ultimately have known: "\<exists>s \<in> set (art_rows ?st). same_guid f e s \<or> same_content f e s" by blast
  have ids: "map a_id (update_where p g rows') = map a_id (art_rows st)" if "\<And>r. a_id (g r) = a_id r" for p g
    by (simp add: map_update_where that rows' comp_def)
  obtain aid where "find_existing f e (art_rows ?st) = Some aid" using find_existing_Some [OF known] by blast
  then show ?thesis
    using ok by (auto simp: upsert_known [OF ok known] Let_def ids split: option.split)
qed

definition stored_entry :: "raw_entry \<Rightarrow> normalized_entry" where
  "stored_entry re = (case normalize_entry te_ascii he_example 50 re (lit ''simple'') of Inr e \<Rightarrow> e | Inl _ \<Rightarrow> entry_example)"

definition old_row :: "raw_entry \<Rightarrow> article" where
  "old_row re = (new_article 40 1 7 (stored_entry re))\<lparr>a_content_hash := lit ''old''\<rparr>"

definition old_table :: "raw_entry \<Rightarrow> art_store" where
  "old_table re = \<lparr>art_rows = [old_row re], art_next = 2\<rparr>"

lemma old_table_ok: "store_ok (old_table re)"
  by (simp add: store_ok_def old_table_def uniq_Cons conflicts_def has_key_iff old_row_def new_article_def split: option.split)

theorem rehash_keeps_articles_known_witness:
  "\<exists>rows' st' res. rehash he_example [old_row re_example] = Inr rows'
     \<and> upsert_article 60 7 (stored_entry re_example) ((old_table re_example)\<lparr>art_rows := rows'\<rparr>) = (st', Inr res) \<and> \<not> inserted res"
proof -
  let ?e = "stored_entry re_example"
  have hash: "rehash he_example [old_row re_example] = Inr [rehash_row he_example (old_row re_example)]"
    by (simp add: rehash_def conflicts_def hash_key_def has_key_iff)
  have "normalize_entry te_ascii he_example 50 re_example (lit ''simple'') = Inr ?e" by code_simp
  moreover have "holds_entry 7 ?e (old_row re_example)" by (simp add: holds_entry_def old_row_def new_article_def)
  moreover have "sql_text (if ne_body ?e = [] then ne_summary ?e else ne_body ?e)" by code_simp
  ultimately show ?thesis
    using rehash_keeps_articles_known [OF old_table_ok, of he_example re_example "[rehash_row he_example (old_row re_example)]"
        "old_row re_example" te_ascii 50 re_example "lit ''simple''" ?e 7 60] hash
    by (auto simp: old_table_def)
qed

definition re_nbsp :: raw_entry where
  "re_nbsp = \<lparr>re_url = lit ''http://a.b/x'', re_title = lit ''News'', re_summary = [], re_body = lit ''text'' @ [0xA0], re_guid = [],
     re_author = None, re_published_at = None\<rparr>"

text \<open>C36: The two hashes differ on a text that ends in a no-break space: \<^verbatim>\<open>str.strip\<close> removes it and the statement's \<^verbatim>\<open>btrim\<close> does not.
  After the migration an article without a guid is then stored a second time when it is fetched again, with the same
  title, text and link.\<close>

theorem rehash_stores_article_twice:
  "\<exists>e rows' st' res r s. normalize_entry te_ascii he_example 50 re_nbsp (lit ''simple'') = Inr e
     \<and> rehash he_example [old_row re_nbsp] = Inr rows' \<and> holds_entry 7 e (old_row re_nbsp)
     \<and> upsert_article 60 7 e ((old_table re_nbsp)\<lparr>art_rows := rows'\<rparr>) = (st', Inr res) \<and> inserted res
     \<and> art_rows st' = [r, s] \<and> holds_entry 7 e r \<and> holds_entry 7 e s \<and> a_content_hash r \<noteq> a_content_hash s"
proof -
  let ?e = "stored_entry re_nbsp"
  let ?r = "rehash_row he_example (old_row re_nbsp)"
  let ?st = "(old_table re_nbsp)\<lparr>art_rows := [?r]\<rparr>"
  have e: "normalize_entry te_ascii he_example 50 re_nbsp (lit ''simple'') = Inr ?e" by code_simp
  have hash: "rehash he_example [old_row re_nbsp] = Inr [?r]"
    by (simp add: rehash_def conflicts_def hash_key_def has_key_iff)
  have new: "\<not> same_guid 7 ?e ?r" "a_content_hash ?r \<noteq> ne_content_hash ?e" by code_simp+
  then have up: "upsert_article 60 7 ?e ?st
      = (\<lparr>art_rows = [?r, new_article 60 2 7 ?e], art_next = 3\<rparr>, Inr \<lparr>article_id = 2, inserted = True, updated = False\<rparr>)"
    by (subst upsert_insert) (auto simp: same_content_def old_table_def)
  have "holds_entry 7 ?e (old_row re_nbsp)" "holds_entry 7 ?e ?r" "holds_entry 7 ?e (new_article 60 2 7 ?e)"
    by (simp_all add: holds_entry_def rehash_row_def old_row_def new_article_def)
  then show ?thesis
    using e hash up new(2)
    by (intro exI [of _ ?e] exI [of _ "[?r]"] exI [of _ "\<lparr>art_rows = [?r, new_article 60 2 7 ?e], art_next = 3\<rparr>"]
        exI [of _ "\<lparr>article_id = 2, inserted = True, updated = False\<rparr>"] exI [of _ ?r] exI [of _ "new_article 60 2 7 ?e"])
      (simp add: new_article_def)
qed

end
