(* ===== verification/Ip_Printing.thy ===== *)
theory Ip_Printing
  imports Ip_Address
begin

text \<open>
  The printed form of an address determines it: \<^verbatim>\<open>str(IPv6Address)\<close> drops leading zeros of a group and the
  longest run of zero groups, and neither loses information.  Keys that are printed addresses (throttling) rest on this.
\<close>

section \<open>Groups\<close>

lemma digits_value_hex:
  assumes "\<forall>d \<in> set ds. 0 \<le> d \<and> d < 16"
  shows "digits_value 16 (map hex_digit ds) = foldl (\<lambda>a d. 16 * a + d) 0 ds"
  using assms by (induction ds rule: rev_induct) (auto simp: digits_value_def hex_digit_def)

lemma foldl_leading_zeros: "foldl (\<lambda>a d. 16 * a + d) (0 :: int) (dropWhile (\<lambda>d. d = 0) ds) = foldl (\<lambda>a d. 16 * a + d) 0 ds"
  by (induction ds) auto

text \<open>A group is printed as its significant hexadecimal digits.\<close>

lemma hextet_digits:
  obtains sig where "hextet_str h = (if sig = [] then [48] else map hex_digit sig)"
    and "\<And>d. d \<in> set sig \<Longrightarrow> 0 \<le> d \<and> d < 16"
    and "0 \<le> h \<Longrightarrow> h < 65536 \<Longrightarrow> foldl (\<lambda>a d. 16 * a + d) 0 sig = h"
proof
  let ?ds = "[h div 4096 mod 16, h div 256 mod 16, h div 16 mod 16, h mod 16]"
  let ?sig = "dropWhile (\<lambda>d. d = 0) ?ds"
  show "hextet_str h = (if ?sig = [] then [48] else map hex_digit ?sig)" by (simp only: hextet_str_def Let_def)
  show "0 \<le> d \<and> d < 16" if "d \<in> set ?sig" for d
  proof -
    have "d \<in> set ?ds" using that by (metis set_dropWhileD)
    then show ?thesis by auto
  qed
  assume range: "0 \<le> h" "h < 65536"
  have "h div 256 = h div 16 div 16" "h div 4096 = h div 16 div 16 div 16"
    by (simp_all add: zdiv_zmult2_eq [symmetric])
  moreover have "h div 4096 mod 16 = h div 4096" using range by (intro mod_pos_pos_trivial) auto
  ultimately have "16 * (16 * (16 * (h div 4096 mod 16) + h div 256 mod 16) + h div 16 mod 16) + h mod 16 = h"
    by (simp only: mult_div_mod_eq)
  then show "foldl (\<lambda>a d. 16 * a + d) 0 ?sig = h"
    unfolding foldl_leading_zeros by (simp only: foldl.simps mult_zero_right add_0)
qed

lemma hextet_value:
  assumes "0 \<le> h" and "h < 65536"
  shows "digits_value 16 (hextet_str h) = h"
proof -
  obtain sig where sig: "hextet_str h = (if sig = [] then [48] else map hex_digit sig)"
    "\<And>d. d \<in> set sig \<Longrightarrow> 0 \<le> d \<and> d < 16" "foldl (\<lambda>a d. 16 * a + d) 0 sig = h"
    using hextet_digits [of h] assms by metis
  have "digits_value 16 [48] = 0" by (simp add: digits_value_def)
  then show ?thesis using sig digits_value_hex [of sig] by (cases "sig = []") auto
qed

lemma hextet_str_chars: "hextet_str h \<noteq> [] \<and> 58 \<notin> set (hextet_str h) \<and> 46 \<notin> set (hextet_str h) \<and> 47 \<notin> set (hextet_str h)"
proof -
  obtain sig where sig: "hextet_str h = (if sig = [] then [48] else map hex_digit sig)"
    and range: "\<And>d. d \<in> set sig \<Longrightarrow> 0 \<le> d \<and> d < 16"
    using hextet_digits [of h] by metis
  have "48 \<le> hex_digit d \<and> hex_digit d \<noteq> 58" if "d \<in> set sig" for d
    using range [OF that] by (auto simp: hex_digit_def)
  then show ?thesis unfolding sig by force
qed

section \<open>The run of zero groups\<close>

definition zero_block :: "int list \<Rightarrow> nat \<times> nat \<Rightarrow> bool" where
  "zero_block hs b \<longleftrightarrow> fst b + snd b \<le> length hs \<and> (\<forall>j < snd b. hs ! (fst b + j) = 0)"

lemma zero_run_block:
  assumes "zero_block (pre @ hs) best" and "len \<le> length pre" and "\<forall>j < len. pre ! (length pre - len + j) = 0"
  shows "zero_block (pre @ hs) (zero_run (length pre) len best hs)"
  using assms
proof (induction hs arbitrary: pre len best)
  case (Cons h hs)
  show ?case
  proof (cases "h = 0")
    case True
    let ?new = "(length pre - len, Suc len)"
    have "(pre @ [h]) ! (length (pre @ [h]) - Suc len + j) = 0" if "j < Suc len" for j
      using that True Cons.prems(2,3) by (cases "j = len") (auto simp: nth_append)
    moreover have "((pre @ [h]) @ hs) ! (length pre - len + j) = 0" if "j < Suc len" for j
      using that True Cons.prems(2,3) by (cases "j = len") (auto simp: nth_append)
    then have "zero_block ((pre @ [h]) @ hs) ?new"
      using Cons.prems(2) by (simp add: zero_block_def)
    ultimately have "zero_block ((pre @ [h]) @ hs) (zero_run (length (pre @ [h])) (Suc len) (if Suc len > snd best then ?new else best) hs)"
      using Cons.prems(1,2) by (intro Cons.IH) auto
    then show ?thesis using True by simp
  next
    case False
    have "zero_block ((pre @ [h]) @ hs) (zero_run (length (pre @ [h])) 0 best hs)"
      using Cons.prems(1) by (intro Cons.IH) auto
    then show ?thesis using False by simp
  qed
qed simp

lemma zero_block_strs:
  assumes "zero_block hs (start, len)"
  shows "take start (map hextet_str hs) @ replicate len [48] @ drop (start + len) (map hextet_str hs) = map hextet_str hs"
proof -
  have "hextet_str 0 = [48]" by (simp add: hextet_str_def)
  then have "take len (drop start (map hextet_str hs)) = replicate len [48]"
    using assms by (intro nth_equalityI) (auto simp: zero_block_def)
  then show ?thesis by (metis append_take_drop_id drop_drop add.commute)
qed

section \<open>Reading a printed address back\<close>

definition v6_list :: "int list \<Rightarrow> ustr list" where
  "v6_list hs =
     (let (start, len) = zero_run 0 0 (0, 0) hs; strs = map hextet_str hs
      in if len \<le> 1 then strs
         else (if start = 0 then [[]] else []) @ take start strs @ [[]] @ drop (start + len) strs @ (if start + len = 8 then [[]] else []))"

definition expanded :: "ustr list \<Rightarrow> ustr list" where
  "expanded ws =
     (let pre = takeWhile (\<lambda>w. w \<noteq> []) ws; groups = filter (\<lambda>w. w \<noteq> []) ws
      in pre @ replicate (8 - length groups) [48] @ drop (length pre) groups)"

lemma expanded_plain: "length ws = 8 \<Longrightarrow> [] \<notin> set ws \<Longrightarrow> expanded ws = ws"
proof -
  assume "length ws = 8" and ne: "[] \<notin> set ws"
  moreover have "takeWhile (\<lambda>w. w \<noteq> []) ws = ws" "filter (\<lambda>w. w \<noteq> []) ws = ws"
    using ne by (auto simp: takeWhile_eq_all_conv filter_id_conv)
  ultimately show ?thesis unfolding expanded_def Let_def by (simp only:) simp
qed

lemma expanded_gap:
  assumes "[] \<notin> set xs" and "[] \<notin> set ys" and "length xs + len + length ys = 8" and "tail = [] \<or> tail = [[]]"
  shows "expanded ((if xs = [] then [[]] else []) @ xs @ [[]] @ ys @ tail) = xs @ replicate len [48] @ ys"
proof -
  let ?ws = "(if xs = [] then [[]] else []) @ xs @ [[]] @ ys @ tail"
  have f: "filter (\<lambda>w. w \<noteq> []) xs = xs" "filter (\<lambda>w. w \<noteq> []) ys = ys" using assms(1,2) by (auto simp: filter_id_conv)
  have t: "takeWhile (\<lambda>w. w \<noteq> []) ?ws = xs" 
  proof (cases "xs = []")
    case False
    have "takeWhile (\<lambda>w. w \<noteq> []) (xs @ [] # ys @ tail) = xs @ takeWhile (\<lambda>w. w \<noteq> []) ([] # ys @ tail)"
      by (rule takeWhile_append2) (use assms(1) in auto)
    then show ?thesis using False by simp
  qed simp
  have g: "filter (\<lambda>w. w \<noteq> []) ?ws = xs @ ys" using assms(4) f by auto
  have "8 - length (xs @ ys) = len" using assms(3) by simp
  then show ?thesis unfolding expanded_def Let_def t g by simp
qed

lemma expanded_v6_list:
  assumes "length hs = 8"
  shows "expanded (v6_list hs) = map hextet_str hs"
proof -
  obtain start len where run: "zero_run 0 0 (0, 0) hs = (start, len)" by fastforce
  have "zero_block ([] @ hs) (zero_run (length ([] :: int list)) 0 (0, 0) hs)"
    by (rule zero_run_block) (simp_all add: zero_block_def)
  then have block: "zero_block hs (start, len)" using run by simp
  have ne: "[] \<notin> set (map hextet_str hs)" using hextet_str_chars by (metis (no_types, lifting) in_set_conv_nth length_map nth_map)
  show ?thesis
  proof (cases "len \<le> 1")
    case True
    then show ?thesis using expanded_plain [OF _ ne] assms by (simp add: v6_list_def run)
  next
    case False
    let ?xs = "take start (map hextet_str hs)" and ?ys = "drop (start + len) (map hextet_str hs)"
    have sum: "start + len \<le> 8" using block assms by (simp add: zero_block_def)
    have "start = 0 \<longleftrightarrow> ?xs = []" using assms by auto
    then have "v6_list hs = (if ?xs = [] then [[]] else []) @ ?xs @ [[]] @ ?ys @ (if start + len = 8 then [[]] else [])"
      using False unfolding v6_list_def run Let_def by simp
    moreover have "expanded ((if ?xs = [] then [[]] else []) @ ?xs @ [[]] @ ?ys @ (if start + len = 8 then [[]] else []))
        = ?xs @ replicate len [48] @ ?ys"
      by (rule expanded_gap) (use ne sum assms in \<open>auto dest: in_set_takeD in_set_dropD\<close>)
    ultimately show ?thesis using zero_block_strs [OF block] by simp
  qed
qed

lemma v6_list_words: "v6_list hs \<noteq> [] \<or> hs = []" and v6_list_chars: "w \<in> set (v6_list hs) \<Longrightarrow> 58 \<notin> set w \<and> 46 \<notin> set w \<and> 47 \<notin> set w"
  using hextet_str_chars
  by (auto simp: v6_list_def Let_def split: prod.splits if_splits dest!: in_set_takeD in_set_dropD)

lemma v6_str_list: "v6_str a = join [58] (v6_list (v6_hextets a))"
  by (simp add: v6_str_def v6_list_def Let_def split: prod.split)

section \<open>Injectivity\<close>

lemma hextets_inj:
  assumes "v6_hextets a = v6_hextets b"
  shows "a = b"
proof -
  let ?x = "uint a" and ?y = "uint b"
  have step: "?x div 2 ^ (16 * i) = ?y div 2 ^ (16 * i)"
    if "?x div 2 ^ (16 * Suc i) = ?y div 2 ^ (16 * Suc i)" "?x div 2 ^ (16 * i) mod 65536 = ?y div 2 ^ (16 * i) mod 65536" for i
  proof -
    have "z div 2 ^ (16 * Suc i) = z div 2 ^ (16 * i) div 65536" for z :: int
      using zdiv_zmult2_eq [of 65536 z "2 ^ (16 * i)"] by (simp add: power_add mult.commute)
    then show ?thesis using that by (metis mult_div_mod_eq)
  qed
  have top: "z div 2 ^ (16 * 8) = 0" if "0 \<le> z" "z < 2 ^ 128" for z :: int using that by simp
  have "?x div 2 ^ (16 * 8) = ?y div 2 ^ (16 * 8)"
    using top [of ?x] top [of ?y] uint_bounded [of a] uint_bounded [of b] by simp
  note t = this
  have eqs: "?x div 2 ^ (16 * i) mod 65536 = ?y div 2 ^ (16 * i) mod 65536" if "i \<in> {0, 1, 2, 3, 4, 5, 6, 7}" for i
    using assms that unfolding v6_hextets_def map_eq_conv by (simp only: list.set insert_commute)
  have "?x div 2 ^ (16 * (8 - k)) = ?y div 2 ^ (16 * (8 - k))" if "k \<le> 8" for k
    using that
  proof (induction k)
    case (Suc k)
    then have "Suc (8 - Suc k) = 8 - k" by simp
    moreover have "n \<in> {0, 1, 2, 3, 4, 5, 6, 7}" if "n < 8" for n :: nat using that by auto
    then have "8 - Suc k \<in> {0, 1, 2, 3, 4, 5, 6, 7}" using Suc.prems by (metis Suc_le_eq diff_less zero_less_Suc zero_less_numeral)
    ultimately show ?case using Suc.IH Suc.prems eqs step by (metis Suc_leD)
  qed (use t in simp)
  from this [of 8] show ?thesis by (simp add: word_uint_eq_iff)
qed

lemma v6_hextets_range: "h \<in> set (v6_hextets a) \<Longrightarrow> 0 \<le> h \<and> h < 65536"
  by (auto simp: v6_hextets_def)

lemma v6_str_inj [simp]: "v6_str a = v6_str b \<longleftrightarrow> a = b"
proof
  assume eq: "v6_str a = v6_str b"
  have len: "length (v6_hextets x) = 8" for x by (simp add: v6_hextets_def)
  have "split_on 58 (v6_str x) = v6_list (v6_hextets x)" for x
    unfolding v6_str_list using v6_list_words [of "v6_hextets x"] v6_list_chars len [of x] by (intro split_on_join) auto
  then have "v6_list (v6_hextets a) = v6_list (v6_hextets b)" using eq by metis
  then have "map hextet_str (v6_hextets a) = map hextet_str (v6_hextets b)" using expanded_v6_list len by metis
  then have "map (digits_value 16) (map hextet_str (v6_hextets a)) = map (digits_value 16) (map hextet_str (v6_hextets b))" by simp
  moreover have "map (digits_value 16) (map hextet_str (v6_hextets x)) = v6_hextets x" for x
    using v6_hextets_range hextet_value by (auto simp: map_idI)
  ultimately show "a = b" using hextets_inj by simp
qed simp

lemma v4_str_inj [simp]: "v4_str a = v4_str b \<longleftrightarrow> a = b"
  by (metis option.inject parse_v4_str)

end
