(* ===== verification/Core_Api.thy ===== *)
theory Core_Api
  imports Ip_Printing
begin

text \<open>
  What every endpoint shares, \<^verbatim>\<open>src/apps/core\<close>: the error envelope (exceptions.py), throttling keys
  (throttling.py), probes and metrics (health.py, middleware.py) and account creation (views.py).

  Parameters: the framework's \<^verbatim>\<open>exception_handler\<close> (\<open>drf\<close>), Python's \<^verbatim>\<open>str\<close> of a list or
  dictionary (\<open>repr\<close>), the framework's \<^verbatim>\<open>get_ident\<close> (its result is the argument \<open>ident\<close>) and the
  validators of django's auth application.
\<close>

unbundle bit_operations_syntax

section \<open>Error envelope\<close>

datatype body = BStr ustr | BList "body list" | BDict "(ustr \<times> body) list"

record response =
  rs_status :: int
  rs_data :: body

datatype exn_class = InvalidToken | Throttled | ValidationErr | OtherApi

record api_exn =
  ex_class :: exn_class
  ex_default_code :: ustr

datatype exn = Http404 | DjangoPermissionDenied | ApiException api_exn | OtherExn

definition CODES :: "(exn_class \<times> ustr) list" where
  "CODES = [(InvalidToken, lit ''token_not_valid''), (Throttled, lit ''rate_limited''), (ValidationErr, lit ''validation_error'')]"

definition code_of :: "api_exn \<Rightarrow> ustr" where
  "code_of e = (case find (\<lambda>(cls, _). cls = ex_class e) CODES of Some (_, code) \<Rightarrow> code | None \<Rightarrow> ex_default_code e)"

definition str_of :: "(body \<Rightarrow> ustr) \<Rightarrow> body \<Rightarrow> ustr" where
  "str_of repr d = (case d of BStr s \<Rightarrow> s | _ \<Rightarrow> repr d)"

definition detail_of :: "(body \<Rightarrow> ustr) \<Rightarrow> api_exn \<Rightarrow> body \<Rightarrow> body" where
  "detail_of repr e data =
     (if ex_class e = ValidationErr
      then (case data of
              BDict _ \<Rightarrow> data
            | _ \<Rightarrow> BDict [(lit ''non_field_errors'', case data of BList _ \<Rightarrow> data | _ \<Rightarrow> BList [data])])
      else (case data of
              BDict members \<Rightarrow> (case map_of members (lit ''detail'') of Some d \<Rightarrow> BStr (str_of repr d) | None \<Rightarrow> BStr (str_of repr data))
            | _ \<Rightarrow> BStr (str_of repr data)))"

definition is_envelope :: "body \<Rightarrow> bool" where
  "is_envelope d = (case d of BDict members \<Rightarrow> fst ` set members = {lit ''code'', lit ''detail''} | _ \<Rightarrow> False)"

definition as_api_exn :: "exn \<Rightarrow> exn" where
  "as_api_exn e =
     (case e of
        Http404 \<Rightarrow> ApiException \<lparr>ex_class = OtherApi, ex_default_code = lit ''not_found''\<rparr>
      | DjangoPermissionDenied \<Rightarrow> ApiException \<lparr>ex_class = OtherApi, ex_default_code = lit ''permission_denied''\<rparr>
      | _ \<Rightarrow> e)"

definition envelope :: "(exn \<Rightarrow> response option) \<Rightarrow> (body \<Rightarrow> ustr) \<Rightarrow> exn \<Rightarrow> response option" where
  "envelope drf repr e0 =
     (let e = as_api_exn e0 in
      case drf e of
        None \<Rightarrow> None
      | Some r \<Rightarrow>
          (case e of
             ApiException x \<Rightarrow>
               if is_envelope (rs_data r) then Some r
               else Some (r\<lparr>rs_data := BDict [(lit ''code'', BStr (code_of x)), (lit ''detail'', detail_of repr x (rs_data r))]\<rparr>)
           | _ \<Rightarrow> Some r))"

definition json_error :: "int \<Rightarrow> string \<Rightarrow> string \<Rightarrow> response" where
  "json_error status code detail =
     \<lparr>rs_status = status, rs_data = BDict [(lit ''code'', BStr (lit code)), (lit ''detail'', BStr (lit detail))]\<rparr>"

definition bad_request :: response where
  "bad_request = json_error 400 ''bad_request'' ''Bad request.''"

definition permission_denied :: response where
  "permission_denied = json_error 403 ''permission_denied'' ''Permission denied.''"

definition csrf_failure :: response where
  "csrf_failure = json_error 403 ''csrf_failed'' ''CSRF verification failed.''"

definition not_found :: response where
  "not_found = json_error 404 ''not_found'' ''Not found.''"

definition server_error :: response where
  "server_error = json_error 500 ''server_error'' ''Internal server error.''"

section \<open>Throttling keys\<close>

definition IPV6_PREFIX :: nat where
  "IPV6_PREFIX = 64"

text \<open>\<^verbatim>\<open>str(IPv6Network((addr, 64), strict=False))\<close>; an address with no host bits keeps its scope.\<close>

definition network_str :: "v6addr \<Rightarrow> ustr \<Rightarrow> ustr" where
  "network_str a scope =
     (let base = a AND netmask IPV6_PREFIX
      in v6_str base @ (if base = a then scope else []) @ lit ''/'' @ nat_str IPV6_PREFIX)"

definition scope_part :: "ustr \<Rightarrow> ustr" where
  "scope_part s = (case partition_at (of_char CHR ''%'') s of (_, sep, scope) \<Rightarrow> if sep then lit ''%'' @ scope else [])"

definition network_ident :: "ustr \<Rightarrow> ustr" where
  "network_ident ident =
     (case ip_address (strip ident) of
        None \<Rightarrow> ident
      | Some (V6 a) \<Rightarrow> (case ipv4_mapped a of Some b \<Rightarrow> v4_str b | None \<Rightarrow> network_str a (scope_part (strip ident)))
      | Some (V4 b) \<Rightarrow> v4_str b)"

text \<open>\<^verbatim>\<open>RegisterThrottle.get_cache_key\<close>; \<open>cache_format\<close> is the framework's.\<close>

definition register_cache_key :: "(ustr \<Rightarrow> ustr \<Rightarrow> ustr) \<Rightarrow> ustr \<Rightarrow> ustr" where
  "register_cache_key cache_format ident = cache_format (lit ''register'') (network_ident ident)"

section \<open>Probes and metrics\<close>

text \<open>\<open>db\<close> and \<open>redis\<close> are the outcomes of the two probes; \<open>None\<close> is an exception.\<close>

definition ready_view :: "unit option \<Rightarrow> bool option \<Rightarrow> (bool \<times> bool) \<times> int" where
  "ready_view db redis =
     (let db_ok = (db \<noteq> None);
          redis_ok = (case redis of None \<Rightarrow> False | Some pong \<Rightarrow> pong)
      in ((db_ok, redis_ok), if db_ok \<and> redis_ok then 200 else 503))"

text \<open>The metrics, or \<^verbatim>\<open>Http404\<close>; \<open>authorization\<close> is the header, empty when absent.\<close>

definition metrics_view :: "ustr \<Rightarrow> ustr \<Rightarrow> 'm \<Rightarrow> exn + 'm" where
  "metrics_view token authorization metrics =
     (case partition_at (of_char CHR '' '') authorization of
        (scheme, _, supplied) \<Rightarrow>
          if token = [] \<or> scheme \<noteq> lit ''Bearer'' \<or> supplied \<noteq> token then Inl Http404 else Inr metrics)"

datatype probe = LiveView | ReadyView

definition health_views :: "(ustr \<times> probe) list" where
  "health_views = [(lit ''/health/live'', LiveView), (lit ''/health/ready'', ReadyView)]"

definition health_middleware :: "(ustr \<Rightarrow> 'r) \<Rightarrow> (probe \<Rightarrow> 'r) \<Rightarrow> ustr \<Rightarrow> 'r" where
  "health_middleware get_response run path_info =
     (case map_of health_views path_info of None \<Rightarrow> get_response path_info | Some view \<Rightarrow> run view)"

section \<open>Accounts\<close>

record user =
  u_id :: int
  u_username :: ustr
  u_password :: ustr
  u_email :: ustr

record user_table =
  us_rows :: "user list"
  us_next :: int

text \<open>django's validators, password hasher and normalisation of names and addresses.\<close>

record auth_env =
  username_ok :: "ustr \<Rightarrow> bool"
  email_ok :: "ustr \<Rightarrow> bool"
  password_messages :: "ustr \<Rightarrow> ustr \<Rightarrow> ustr \<Rightarrow> ustr list" \<comment> \<open>\<open>validate_password\<close> for a name and an address\<close>
  normalize_username :: "ustr \<Rightarrow> ustr"
  normalize_email :: "ustr \<Rightarrow> ustr"
  make_password :: "ustr \<Rightarrow> ustr"

record register_data =
  rg_username :: "ustr option"
  rg_password :: "ustr option"
  rg_email :: "ustr option"

datatype register_error = FieldErrors "string list" | PasswordErrors "ustr list" | UsernameTaken

definition username_key :: "user \<Rightarrow> ustr option" where
  "username_key u = Some (u_username u)"

text \<open>A character field strips its input; an empty or overlong value, a missing one or one its validators refuse is an error.\<close>

definition register_field :: "(ustr \<Rightarrow> bool) \<Rightarrow> ustr option \<Rightarrow> ustr option" where
  "register_field ok v =
     (case v of None \<Rightarrow> None | Some s \<Rightarrow> if strip s \<noteq> [] \<and> 0 \<notin> set s \<and> ok (strip s) then Some (strip s) else None)"

definition register_email :: "auth_env \<Rightarrow> ustr option \<Rightarrow> ustr option" where
  "register_email ae v =
     (case v of None \<Rightarrow> Some []
      | Some s \<Rightarrow> if strip s = [] then Some [] else if 0 \<notin> set s \<and> email_ok ae (strip s) then Some (strip s) else None)"

definition register_serializer :: "auth_env \<Rightarrow> register_data \<Rightarrow> register_error + (ustr \<times> ustr \<times> ustr)" where
  "register_serializer ae d =
     (let name = register_field (\<lambda>s. int (length s) \<le> 150 \<and> username_ok ae s) (rg_username d);
          password = register_field (\<lambda>_. True) (rg_password d);
          email = register_email ae (rg_email d)
      in case (name, password, email) of
           (Some n, Some p, Some e) \<Rightarrow>
             let msgs = password_messages ae p n e in if msgs \<noteq> [] then Inl (PasswordErrors msgs) else Inr (n, p, e)
         | _ \<Rightarrow> Inl (FieldErrors ((if name = None then [''username''] else []) @ (if password = None then [''password''] else [])
                               @ (if email = None then [''email''] else []))))"

text \<open>A unique index on the name: the insert of a taken name is rolled back, but its id is used up.\<close>

definition register_post :: "auth_env \<Rightarrow> register_data \<Rightarrow> user_table \<Rightarrow> user_table \<times> (register_error + (int \<times> ustr))" where
  "register_post ae d t =
     (case register_serializer ae d of
        Inl e \<Rightarrow> (t, Inl e)
      | Inr (n, p, e) \<Rightarrow>
          (let u = \<lparr>u_id = us_next t, u_username = normalize_username ae n, u_password = make_password ae p,
                    u_email = normalize_email ae e\<rparr>;
               t' = t\<lparr>us_next := us_next t + 1\<rparr>
           in if conflicts username_key u (us_rows t) then (t', Inl UsernameTaken)
              else (t'\<lparr>us_rows := us_rows t @ [u]\<rparr>, Inr (u_id u, u_username u))))"

section \<open>Errors have one shape\<close>

lemma json_error_envelope: "is_envelope (rs_data (json_error status code detail))"
  by (simp add: is_envelope_def json_error_def)

lemma detail_of_shape:
  "ex_class x = ValidationErr \<Longrightarrow> \<exists>members. detail_of repr x d = BDict members"
  "ex_class x \<noteq> ValidationErr \<Longrightarrow> \<exists>s. detail_of repr x d = BStr s"
  by (auto simp: detail_of_def split: body.splits option.splits)

text \<open>C29: Errors have one shape: whatever the framework's handler makes of an exception of the API, a missing object or a
  refused permission, the response keeps its status and its body is an object with exactly \<^verbatim>\<open>code\<close> and
  \<^verbatim>\<open>detail\<close>; the code is one of the stable codes or the exception's own; \<^verbatim>\<open>detail\<close> of a validation error is
  an object, of any other error a string, unless a view raised the envelope itself.  The handlers outside the
  framework answer in the same shape.\<close>

theorem error_envelope:
  assumes "drf (as_api_exn e) = Some r0" and "as_api_exn e = ApiException x"
  shows "\<exists>r. envelope drf repr e = Some r \<and> rs_status r = rs_status r0 \<and> is_envelope (rs_data r)
    \<and> (is_envelope (rs_data r0) \<longrightarrow> r = r0)
    \<and> (\<not> is_envelope (rs_data r0) \<longrightarrow>
         (\<exists>d. rs_data r = BDict [(lit ''code'', BStr (code_of x)), (lit ''detail'', d)]
            \<and> (ex_class x = ValidationErr \<longrightarrow> (\<exists>members. d = BDict members))
            \<and> (ex_class x \<noteq> ValidationErr \<longrightarrow> (\<exists>s. d = BStr s))))
    \<and> list_all (\<lambda>h. is_envelope (rs_data h)) [bad_request, permission_denied, csrf_failure, not_found, server_error]"
proof -
  have handlers: "list_all (\<lambda>h. is_envelope (rs_data h)) [bad_request, permission_denied, csrf_failure, not_found, server_error]"
    by (simp add: bad_request_def permission_denied_def csrf_failure_def not_found_def server_error_def json_error_envelope)
  show ?thesis
  proof (cases "is_envelope (rs_data r0)")
    case True
    then have "envelope drf repr e = Some r0" using assms by (simp add: envelope_def)
    then show ?thesis using True handlers by auto
  next
    case False
    let ?d = "detail_of repr x (rs_data r0)"
    let ?r = "r0\<lparr>rs_data := BDict [(lit ''code'', BStr (code_of x)), (lit ''detail'', ?d)]\<rparr>"
    have "envelope drf repr e = Some ?r" using assms False by (simp add: envelope_def)
    moreover have "is_envelope (rs_data ?r)" by (simp add: is_envelope_def)
    ultimately show ?thesis using False handlers detail_of_shape [of x repr "rs_data r0"] by auto
  qed
qed

theorem error_envelope_witness:
  "\<exists>r. envelope (\<lambda>_. Some \<lparr>rs_status = 404, rs_data = BDict [(lit ''detail'', BStr (lit ''gone''))]\<rparr>) (\<lambda>_. []) Http404 = Some r
     \<and> rs_status r = 404 \<and> is_envelope (rs_data r)"
  using error_envelope [of "\<lambda>_. Some \<lparr>rs_status = 404, rs_data = BDict [(lit ''detail'', BStr (lit ''gone''))]\<rparr>" Http404
      "\<lparr>rs_status = 404, rs_data = BDict [(lit ''detail'', BStr (lit ''gone''))]\<rparr>"
      "\<lparr>ex_class = OtherApi, ex_default_code = lit ''not_found''\<rparr>" "\<lambda>_. []"]
  by (auto simp: as_api_exn_def)

section \<open>Metrics\<close>

lemma bearer: "32 \<notin> set (lit ''Bearer'')" "lit ''Bearer '' = lit ''Bearer'' @ [32]"
  by (simp_all add: lit_def)

text \<open>Metrics are served to exactly the requests whose \<^verbatim>\<open>Authorization\<close> header is \<^verbatim>\<open>Bearer\<close> and the
  configured token, and to none when no token is configured; every other request sees a missing page.\<close>

theorem metrics_guarded:
  "metrics_view token authorization m = (if token \<noteq> [] \<and> authorization = lit ''Bearer '' @ token then Inr m else Inl Http404)"
proof (cases "32 \<in> set authorization")
  case True
  then obtain a b where split: "authorization = a @ 32 # b" "32 \<notin> set a" by (meson split_list_first)
  have p: "partition_at 32 authorization = (a, True, b)" using partition_at_append [OF split(2)] split(1) by simp
  have q: "partition_at 32 (lit ''Bearer '' @ token) = (lit ''Bearer'', True, token)"
    using partition_at_append [OF bearer(1)] by (simp add: bearer(2))
  have "authorization = lit ''Bearer '' @ token \<longleftrightarrow> a = lit ''Bearer'' \<and> b = token"
  proof
    assume "authorization = lit ''Bearer '' @ token"
    with p q show "a = lit ''Bearer'' \<and> b = token" by simp
  qed (simp add: split(1) bearer(2))
  then show ?thesis using p by (auto simp: metrics_view_def)
next
  case False
  then have "authorization \<noteq> lit ''Bearer '' @ token" by (auto simp: bearer(2))
  then show ?thesis using False by (auto simp: metrics_view_def partition_at_absent)
qed

section \<open>Buckets\<close>

text \<open>What a throttle counts by: an IPv4 address, or an IPv6 network of 64 bits.\<close>

datatype bucket = Host4 v4addr | Net6 v6addr

definition bucket_of :: "ip_addr \<Rightarrow> bucket" where
  "bucket_of ip =
     (case ip of
        V4 b \<Rightarrow> Host4 b
      | V6 a \<Rightarrow> (case ipv4_mapped a of Some b \<Rightarrow> Host4 b | None \<Rightarrow> Net6 (a AND netmask 64)))"

definition bucket_str :: "bucket \<Rightarrow> ustr" where
  "bucket_str k = (case k of Host4 b \<Rightarrow> v4_str b | Net6 a \<Rightarrow> v6_str a @ lit ''/'' @ nat_str 64)"

lemma scope_part_none: "37 \<notin> set s \<Longrightarrow> scope_part s = []"
  by (simp add: scope_part_def partition_at_absent)

lemma network_ident_bucket:
  assumes "ip_address (strip s) = Some ip" and "37 \<notin> set s"
  shows "network_ident s = bucket_str (bucket_of ip)"
proof -
  have "37 \<notin> set (strip s)" using assms(2) set_strip_by by fast
  then show ?thesis
    using assms(1) scope_part_none
    by (auto simp: network_ident_def bucket_str_def bucket_of_def network_str_def IPV6_PREFIX_def Let_def split: ip_addr.split option.split)
qed

lemma v4_str_no_slash: "47 \<notin> set (v4_str b)"
proof -
  have "47 \<notin> set (nat_str n)" for n
    using nat_str_digits [of n] by (auto simp: list_all_iff is_digit_ascii_def)
  then show ?thesis by (auto simp: v4_str_def v4_octets_def)
qed

lemma bucket_str_inj: "bucket_str j = bucket_str k \<longleftrightarrow> j = k"
proof -
  have slash: "47 \<in> set (lit ''/'')" by (simp add: lit_def)
  then have "v4_str b \<noteq> v6_str a @ lit ''/'' @ nat_str 64" for a b
    using v4_str_no_slash [of b] by (metis Un_iff set_append)
  then show ?thesis by (cases j; cases k) (auto simp: bucket_str_def dest: sym)
qed

text \<open>C18: Two clients are counted together exactly when their addresses are in one bucket: the same IPv4 address,
  however it is written and also as an IPv4-mapped IPv6 address, or the same IPv6 network of 64 bits; no two buckets
  share a key.  Addresses with a zone id (a percent sign) are left out: one without host bits keeps its zone in the key.\<close>

theorem network_ident_buckets:
  assumes "ip_address (strip s) = Some ip" and "ip_address (strip t) = Some jp" and "37 \<notin> set s \<union> set t"
  shows "network_ident s = network_ident t \<longleftrightarrow> bucket_of ip = bucket_of jp"
  using network_ident_bucket [OF assms(1)] network_ident_bucket [OF assms(2)] assms(3) by (simp add: bucket_str_inj)

theorem network_ident_buckets_witness:
  "network_ident (lit ''2001:db8::1'') = network_ident (lit '' 2001:db8:0:0:f::2'')"
proof -
  have a: "ip_address (strip (lit ''2001:db8::1'')) = Some (V6 0x20010db8000000000000000000000001)" by code_simp
  have b: "ip_address (strip (lit '' 2001:db8:0:0:f::2'')) = Some (V6 0x20010db800000000000f000000000002)" by code_simp
  have "37 \<notin> set (lit ''2001:db8::1'') \<union> set (lit '' 2001:db8:0:0:f::2'')" by (simp add: lit_def)
  moreover have "bucket_of (V6 0x20010db8000000000000000000000001) = bucket_of (V6 0x20010db800000000000f000000000002)" by code_simp
  ultimately show ?thesis using network_ident_buckets [OF a b] by simp
qed

section \<open>Accounts\<close>

lemma register_keeps:
  assumes "register_post ae d t = (t', r)" and "uniq username_key (us_rows t)" and "list_all (\<lambda>u. u_id u < us_next t) (us_rows t)"
  shows "uniq username_key (us_rows t') \<and> list_all (\<lambda>u. u_id u < us_next t') (us_rows t')"
proof -
  have "list_all (\<lambda>u. u_id u < us_next t + 1) (us_rows t)" using assms(3) by (auto simp: list_all_iff)
  then show ?thesis using assms
    by (auto simp: register_post_def Let_def uniq_snoc split: sum.splits prod.splits if_splits)
qed

text \<open>A registration that is refused leaves every account as it was; one that is accepted adds exactly one account,
  under a name nobody had and with an id that was never used, and the answer names both.\<close>

theorem register_adds_one_account:
  assumes "register_post ae d t = (t', r)" and "list_all (\<lambda>u. u_id u < us_next t) (us_rows t)"
  shows "case r of
      Inl _ \<Rightarrow> us_rows t' = us_rows t
    | Inr (i, n) \<Rightarrow> \<exists>u. us_rows t' = us_rows t @ [u] \<and> u_id u = i \<and> u_username u = n
        \<and> n \<notin> u_username ` set (us_rows t) \<and> i \<notin> u_id ` set (us_rows t)"
  using assms
  by (auto simp: register_post_def Let_def conflicts_def has_key_iff username_key_def list_all_iff split: sum.splits prod.splits if_splits)
    (blast | force)+

end
