(* ===== verification/Access.thy ===== *)
theory Access
  imports Core_Api Feed_Api
begin

text \<open>
  Who may call what: the \<^verbatim>\<open>permission_classes\<close> and \<^verbatim>\<open>throttle_classes\<close> of the views, with the defaults of
  \<^verbatim>\<open>REST_FRAMEWORK\<close> in \<^verbatim>\<open>src/newsforge/settings/base.py\<close>, and the routes of the \<^verbatim>\<open>urls.py\<close> files.

  The framework's own permission classes, the methods its view classes serve, and the views of the token library
  are the fields of \<open>drf_env\<close>; \<open>drf_ok\<close> states their documented behaviour.
\<close>

section \<open>Views and routes\<close>

datatype view =
    ApiRoot | RegisterView | TokenView | TokenRefreshThrottledView | FeedViewSet | ArticleViewSet | TagViewSet | TagRuleViewSet
  | ArticleTagView | SearchView | SubscriptionViewSet | Health probe

datatype view_base = ModelViewSet | ReadOnlyModelViewSet | APIRootView | TokenBase | APIView "http_method list"

text \<open>The patterns of \<^verbatim>\<open>newsforge/urls.py\<close> and of the files it includes, in their order; a router's pattern stands for its list, detail and
  extra routes.\<close>

definition feed_urls :: "(ustr \<times> view) list" where "feed_urls = [(lit ''feeds'', FeedViewSet)]"

definition article_urls :: "(ustr \<times> view) list" where "article_urls = [(lit ''articles'', ArticleViewSet)]"

definition tag_urls :: "(ustr \<times> view) list" where
  "tag_urls = [(lit ''tags'', TagViewSet), (lit ''tag-rules'', TagRuleViewSet), (lit ''articles/<int:article_id>/tags/'', ArticleTagView)]"

definition search_urls :: "(ustr \<times> view) list" where "search_urls = [(lit ''search/'', SearchView)]"

definition subscription_urls :: "(ustr \<times> view) list" where
  "subscription_urls = [(lit ''subscriptions'', SubscriptionViewSet)]"

definition core_urls :: "(ustr \<times> view) list" where
  "core_urls =
     [([], ApiRoot), (lit ''auth/register/'', RegisterView), (lit ''auth/token/'', TokenView),
      (lit ''auth/token/refresh/'', TokenRefreshThrottledView)]
     @ feed_urls @ article_urls @ tag_urls @ search_urls @ subscription_urls"

datatype route_target = Own view | SpectacularAPIView | SpectacularSwaggerView | Metrics

definition urlpatterns :: "(ustr \<times> route_target) list" where
  "urlpatterns =
     map (\<lambda>(p, v). (lit ''api/v1/'' @ p, Own v)) core_urls
     @ [(lit ''api/schema/'', SpectacularAPIView), (lit ''api/schema/swagger-ui/'', SpectacularSwaggerView),
        (lit ''health/live'', Own (Health LiveView)), (lit ''health/ready'', Own (Health ReadyView)), (lit ''metrics'', Metrics)]"

text \<open>The resources that the API root lists, by the name of a route.\<close>

definition api_root_dict :: "(ustr \<times> ustr) list" where
  "api_root_dict =
     [(lit ''feeds'', lit ''feed-list''), (lit ''articles'', lit ''article-list''), (lit ''tags'', lit ''tag-list''),
      (lit ''tag-rules'', lit ''tag-rule-list''), (lit ''subscriptions'', lit ''subscription-list''), (lit ''search'', lit ''search'')]"

section \<open>Permissions\<close>

datatype client = Anonymous | Account int bool \<comment> \<open>primary key, \<open>is_staff\<close>\<close>

fun client_staff :: "client \<Rightarrow> bool" where
  "client_staff Anonymous = False"
| "client_staff (Account _ staff) = staff"

datatype permission = AllowAny | IsAuthenticated | IsAdminUser | IsAuthenticatedOrReadOnly | IsStaffOrReadOnly

section \<open>What each view declares\<close>

datatype throttle = AnonRateThrottle | UserRateThrottle | ScopedRateThrottle ustr | RegisterThrottle

definition DEFAULT_THROTTLE_CLASSES :: "throttle list" where
  "DEFAULT_THROTTLE_CLASSES = [AnonRateThrottle, UserRateThrottle]"

text \<open>The class a view extends, and its \<^verbatim>\<open>permission_classes\<close> and \<^verbatim>\<open>throttle_classes\<close> when it sets them.\<close>

record view_config =
  vc_base :: view_base
  vc_permissions :: "permission list option"
  vc_throttles :: "throttle list option"

definition api_root_config :: view_config where
  "api_root_config = \<lparr>vc_base = APIRootView, vc_permissions = None, vc_throttles = None\<rparr>"

definition register_view_config :: view_config where
  "register_view_config =
     \<lparr>vc_base = APIView [POST], vc_permissions = Some [AllowAny],
      vc_throttles = Some [ScopedRateThrottle (lit ''auth''), RegisterThrottle]\<rparr>"

definition token_view_config :: view_config where
  "token_view_config = \<lparr>vc_base = TokenBase, vc_permissions = None, vc_throttles = Some [ScopedRateThrottle (lit ''auth'')]\<rparr>"

definition token_refresh_view_config :: view_config where
  "token_refresh_view_config = \<lparr>vc_base = TokenBase, vc_permissions = None, vc_throttles = Some [ScopedRateThrottle (lit ''auth'')]\<rparr>"

definition feed_viewset_config :: view_config where
  "feed_viewset_config = \<lparr>vc_base = ModelViewSet, vc_permissions = Some [IsStaffOrReadOnly], vc_throttles = None\<rparr>"

definition article_viewset_config :: view_config where
  "article_viewset_config = \<lparr>vc_base = ReadOnlyModelViewSet, vc_permissions = Some [AllowAny], vc_throttles = None\<rparr>"

definition tag_viewset_config :: view_config where
  "tag_viewset_config = \<lparr>vc_base = ModelViewSet, vc_permissions = Some [IsStaffOrReadOnly], vc_throttles = None\<rparr>"

definition tag_rule_viewset_config :: view_config where
  "tag_rule_viewset_config = \<lparr>vc_base = ModelViewSet, vc_permissions = Some [IsAdminUser], vc_throttles = None\<rparr>"

definition article_tag_view_config :: view_config where
  "article_tag_view_config = \<lparr>vc_base = APIView [POST, DELETE], vc_permissions = Some [IsAdminUser], vc_throttles = None\<rparr>"

definition search_view_config :: view_config where
  "search_view_config =
     \<lparr>vc_base = APIView [GET], vc_permissions = Some [AllowAny],
      vc_throttles = Some [AnonRateThrottle, UserRateThrottle, ScopedRateThrottle (lit ''search'')]\<rparr>"

definition subscription_viewset_config :: view_config where
  "subscription_viewset_config = \<lparr>vc_base = ModelViewSet, vc_permissions = Some [IsAuthenticated], vc_throttles = None\<rparr>"

definition live_view_config :: view_config where
  "live_view_config = \<lparr>vc_base = APIView [GET], vc_permissions = Some [AllowAny], vc_throttles = Some []\<rparr>"

definition ready_view_config :: view_config where
  "ready_view_config = \<lparr>vc_base = APIView [GET], vc_permissions = Some [AllowAny], vc_throttles = Some []\<rparr>"

lemmas view_configs =
  api_root_config_def register_view_config_def token_view_config_def token_refresh_view_config_def feed_viewset_config_def
  article_viewset_config_def tag_viewset_config_def tag_rule_viewset_config_def article_tag_view_config_def search_view_config_def
  subscription_viewset_config_def live_view_config_def ready_view_config_def

fun config_of :: "view \<Rightarrow> view_config" where
  "config_of ApiRoot = api_root_config"
| "config_of RegisterView = register_view_config"
| "config_of TokenView = token_view_config"
| "config_of TokenRefreshThrottledView = token_refresh_view_config"
| "config_of FeedViewSet = feed_viewset_config"
| "config_of ArticleViewSet = article_viewset_config"
| "config_of TagViewSet = tag_viewset_config"
| "config_of TagRuleViewSet = tag_rule_viewset_config"
| "config_of ArticleTagView = article_tag_view_config"
| "config_of SearchView = search_view_config"
| "config_of SubscriptionViewSet = subscription_viewset_config"
| "config_of (Health LiveView) = live_view_config"
| "config_of (Health ReadyView) = ready_view_config"

section \<open>Permissions and throttles in force\<close>

definition DEFAULT_PERMISSION_CLASSES :: "permission list" where
  "DEFAULT_PERMISSION_CLASSES = [IsAuthenticatedOrReadOnly]"

record drf_env =
  drf_permits :: "permission \<Rightarrow> client \<Rightarrow> http_method \<Rightarrow> bool"
  drf_methods :: "view_base \<Rightarrow> http_method list"
  token_permissions :: "permission list"

definition permission_classes :: "drf_env \<Rightarrow> view \<Rightarrow> permission list" where
  "permission_classes drf v =
     (case vc_permissions (config_of v) of
        Some ps \<Rightarrow> ps
      | None \<Rightarrow> if vc_base (config_of v) = TokenBase then token_permissions drf else DEFAULT_PERMISSION_CLASSES)"

definition has_permission :: "drf_env \<Rightarrow> permission \<Rightarrow> client \<Rightarrow> http_method \<Rightarrow> bool" where
  "has_permission drf p u m =
     (if p = IsStaffOrReadOnly then is_staff_or_read_only m (client_staff u) else drf_permits drf p u m)"

text \<open>A handler runs when every permission class agrees and the view has a handler for the method.\<close>

definition runs_handler :: "drf_env \<Rightarrow> view \<Rightarrow> client \<Rightarrow> http_method \<Rightarrow> bool" where
  "runs_handler drf v u m \<longleftrightarrow> list_all (\<lambda>p. has_permission drf p u m) (permission_classes drf v) \<and> m \<in> set (drf_methods drf (vc_base (config_of v)))"

definition throttle_classes :: "view \<Rightarrow> throttle list" where
  "throttle_classes v = (case vc_throttles (config_of v) of Some ts \<Rightarrow> ts | None \<Rightarrow> DEFAULT_THROTTLE_CLASSES)"

definition throttle_scope :: "throttle \<Rightarrow> ustr" where
  "throttle_scope t =
     (case t of AnonRateThrottle \<Rightarrow> lit ''anon'' | UserRateThrottle \<Rightarrow> lit ''user'' | ScopedRateThrottle s \<Rightarrow> s | RegisterThrottle \<Rightarrow> lit ''register'')"

text \<open>\<^verbatim>\<open>DEFAULT_THROTTLE_RATES\<close>: scope, environment variable, default.\<close>

definition DEFAULT_THROTTLE_RATES :: "(ustr \<times> ustr \<times> ustr) list" where
  "DEFAULT_THROTTLE_RATES =
     [(lit ''anon'', lit ''THROTTLE_ANON'', lit ''120/min''), (lit ''user'', lit ''THROTTLE_USER'', lit ''600/min''),
      (lit ''auth'', lit ''THROTTLE_AUTH'', lit ''10/min''), (lit ''register'', lit ''THROTTLE_REGISTER'', lit ''20/day''),
      (lit ''search'', lit ''THROTTLE_SEARCH'', lit ''60/min'')]"

definition throttle_rate :: "(ustr \<rightharpoonup> ustr) \<Rightarrow> throttle \<Rightarrow> ustr option" where
  "throttle_rate environ t =
     map_option (\<lambda>(var, dflt). case environ var of None \<Rightarrow> dflt | Some v \<Rightarrow> v) (map_of DEFAULT_THROTTLE_RATES (throttle_scope t))"

text \<open>\<^verbatim>\<open>get_ident\<close> of the four classes; \<open>super_ident\<close> is that of the framework.\<close>

definition get_ident :: "('r \<Rightarrow> ustr) \<Rightarrow> 'r \<Rightarrow> ustr" where
  "get_ident super_ident req = network_ident (super_ident req)"

section \<open>The access matrix\<close>

text \<open>Documented behaviour of the framework.\<close>

definition drf_ok :: "drf_env \<Rightarrow> bool" where
  "drf_ok drf \<longleftrightarrow>
     (\<forall>u m. drf_permits drf AllowAny u m)
     \<and> (\<forall>u m. drf_permits drf IsAuthenticated u m \<longleftrightarrow> u \<noteq> Anonymous)
     \<and> (\<forall>u m. drf_permits drf IsAdminUser u m \<longleftrightarrow> client_staff u)
     \<and> (\<forall>u m. drf_permits drf IsAuthenticatedOrReadOnly u m \<longleftrightarrow> m \<in> set SAFE_METHODS \<or> u \<noteq> Anonymous)
     \<and> set (drf_methods drf ModelViewSet) = UNIV
     \<and> set (drf_methods drf ReadOnlyModelViewSet) = set SAFE_METHODS \<and> set (drf_methods drf APIRootView) = set SAFE_METHODS
     \<and> (\<forall>ms. set (drf_methods drf (APIView ms)) = set ms \<union> {OPTIONS} \<union> (if GET \<in> set ms then {HEAD} else {}))"

lemma drf_okD:
  assumes "drf_ok drf"
  shows "drf_permits drf AllowAny u m" "drf_permits drf IsAuthenticated u m \<longleftrightarrow> u \<noteq> Anonymous"
    "drf_permits drf IsAdminUser u m \<longleftrightarrow> client_staff u"
    "drf_permits drf IsAuthenticatedOrReadOnly u m \<longleftrightarrow> m \<in> set SAFE_METHODS \<or> u \<noteq> Anonymous"
    "set (drf_methods drf ModelViewSet) = UNIV" "set (drf_methods drf ReadOnlyModelViewSet) = set SAFE_METHODS"
    "set (drf_methods drf APIRootView) = set SAFE_METHODS"
    "set (drf_methods drf (APIView ms)) = set ms \<union> {OPTIONS} \<union> (if GET \<in> set ms then {HEAD} else {})"
  using assms by (simp_all add: drf_ok_def)

text \<open>C28: Reading and writing by role.  A request that may change something runs only for staff, except that anyone may register
  or ask for a token and a logged-in account may work on its subscriptions; what an anonymous client may read is everything
  but tag rules and subscriptions, and tag rules are for staff only; every view of the API is throttled, by a scope
  that has a rate, and only the health probes are not.\<close>

theorem access_matrix:
  assumes "drf_ok drf"
  shows "(runs_handler drf v u m \<and> m \<notin> set SAFE_METHODS \<longrightarrow>
            client_staff u \<or> v \<in> {RegisterView, TokenView, TokenRefreshThrottledView} \<or> v = SubscriptionViewSet \<and> u \<noteq> Anonymous)
    \<and> (runs_handler drf TagRuleViewSet u m \<longleftrightarrow> client_staff u) \<and> (runs_handler drf SubscriptionViewSet u m \<longleftrightarrow> u \<noteq> Anonymous)
    \<and> (v \<in> {ApiRoot, FeedViewSet, ArticleViewSet, TagViewSet, SearchView} \<longrightarrow> runs_handler drf v Anonymous GET)
    \<and> (throttle_classes v = [] \<longleftrightarrow> (\<exists>p. v = Health p))
    \<and> list_all (\<lambda>t. throttle_rate environ t \<noteq> None) (throttle_classes v)"
proof -
  note drf = drf_okD [OF assms]
  note defs = runs_handler_def permission_classes_def view_configs has_permission_def is_staff_or_read_only_def SAFE_METHODS_def
    DEFAULT_PERMISSION_CLASSES_def
  have writes: "client_staff u \<or> v \<in> {RegisterView, TokenView, TokenRefreshThrottledView} \<or> v = SubscriptionViewSet \<and> u \<noteq> Anonymous"
    if "runs_handler drf v u m" "m \<notin> set SAFE_METHODS"
    using that by (cases v rule: config_of.cases) (auto simp: defs drf split: if_splits)
  have reads: "runs_handler drf v Anonymous GET" if "v \<in> {ApiRoot, FeedViewSet, ArticleViewSet, TagViewSet, SearchView}"
    using that by (auto simp: defs drf)
  have rates: "throttle_classes v = [] \<longleftrightarrow> (\<exists>p. v = Health p)" "list_all (\<lambda>t. throttle_rate environ t \<noteq> None) (throttle_classes v)"
    by (cases v rule: config_of.cases; simp add: throttle_classes_def view_configs DEFAULT_THROTTLE_CLASSES_def throttle_rate_def throttle_scope_def DEFAULT_THROTTLE_RATES_def lit_def)+
  have rules: "runs_handler drf TagRuleViewSet u m \<longleftrightarrow> client_staff u" "runs_handler drf SubscriptionViewSet u m \<longleftrightarrow> u \<noteq> Anonymous"
    by (simp_all add: defs drf)
  show ?thesis using writes reads rates rules by blast
qed

definition drf_doc :: drf_env where
  "drf_doc = \<lparr>drf_permits = (\<lambda>p u m. case p of AllowAny \<Rightarrow> True | IsAuthenticated \<Rightarrow> u \<noteq> Anonymous | IsAdminUser \<Rightarrow> client_staff u
       | IsAuthenticatedOrReadOnly \<Rightarrow> m \<in> set SAFE_METHODS \<or> u \<noteq> Anonymous | IsStaffOrReadOnly \<Rightarrow> False),
     drf_methods = (\<lambda>b. case b of ModelViewSet \<Rightarrow> [GET, HEAD, OPTIONS, POST, PUT, PATCH, DELETE] | TokenBase \<Rightarrow> [OPTIONS, POST]
       | APIView ms \<Rightarrow> ms @ OPTIONS # (if GET \<in> set ms then [HEAD] else []) | _ \<Rightarrow> SAFE_METHODS),
     token_permissions = []\<rparr>"

lemma drf_doc_ok: "drf_ok drf_doc"
proof -
  have "x \<in> {GET, HEAD, OPTIONS, POST, PUT, PATCH, DELETE}" for x by (cases x) simp_all
  then have "UNIV = {GET, HEAD, OPTIONS, POST, PUT, PATCH, DELETE}" by blast
  then show ?thesis by (simp add: drf_ok_def drf_doc_def)
qed

theorem access_matrix_witness:
  "drf_ok drf_doc \<and> \<not> runs_handler drf_doc FeedViewSet (Account 3 False) DELETE \<and> runs_handler drf_doc SearchView Anonymous GET"
proof -
  have "DELETE \<notin> set SAFE_METHODS" by (simp add: SAFE_METHODS_def)
  then show ?thesis
    using access_matrix [OF drf_doc_ok, of FeedViewSet "Account 3 False" DELETE] access_matrix [OF drf_doc_ok, of SearchView] drf_doc_ok by simp
qed

text \<open>The health probes answer before any of this: the middleware sends exactly the two health routes to their views.\<close>

lemma probes_bypass: "health_middleware get_response run path =
    (if path = lit ''/health/live'' then run LiveView else if path = lit ''/health/ready'' then run ReadyView else get_response path)"
  by (simp add: health_middleware_def health_views_def lit_def)

text \<open>No two patterns are equal, and what is not throttled is a health probe, a page of the schema or the metrics.\<close>

lemma routes_distinct:
  "distinct (map fst urlpatterns) \<and> list_all (\<lambda>(_, t). case t of Own v \<Rightarrow> throttle_classes v \<noteq> [] \<or> v \<in> range Health | _ \<Rightarrow> True) urlpatterns"
  by (simp add: urlpatterns_def core_urls_def feed_urls_def article_urls_def tag_urls_def search_urls_def subscription_urls_def
      throttle_classes_def view_configs DEFAULT_THROTTLE_CLASSES_def lit_def)

section \<open>The serializer of a feed\<close>

datatype feed_serializer = FeedSerializer | PublicFeedSerializer

definition get_serializer_class :: "bool \<Rightarrow> ustr \<Rightarrow> client \<Rightarrow> feed_serializer" where
  "get_serializer_class swagger_fake_view act u =
     (if swagger_fake_view then (if act \<in> {lit ''list'', lit ''retrieve''} then PublicFeedSerializer else FeedSerializer)
      else if client_staff u then FeedSerializer else PublicFeedSerializer)"

text \<open>The full view of a feed, with its crawl state, is for those who may also change it.\<close>

lemma full_view_for_writers:
  "drf_ok drf \<Longrightarrow> get_serializer_class False act u = FeedSerializer \<longleftrightarrow> runs_handler drf FeedViewSet u POST"
  by (simp add: get_serializer_class_def runs_handler_def permission_classes_def view_configs has_permission_def
      is_staff_or_read_only_def SAFE_METHODS_def drf_okD)

end
