(* ===== verification/Deployment.thy ===== *)
theory Deployment
  imports Normalizer Subscriptions
begin

text \<open>
  Start-up and task routing: the settings that \<^verbatim>\<open>src/newsforge/settings/base.py\<close> and \<^verbatim>\<open>prod.py\<close> read from the environment, and the
  schedule and routes of \<^verbatim>\<open>src/newsforge/celery.py\<close>.  A route's pattern ends in a star, so it matches by prefix.
  The conversions of \<^verbatim>\<open>environ.Env\<close> are the fields of \<open>environ_env\<close>.
\<close>

section \<open>The secret key\<close>

definition DEV_SECRET_KEY :: ustr where
  "DEV_SECRET_KEY = lit ''dev-only-insecure-secret-key-do-not-use-in-prod''"

definition PUBLIC_KEY_HASHES :: "ustr list" where
  "PUBLIC_KEY_HASHES =
     [lit ''8e83ff75d6fc340c1911cd554bcba6a93275ec3bb245d98c89aed53abf3882d2'',
      lit ''b38a92f368260dd8488ffb05ac1e29b110c3b162f6bcc6467f99771ee1151b64'']"

text \<open>The condition under which the settings raise \<^verbatim>\<open>ImproperlyConfigured\<close>.\<close>

definition secret_key_refused :: "text_env \<Rightarrow> html_env \<Rightarrow> ustr \<Rightarrow> bool" where
  "secret_key_refused te he key \<longleftrightarrow>
     int (length key) < 50
     \<or> int (length (remdups key)) < 5
     \<or> prefix (lit ''django-insecure-'') key
     \<or> key = DEV_SECRET_KEY
     \<or> list_ex (\<lambda>marker. contains_sub marker (py_lower te key)) [lit ''insecure'', lit ''test-only'']
     \<or> sha256_hex he (utf8 key) \<in> set PUBLIC_KEY_HASHES"

text \<open>
  The development key is named in the condition, but is too short to need it; its other faults are independent of the
  environment too.  A short or repetitive key never starts the application, whatever the digest says.
\<close>

lemma dev_key_refused: "secret_key_refused te he DEV_SECRET_KEY" and "length DEV_SECRET_KEY < 50"
  by (simp_all add: secret_key_refused_def DEV_SECRET_KEY_def)

lemma accepted_key_varied: "\<not> secret_key_refused te he key \<Longrightarrow> 50 \<le> length key \<and> 5 \<le> card (set key) \<and> key \<noteq> DEV_SECRET_KEY"
  by (auto simp: secret_key_refused_def length_remdups_card_conv)

section \<open>Settings from the environment\<close>

datatype config_error = ImproperlyConfigured ustr | InsecureSecretKey | InvalidValue ustr

text \<open>\<open>env_vars\<close> is the lookup as \<^verbatim>\<open>environ.Env\<close> does it: a value that names another variable
  (\<^verbatim>\<open>$OTHER\<close>) is already resolved there.\<close>

record 'db environ_env =
  env_vars :: "ustr \<rightharpoonup> ustr"
  to_int :: "ustr \<Rightarrow> int option" \<comment> \<open>\<open>None\<close>: it raises\<close>
  to_bool :: "ustr \<Rightarrow> bool"
  to_list :: "ustr \<Rightarrow> ustr list"
  to_db :: "ustr \<Rightarrow> 'db option" \<comment> \<open>\<open>None\<close>: it raises\<close>

text \<open>\<^verbatim>\<open>env(name)\<close> without a default, and the typed readers with one.\<close>

definition env_required :: "'db environ_env \<Rightarrow> ustr \<Rightarrow> config_error + ustr" where
  "env_required ev name = of_option (ImproperlyConfigured name) (env_vars ev name)"

definition env_str :: "'db environ_env \<Rightarrow> ustr \<Rightarrow> ustr \<Rightarrow> ustr" where
  "env_str ev name dflt = (case env_vars ev name of None \<Rightarrow> dflt | Some v \<Rightarrow> v)"

definition env_int :: "'db environ_env \<Rightarrow> ustr \<Rightarrow> int \<Rightarrow> config_error + int" where
  "env_int ev name dflt = (case env_vars ev name of None \<Rightarrow> Inr dflt | Some v \<Rightarrow> of_option (InvalidValue name) (to_int ev v))"

definition env_bool :: "'db environ_env \<Rightarrow> ustr \<Rightarrow> bool \<Rightarrow> bool" where
  "env_bool ev name dflt = (case env_vars ev name of None \<Rightarrow> dflt | Some v \<Rightarrow> to_bool ev v)"

definition env_list :: "'db environ_env \<Rightarrow> ustr \<Rightarrow> ustr list \<Rightarrow> ustr list" where
  "env_list ev name dflt = (case env_vars ev name of None \<Rightarrow> dflt | Some v \<Rightarrow> to_list ev v)"

definition env_db :: "'db environ_env \<Rightarrow> ustr \<Rightarrow> ustr \<Rightarrow> config_error + 'db" where
  "env_db ev name dflt = of_option (InvalidValue name) (to_db ev (env_str ev name dflt))"

record 'db base_settings =
  bs_debug :: bool
  bs_allowed_hosts :: "ustr list"
  bs_database :: 'db
  bs_cache_location :: ustr
  bs_num_proxies :: int
  bs_metrics_token :: ustr
  bs_crawler :: settings
  bs_limits :: sub_settings
  bs_email :: "ustr \<times> int \<times> ustr \<times> ustr \<times> bool \<times> ustr"
  bs_broker_url :: ustr
  bs_result_backend :: ustr
  bs_time_limits :: "int \<times> int"

text \<open>A negative \<^verbatim>\<open>MAX_RESPONSE_BYTES\<close> counts as zero here; with either, every body that is not empty is too large.\<close>

definition crawler_settings :: "'db environ_env \<Rightarrow> config_error + (settings \<times> sub_settings)" where
  "crawler_settings ev =
     ebind (env_int ev (lit ''HTTP_TIMEOUT'') 20) (\<lambda>timeout.
     ebind (env_int ev (lit ''MAX_RESPONSE_BYTES'') 5242880) (\<lambda>max_bytes.
     ebind (env_int ev (lit ''MAX_ENTRIES_PER_FETCH'') 200) (\<lambda>max_entries.
     ebind (env_int ev (lit ''MAX_SUBSCRIPTIONS_PER_USER'') 20) (\<lambda>max_subs.
     ebind (env_int ev (lit ''MAX_ACCOUNTS_PER_TARGET'') 5) (\<lambda>max_accounts.
     ebind (env_int ev (lit ''PER_DOMAIN_MIN_INTERVAL'') 30) (\<lambda>interval.
       Inr (\<lparr>USER_AGENT = env_str ev (lit ''USER_AGENT'') (lit ''newsforge/0.1''), HTTP_TIMEOUT = timeout,
             MAX_RESPONSE_BYTES = nat max_bytes, MAX_ENTRIES_PER_FETCH = max_entries,
             ALLOW_PLAIN_HTTP = env_bool ev (lit ''ALLOW_PLAIN_HTTP'') False, PER_DOMAIN_MIN_INTERVAL = interval\<rparr>,
            \<lparr>MAX_SUBSCRIPTIONS_PER_USER = max_subs, MAX_ACCOUNTS_PER_TARGET = max_accounts\<rparr>)))))))"

definition load_base :: "'db environ_env \<Rightarrow> config_error + 'db base_settings" where
  "load_base ev =
     ebind (env_db ev (lit ''DATABASE_URL'') (lit ''postgres://nf:nf@db:5432/newsforge'')) (\<lambda>db.
     ebind (env_int ev (lit ''NUM_PROXIES'') 0) (\<lambda>proxies.
     ebind (crawler_settings ev) (\<lambda>(crawler, limits).
     ebind (env_int ev (lit ''EMAIL_PORT'') 25) (\<lambda>email_port.
     ebind (env_int ev (lit ''CELERY_TASK_SOFT_TIME_LIMIT'') 60) (\<lambda>soft.
     ebind (env_int ev (lit ''CELERY_TASK_TIME_LIMIT'') 90) (\<lambda>hard.
       Inr \<lparr>bs_debug = env_bool ev (lit ''DEBUG'') False,
            bs_allowed_hosts = env_list ev (lit ''ALLOWED_HOSTS'') [lit ''localhost'', lit ''127.0.0.1''],
            bs_database = db, bs_cache_location = env_str ev (lit ''REDIS_URL'') (lit ''redis://redis:6379/0''),
            bs_num_proxies = proxies, bs_metrics_token = env_str ev (lit ''METRICS_TOKEN'') [], bs_crawler = crawler, bs_limits = limits,
            bs_email = (env_str ev (lit ''EMAIL_HOST'') (lit ''localhost''), email_port, env_str ev (lit ''EMAIL_HOST_USER'') [],
               env_str ev (lit ''EMAIL_HOST_PASSWORD'') [], env_bool ev (lit ''EMAIL_USE_TLS'') False,
               env_str ev (lit ''DEFAULT_FROM_EMAIL'') (lit ''no-reply@newsforge.local'')),
            bs_broker_url = env_str ev (lit ''CELERY_BROKER_URL'') (lit ''redis://redis:6379/1''),
            bs_result_backend = env_str ev (lit ''CELERY_RESULT_BACKEND'') (lit ''redis://redis:6379/2''), bs_time_limits = (soft, hard)\<rparr>))))))"

record 'db prod_settings =
  ps_base :: "'db base_settings"
  ps_secret_key :: ustr
  ps_ssl_redirect :: bool
  ps_hsts_preload :: bool
  ps_proxy_ssl_header :: "(ustr \<times> ustr) option"
  ps_silenced_checks :: "ustr list"

definition SECURE_HSTS_SECONDS :: int where "SECURE_HSTS_SECONDS = 31536000"

definition load_prod :: "text_env \<Rightarrow> html_env \<Rightarrow> 'db environ_env \<Rightarrow> config_error + 'db prod_settings" where
  "load_prod te he ev =
     ebind (load_base ev) (\<lambda>base.
     ebind (env_required ev (lit ''SECRET_KEY'')) (\<lambda>key.
     if secret_key_refused te he key then Inl InsecureSecretKey
     else
     ebind (env_required ev (lit ''ALLOWED_HOSTS'')) (\<lambda>hosts.
     ebind (env_required ev (lit ''DATABASE_URL'')) (\<lambda>db_url.
     ebind (of_option (InvalidValue (lit ''DATABASE_URL'')) (to_db ev db_url)) (\<lambda>db.
     ebind (env_required ev (lit ''REDIS_URL'')) (\<lambda>redis_url.
     ebind (env_required ev (lit ''CELERY_BROKER_URL'')) (\<lambda>broker_url.
     ebind (env_required ev (lit ''CELERY_RESULT_BACKEND'')) (\<lambda>result_backend.
       let preload = env_bool ev (lit ''SECURE_HSTS_PRELOAD'') False in
       Inr \<lparr>ps_base = base\<lparr>bs_debug := False, bs_allowed_hosts := to_list ev hosts, bs_database := db,
                           bs_cache_location := redis_url, bs_broker_url := broker_url, bs_result_backend := result_backend\<rparr>,
            ps_secret_key = key, ps_ssl_redirect = env_bool ev (lit ''SECURE_SSL_REDIRECT'') True, ps_hsts_preload = preload,
            ps_proxy_ssl_header = (if env_bool ev (lit ''TRUST_X_FORWARDED_PROTO'') False
              then Some (lit ''HTTP_X_FORWARDED_PROTO'', lit ''https'') else None),
            ps_silenced_checks = (if preload then [] else [lit ''security.W021''])\<rparr>))))))))"

definition REQUIRED_VARS :: "ustr list" where
  "REQUIRED_VARS = [lit ''SECRET_KEY'', lit ''ALLOWED_HOSTS'', lit ''DATABASE_URL'', lit ''REDIS_URL'', lit ''CELERY_BROKER_URL'', lit ''CELERY_RESULT_BACKEND'']"

lemma env_required_Inr: "env_required ev name = Inr v \<longleftrightarrow> env_vars ev name = Some v"
  by (cases "env_vars ev name") (simp_all add: env_required_def)

lemma base_database: "load_base ev = Inr b \<Longrightarrow> env_vars ev (lit ''DATABASE_URL'') = Some url \<Longrightarrow> to_db ev url \<noteq> None"
  by (cases "to_db ev url") (auto simp: load_base_def env_db_def env_str_def ebind_Inr_iff)

lemma load_prod_ok:
  assumes "load_base ev = Inr b" and "list_all (\<lambda>v. env_vars ev v \<noteq> None) REQUIRED_VARS"
    and "\<not> secret_key_refused te he (env_str ev (lit ''SECRET_KEY'') [])"
  shows "\<exists>s. load_prod te he ev = Inr s"
proof -
  obtain key hosts url redis broker backend where
    vars: "env_vars ev (lit ''SECRET_KEY'') = Some key" "env_vars ev (lit ''ALLOWED_HOSTS'') = Some hosts" "env_vars ev (lit ''DATABASE_URL'') = Some url"
      "env_vars ev (lit ''REDIS_URL'') = Some redis" "env_vars ev (lit ''CELERY_BROKER_URL'') = Some broker"
      "env_vars ev (lit ''CELERY_RESULT_BACKEND'') = Some backend"
    using assms(2) by (auto simp: REQUIRED_VARS_def)
  obtain db where "to_db ev url = Some db" using base_database [OF assms(1) vars(3)] by blast
  then show ?thesis using assms(1,3) vars by (simp add: load_prod_def env_required_def env_str_def Let_def)
qed

lemma load_prod_Inr:
  assumes "load_prod te he ev = Inr s"
  shows "\<exists>b. load_base ev = Inr b" and "list_all (\<lambda>v. env_vars ev v \<noteq> None) REQUIRED_VARS"
    and "\<not> secret_key_refused te he (env_str ev (lit ''SECRET_KEY'') [])"
    and "\<not> bs_debug (ps_base s) \<and> 50 \<le> length (ps_secret_key s) \<and> 5 \<le> card (set (ps_secret_key s))
          \<and> env_vars ev (lit ''SECRET_KEY'') = Some (ps_secret_key s)
          \<and> env_vars ev (lit ''REDIS_URL'') = Some (bs_cache_location (ps_base s))
          \<and> env_vars ev (lit ''CELERY_BROKER_URL'') = Some (bs_broker_url (ps_base s))
          \<and> env_vars ev (lit ''CELERY_RESULT_BACKEND'') = Some (bs_result_backend (ps_base s))
          \<and> (\<exists>url. env_vars ev (lit ''DATABASE_URL'') = Some url \<and> to_db ev url = Some (bs_database (ps_base s)))"
proof -
  obtain b key hosts url db redis broker backend where b: "load_base ev = Inr b" and key: "\<not> secret_key_refused te he key"
    and vars: "env_vars ev (lit ''SECRET_KEY'') = Some key" "env_vars ev (lit ''ALLOWED_HOSTS'') = Some hosts" "env_vars ev (lit ''DATABASE_URL'') = Some url"
      "env_vars ev (lit ''REDIS_URL'') = Some redis" "env_vars ev (lit ''CELERY_BROKER_URL'') = Some broker"
      "env_vars ev (lit ''CELERY_RESULT_BACKEND'') = Some backend" "to_db ev url = Some db"
    using assms unfolding load_prod_def ebind_Inr_iff env_required_Inr
    by (auto simp: ebind_Inr_iff env_required_Inr split: if_splits)
  from b show "\<exists>b. load_base ev = Inr b" by blast
  from vars show "list_all (\<lambda>v. env_vars ev v \<noteq> None) REQUIRED_VARS" by (simp add: REQUIRED_VARS_def)
  from vars key show "\<not> secret_key_refused te he (env_str ev (lit ''SECRET_KEY'') [])" by (simp add: env_str_def)
  show "\<not> bs_debug (ps_base s) \<and> 50 \<le> length (ps_secret_key s) \<and> 5 \<le> card (set (ps_secret_key s))
          \<and> env_vars ev (lit ''SECRET_KEY'') = Some (ps_secret_key s)
          \<and> env_vars ev (lit ''REDIS_URL'') = Some (bs_cache_location (ps_base s))
          \<and> env_vars ev (lit ''CELERY_BROKER_URL'') = Some (bs_broker_url (ps_base s))
          \<and> env_vars ev (lit ''CELERY_RESULT_BACKEND'') = Some (bs_result_backend (ps_base s))
          \<and> (\<exists>url. env_vars ev (lit ''DATABASE_URL'') = Some url \<and> to_db ev url = Some (bs_database (ps_base s)))"
    using assms b key vars accepted_key_varied [OF key] by (auto simp: load_prod_def env_required_def Let_def)
qed

text \<open>C35: Production starts exactly when the settings can be read, the six variables that have no safe default are set, and the secret
  key is acceptable; then debugging is off, the key has at least 50 characters, five of them different, and no connection
  is the development default: each is the one the environment names.\<close>

theorem prod_starts_iff:
  "((\<exists>s. load_prod te he ev = Inr s) \<longleftrightarrow>
      (\<exists>b. load_base ev = Inr b) \<and> list_all (\<lambda>v. env_vars ev v \<noteq> None) REQUIRED_VARS
      \<and> \<not> secret_key_refused te he (env_str ev (lit ''SECRET_KEY'') []))
   \<and> (case load_prod te he ev of Inl _ \<Rightarrow> True
      | Inr s \<Rightarrow> \<not> bs_debug (ps_base s) \<and> 50 \<le> length (ps_secret_key s) \<and> 5 \<le> card (set (ps_secret_key s))
          \<and> env_vars ev (lit ''SECRET_KEY'') = Some (ps_secret_key s)
          \<and> env_vars ev (lit ''REDIS_URL'') = Some (bs_cache_location (ps_base s))
          \<and> env_vars ev (lit ''CELERY_BROKER_URL'') = Some (bs_broker_url (ps_base s))
          \<and> env_vars ev (lit ''CELERY_RESULT_BACKEND'') = Some (bs_result_backend (ps_base s))
          \<and> (\<exists>url. env_vars ev (lit ''DATABASE_URL'') = Some url \<and> to_db ev url = Some (bs_database (ps_base s))))"
proof (cases "load_prod te he ev")
  case (Inl e)
  have "\<not> ((\<exists>b. load_base ev = Inr b) \<and> list_all (\<lambda>v. env_vars ev v \<noteq> None) REQUIRED_VARS
      \<and> \<not> secret_key_refused te he (env_str ev (lit ''SECRET_KEY'') []))"
    using Inl load_prod_ok [of ev _ te he] by auto
  with Inl show ?thesis by simp
next
  case (Inr s)
  then show ?thesis using load_prod_Inr [OF Inr] by simp
qed

section \<open>Queues\<close>

datatype schedule = Every int | Crontab "int option" int int \<comment> \<open>day of the week, hour, minute\<close>

definition task_routes :: "(ustr \<times> ustr) list" where
  "task_routes =
     [(lit ''tasks.fetcher.'', lit ''default''), (lit ''tasks.articles.'', lit ''default''), (lit ''tasks.tags.'', lit ''default''),
      (lit ''tasks.notifications.'', lit ''default''), (lit ''tasks.digest.'', lit ''low''), (lit ''tasks.scheduler.'', lit ''low'')]"

definition beat_schedule :: "(ustr \<times> ustr \<times> schedule \<times> ustr) list" where
  "beat_schedule =
     [(lit ''enqueue-due-feeds'', lit ''tasks.scheduler.enqueue_due_feeds'', Every 60, lit ''default''),
      (lit ''daily-digest'', lit ''tasks.digest.daily_digest'', Crontab None 9 0, lit ''low''),
      (lit ''refresh-robots-cache'', lit ''tasks.scheduler.refresh_robots_cache'', Crontab None 4 0, lit ''low''),
      (lit ''cleanup-old-articles'', lit ''tasks.scheduler.cleanup_old_articles'', Crontab (Some 0) 3 0, lit ''low'')]"

definition TASK_MODULES :: "ustr list" where
  "TASK_MODULES = [lit ''tasks.articles'', lit ''tasks.digest'', lit ''tasks.fetcher'', lit ''tasks.notifications'', lit ''tasks.scheduler'', lit ''tasks.tags'']"

text \<open>The queue of a call: its own option, else the first route that matches, else \<^verbatim>\<open>CELERY_TASK_DEFAULT_QUEUE\<close>.\<close>

definition queue_of :: "ustr option \<Rightarrow> ustr \<Rightarrow> ustr" where
  "queue_of own task =
     (case own of Some q \<Rightarrow> q
      | None \<Rightarrow> (case find (\<lambda>(pat, _). prefix pat task) task_routes of Some (_, q) \<Rightarrow> q | None \<Rightarrow> lit ''default''))"

text \<open>No task of the loaded modules falls through to the default, and every periodic task belongs to a loaded module.\<close>

lemma modules_routed: "list_all (\<lambda>m. list_ex (\<lambda>(pat, _). pat = m @ lit ''.'') task_routes) TASK_MODULES"
  by code_simp

lemma beat_tasks_loaded: "list_all (\<lambda>(_, task, _, _). list_ex (\<lambda>m. prefix (m @ lit ''.'') task) TASK_MODULES) beat_schedule"
  by code_simp

text \<open>The bulk work stays off the queue that fetches and delivers: with no option of its own, a task of the digest or the
  scheduler goes to \<^verbatim>\<open>low\<close> and a task of any other module to \<^verbatim>\<open>default\<close>.\<close>

lemma queue_of_module:
  "queue_of None (lit ''tasks.digest.'' @ name) = lit ''low''" "queue_of None (lit ''tasks.scheduler.'' @ name) = lit ''low''"
  "queue_of None (lit ''tasks.fetcher.'' @ name) = lit ''default''" "queue_of None (lit ''tasks.notifications.'' @ name) = lit ''default''"
  by (simp_all add: queue_of_def task_routes_def lit_def)

end
