(* ===== verification/Spec2Isabelle.thy ===== *)
theory Spec2Isabelle
  imports Http_Guarantees Ingest Scheduler Digest Search_Index Migrations Article_Migrations Access Deployment
begin

text \<open>
  A verification library for newsforge, an RSS/Atom aggregator: a Django application with Celery workers that crawls
  feeds, stores and tags their articles, answers full-text searches and delivers matches by webhook or mail.

  \<^bold>\<open>Parts of the program and how they interact.\<close>  The scheduler (\<^verbatim>\<open>src/tasks/scheduler.py\<close>) queues the feeds that are
  due.  A crawl (\<^verbatim>\<open>src/tasks/fetcher.py\<close>) takes the rate limit of the host, asks the robots.txt policy, fetches
  the feed through the outbound HTTP client, updates the feed row and queues one task per entry.  That task
  (\<^verbatim>\<open>src/tasks/articles.py\<close>) normalises the entry, inserts or updates the article and, once per article, queues the
  chain of tag rules and notification fan-out.  The fan-out and the daily digest queue deliveries, which send a signed
  webhook request (again through the HTTP client) or a mail and keep a log.  Users and staff change feeds, tags,
  rules and subscriptions through the REST API and read articles and search results.

  \<^bold>\<open>Theories.\<close>  Paths are below \<^verbatim>\<open>src/\<close>.
  \<^item> Foundations: \<open>Prelude\<close> (results that may raise, tables with unique indexes, reachable states, the locales
    \<open>key_preserving\<close> and \<open>inductive_invariant\<close> that the table and state machine proofs interpret), \<open>Py_Str\<close>, \<open>Py_Url\<close>, \<open>Url_Text\<close>,
    \<open>Ip_Address\<close>, \<open>Ip_Printing\<close>, \<open>Json\<close> (the parts of Python's library the program uses), \<open>Django_Cache\<close>.
  \<^item> Outbound HTTP, \<^verbatim>\<open>apps/core/safe_http.py\<close>: \<open>Address_Policy\<close>, \<open>Body_Reader\<close>, \<open>Safe_Http\<close> (\<open>resolve\<close>,
    \<open>request\<close>; the locale \<open>hop_policy\<close> states what a hop keeps and is interpreted for pinning and for the deadline) and
    \<open>Http_Guarantees\<close>: requests go only to public addresses, pinned, a bounded number of times, with a capped body (the
    final flush of a compressed one included), raising only documented exceptions - with one exception that is a finding.
  \<^item> Crawling: \<open>Robots\<close> (\<^verbatim>\<open>apps/feeds/robots.py\<close>: groups, longest match, glob matching against a declarative
    matcher), \<open>Feeds\<close> (models, backoff, rate limit, validator, fetcher), \<open>Fetch_Task\<close> (\<^verbatim>\<open>tasks/fetcher.py\<close>),
    \<open>Scheduler\<close> (\<^verbatim>\<open>tasks/scheduler.py\<close>), \<open>Feed_Api\<close> (serializers, views, permission).
  \<^item> Articles: \<open>Normalizer\<close> (\<^verbatim>\<open>apps/articles/normalizer.py\<close>), \<open>Article_Store\<close> (models, services, the task; one
    definition per SQL statement, and what an upsert promises, column by column), \<open>Article_Pipeline\<close> (any interleaving of the statements of any number of workers),
    \<open>Article_Api\<close> (filters, order, pages), \<open>Ingest\<close> (the messages of a fetch delivered to the task: what becomes of every
    entry of a feed).
  \<^item> Tags: \<open>Tags\<close> (\<^verbatim>\<open>apps/tags\<close>, \<^verbatim>\<open>tasks/tags.py\<close>): what the engine assigns, and the consistency of the tables.
  \<^item> Search: \<open>Search\<close> (\<^verbatim>\<open>apps/search\<close>: parameters, choice of statement, highlights; the locale \<open>paged_statements\<close> is what the
    choice relies on), \<open>Search_Sql\<close> (the three SQL files, which interpret that locale: a search answers a page of one list that
    holds exactly the matching live articles, in order), \<open>Search_Index\<close> (the trigger that fills \<^verbatim>\<open>tsv\<close>, under every
    statement on the table: each row has the vector of its current text).
  \<^item> Subscriptions: \<open>Targets\<close> (keys of receivers), \<open>Subscriptions\<close> (models, serializer, views), \<open>Subscription_Rules\<close>
    (the limits and who sees a secret, for any sequence of requests).
  \<^item> Deliveries: \<open>Notifications\<close> (\<^verbatim>\<open>tasks/notifications.py\<close>), \<open>Delivery_Log\<close> (one run), \<open>Delivery_Lease\<close> (runs
    side by side with crashes and API requests), \<open>Digest\<close> (\<^verbatim>\<open>tasks/digest.py\<close>: what consecutive windows queue, and what
    the limit of a digest leaves out).
  \<^item> Shared API code: \<open>Core_Api\<close> (\<^verbatim>\<open>apps/core\<close>: error envelope, throttling keys, probes, metrics, registration).
  \<^item> \<open>Access\<close> (the \<^verbatim>\<open>urls.py\<close> files, the attributes of the views, \<^verbatim>\<open>REST_FRAMEWORK\<close>): routes, permissions and throttles, and the
    matrix of who may run which handler.
  \<^item> \<open>Deployment\<close> (\<^verbatim>\<open>newsforge/settings\<close>, \<^verbatim>\<open>newsforge/celery.py\<close>): what is read from the environment, when
    production refuses to start, the schedule and the queues of tasks.
  \<^item> \<open>Migrations\<close>, \<open>Article_Migrations\<close>: the data migrations establish what the other theories assume of old rows; the
    recomputed content hashes are those of the normaliser for text with plain white space, and not in general.
  \<^item> This theory: the composition of the article pipeline with tags and notifications.

  \<^bold>\<open>How code corresponds to definitions.\<close>  A function or method is a definition of the same name, up to a leading
  underscore or a prefix where names clash; \<open>run_chain\<close> below stands for Celery, which runs the chain that
  \<^verbatim>\<open>on_article_created\<close> queues.  A model is a record, a table the list of its rows, a transaction or an SQL
  statement one definition on the tables; a violated unique index is an \<open>Inl\<close> or \<open>None\<close>.  Exceptions are \<open>Inl\<close> values
  of an error type of the component.  Strings are lists of Unicode code points, times are microseconds, IP addresses are
  words of 32 and 128 bits, Python's integers are \<open>int\<close>.

  \<^bold>\<open>Parameters.\<close>  Code outside the repository is an argument: DNS, the TCP exchange and zlib (\<open>Safe_Http\<close>, \<open>Body_Reader\<close>),
  the cache, Unicode case folding, NFKC and idna (\<open>text_env\<close>), bleach, language detection and sha256 (\<open>html_env\<close>), hmac,
  \<^verbatim>\<open>isoformat\<close> and \<^verbatim>\<open>send_mail\<close>, PostgreSQL's text search and trigram functions (\<open>fts\<close>, \<open>pg_env\<close>), the framework's exception
  handler, get_ident, permission classes (\<open>drf_env\<close>) and user validators, the conversions of environ (\<open>environ_env\<close>), random tokens.  What a theorem needs of one is a hypothesis with a witness.

  \<^bold>\<open>Bounds and fuel.\<close>  Loops are recursion on lists, or on the number of redirects left.  Decompression runs with the fuel
  \<open>EXPAND_FUEL\<close>, shown to be enough for a decompressor that honours its limit; the parser that reads a payload back has the
  length of the text as fuel, which the round trip shows to be enough; the batches of the cleanup task end because every
  batch but the last removes rows.

  \<^bold>\<open>Not modelled.\<close>  Schema migrations (the models repeat them), settings that are constants of the framework (installed apps,
  middleware, templates, logging), the WSGI set-up, the OpenAPI annotations and tests.  How the framework matches a path against a
  pattern and how it counts a throttle is its own code.  The
  framework parses request bodies, integers and dates before the modelled validation.  Celery's retries appear as the set of
  exceptions that are retried and as deliveries that may run again at any time.

  \<^bold>\<open>Where the code and its intention differ\<close> is proved where it can be: a malformed redirect target escapes the documented
  exceptions, a malformed entry link ends a crawl, a digest that saves an old instance leaves an old receiver key, the
  migration of the content hashes trims less white space than the normaliser.
\<close>

section \<open>From a new article to its notifications\<close>

text \<open>
  The chain that \<^verbatim>\<open>on_article_created\<close> queues, run by one worker after the other: a task that raises
  ends the chain, and the fan-out reads the links that the tag rules wrote.
\<close>

fun run_chain :: "text_env \<Rightarrow> html_env \<Rightarrow> (article \<Rightarrow> ustr \<Rightarrow> bool) \<Rightarrow> feed list \<Rightarrow> article list \<Rightarrow> subscription list
    \<Rightarrow> queued_task list \<Rightarrow> tag_store \<Rightarrow> tag_store \<times> (int \<times> int) list" where
  "run_chain te he fts feeds arts subs [] ts = (ts, [])"
| "run_chain te he fts feeds arts subs (ApplyTagRules aid # tasks) ts =
     (case apply_tag_rules te he arts aid ts of
        (ts', Inl _) \<Rightarrow> (ts', [])
      | (ts', Inr _) \<Rightarrow> run_chain te he fts feeds arts subs tasks ts')"
| "run_chain te he fts feeds arts subs (FanoutInstant aid # tasks) ts =
     (case run_chain te he fts feeds arts subs tasks ts of
        (ts', queued) \<Rightarrow> (ts', fst (fanout_instant fts (ts_links ts) feeds arts aid subs) @ queued))"

lemma find_by_id:
  assumes "a \<in> set arts" and "p a" and "\<And>b. b \<in> set arts \<Longrightarrow> a_id b = a_id a \<Longrightarrow> b = a"
  shows "find (\<lambda>b. a_id b = a_id a \<and> p b) arts = Some a"
proof (cases "find (\<lambda>b. a_id b = a_id a \<and> p b) arts")
  case None
  then show ?thesis using assms(1,2) by (auto simp: find_None_iff)
next
  case (Some b)
  then show ?thesis using find_SomeD [OF Some] assms(3) [of b] by simp
qed

lemma fanout_members:
  assumes "live_article feeds arts aid = Some a" and "uniq sub_id_key subs" and "s \<in> set subs"
  shows "(s_id s, aid) \<in> set (fst (fanout_instant fts links feeds arts aid subs))
    \<longleftrightarrow> s_is_active s \<and> s_interval s = INSTANT \<and> filters_match fts links a s"
proof -
  have "t = s" if "t \<in> set subs" "s_id t = s_id s" for t
    using uniq_same_row [OF assms(2) that(1) assms(3)] that(2) by (simp add: sub_id_key_def)
  then show ?thesis using assms(1,3) by (auto simp: fanout_instant_def match_instant_def Let_def)
qed

text \<open>C4: A new article reaches exactly the subscriptions it should: when the chain queued for it has run, a delivery is
  queued for a subscription just when that is active and instant, its query and feeds match, and its tag filter is
  empty or names a tag that the article had or that an active rule gives it.  The rules run before the fan-out, so a
  filter on a tag assigned by a rule does not miss the article.\<close>

theorem new_article_notifies:
  assumes "a \<in> set arts" and "\<not> a_is_deleted a" and "\<forall>b \<in> set arts. a_id b = a_id a \<longrightarrow> b = a"
    and "f \<in> set feeds" and "f_id f = a_feed a" and "\<not> f_is_deleted f" and "uniq sub_id_key subs" and "s \<in> set subs"
  shows "(s_id s, a_id a) \<in> set (snd (run_chain te he fts feeds arts subs (on_article_created (a_id a)) ts))
    \<longleftrightarrow> s_is_active s \<and> s_interval s = INSTANT \<and> fts a (s_q s) \<and> (s_feeds s = [] \<or> a_feed a \<in> set (s_feeds s))
      \<and> (s_tag_ids s = [] \<or> (\<exists>t \<in> set (s_tag_ids s). (a_id a, t) \<in> set (ts_links ts)
           \<or> (\<exists>r \<in> set (ts_rules ts). tr_is_active r \<and> tr_tag r = t \<and> rule_applies te (haystack te he a) (a_language a) r)))"
proof -
  obtain ts' res where run: "apply_rules_to_article te he arts (a_id a) ts = (ts', res)" by fastforce
  have ids: "\<And>b. b \<in> set arts \<Longrightarrow> a_id b = a_id a \<Longrightarrow> b = a" using assms(3) by blast
  obtain assigned where res: "res = Inr assigned"
    and links: "set (ts_links ts') = set (ts_links ts) \<union> {(a_id a, tr_tag r) |r. r \<in> set (ts_rules ts) \<and> tr_is_active r
                  \<and> rule_applies te (haystack te he a) (a_language a) r}"
    using apply_rules_spec [OF assms(1,2) ids run] by blast
  have live: "live_article feeds arts (a_id a) = Some a"
    unfolding live_article_def by (rule find_by_id) (use assms ids in \<open>auto simp: list_ex_iff\<close>)
  have "snd (run_chain te he fts feeds arts subs (on_article_created (a_id a)) ts)
    = fst (fanout_instant fts (ts_links ts') feeds arts (a_id a) subs)"
    using run res by (simp add: on_article_created_def apply_tag_rules_def)
  then show ?thesis
    using fanout_members [OF live assms(7,8)] links by (auto simp: filters_match_def list_ex_iff)
qed

theorem new_article_notifies_witness:
  "(7, 5) \<in> set (snd (run_chain te_ascii he_example (\<lambda>_ _. True) [default_feed 0 2] [article_rust]
       [(blank_sub 0 1 EMAIL)\<lparr>s_id := 7, s_is_active := True, s_interval := INSTANT, s_tag_ids := [4]\<rparr>]
       (on_article_created 5) tags_example))"
proof -
  let ?s = "(blank_sub 0 1 EMAIL)\<lparr>s_id := 7, s_is_active := True, s_interval := INSTANT, s_tag_ids := [4]\<rparr>"
  have "rule_applies te_ascii (haystack te_ascii he_example article_rust) (a_language article_rust) rule_plain"
    unfolding tag_rule_matches_iff [symmetric] by code_simp
  moreover have "rule_plain \<in> set (ts_rules tags_example)" "tr_is_active rule_plain" "tr_tag rule_plain = 4"
    by (simp_all add: tags_example_def rule_plain_def)
  moreover have "a_id article_rust = 5" "\<not> a_is_deleted article_rust" "f_id (default_feed 0 2) = a_feed article_rust"
    "\<not> f_is_deleted (default_feed 0 2)" "uniq sub_id_key [?s]" "s_id ?s = 7" "s_tag_ids ?s = [4]" "s_feeds ?s = []" "s_is_active ?s" "s_interval ?s = INSTANT"
    by (simp_all add: article_rust_def default_feed_def blank_sub_def uniq_Cons conflicts_def has_key_iff split: option.split)
  ultimately show ?thesis
    using new_article_notifies [of article_rust "[article_rust]" "default_feed 0 2" "[default_feed 0 2]" "[?s]" ?s te_ascii he_example
        "\<lambda>_ _. True" tags_example] by auto
qed

end
